(* ===== verification/Prelude.thy ===== *)
theory Prelude
  imports Main "HOL-Library.Word"
begin

text \<open>
  Shared ground of the development: the way a kernel routine ends (it returns, it calls
  \<^verbatim>\<open>fatal\<close>, or it performs an access the language leaves undefined), unsigned 64 and 32 bit
  arithmetic with its wrap-around (\<^verbatim>\<open>util/bits/int.hh\<close>), and the macros of
  \<^verbatim>\<open>util/bits/arithmetic.hh\<close> that the allocators, the page tables and the drivers use.
\<close>

unbundle bit_operations_syntax

named_theorems res_simps \<open>the result type and its sequencing\<close>
named_theorems wrap_simps \<open>unsigned arithmetic that stays in range\<close>

section \<open>Results of kernel routines\<close>

text \<open>
  \<open>Fatal\<close> is a call of \<^verbatim>\<open>fatal\<close> or a failed \<^verbatim>\<open>assert\<close>, which never return; \<open>Undefined\<close> is a
  null dereference or an access outside the object; \<open>Hang\<close> is \<^verbatim>\<open>pause()\<close>, the endless halt loop.
\<close>

datatype halt = Fatal string | Undefined | Hang

type_synonym 'a res = "halt + 'a"

definition rbind :: "'a res \<Rightarrow> ('a \<Rightarrow> 'b res) \<Rightarrow> 'b res" where
  "rbind m f = (case m of Inl e \<Rightarrow> Inl e | Inr x \<Rightarrow> f x)"

lemma rbind_Inl [simp, res_simps]: "rbind (Inl e) f = Inl e"
  by (simp add: rbind_def)

lemma rbind_Inr [simp, res_simps]: "rbind (Inr x) f = f x"
  by (simp add: rbind_def)

lemma rbind_eq_Inr [res_simps]: "rbind m f = Inr y \<longleftrightarrow> (\<exists>x. m = Inr x \<and> f x = Inr y)"
  by (cases m) auto

lemma rbind_eq_Inl: "rbind m f = Inl e \<longleftrightarrow> m = Inl e \<or> (\<exists>x. m = Inr x \<and> f x = Inl e)"
  by (cases m) auto

lemma rbind_cong [fundef_cong]:
  "m = m' \<Longrightarrow> (\<And>x. m' = Inr x \<Longrightarrow> f x = g x) \<Longrightarrow> rbind m f = rbind m' g"
  by (cases m') auto

lemma rbind_assoc: "rbind (rbind m f) g = rbind m (\<lambda>x. rbind (f x) g)"
  by (cases m) auto

lemma rbindE [elim]:
  assumes "rbind m f = Inr y"
  obtains x where "m = Inr x" and "f x = Inr y"
  using assms by (auto simp: rbind_eq_Inr)

section \<open>Unsigned integers of a fixed width\<close>

text \<open>
  A value of the source type \<^verbatim>\<open>u64\<close> is a natural number below \<open>2 ^ 64\<close>; every operation that can
  leave the range wraps. \<open>NPOS\<close> is \<^verbatim>\<open>-1ull\<close>, the code's "nothing found".
\<close>

definition add64 :: "nat \<Rightarrow> nat \<Rightarrow> nat" where
  "add64 a b = (a + b) mod 2 ^ 64"

definition sub64 :: "nat \<Rightarrow> nat \<Rightarrow> nat" where
  "sub64 a b = (a + (2 ^ 64 - b mod 2 ^ 64)) mod 2 ^ 64"

definition mul64 :: "nat \<Rightarrow> nat \<Rightarrow> nat" where
  "mul64 a b = (a * b) mod 2 ^ 64"

definition trunc32 :: "nat \<Rightarrow> nat" where
  "trunc32 a = a mod 2 ^ 32"

definition NPOS :: nat where
  "NPOS = 2 ^ 64 - 1"

lemma add64_small [wrap_simps]: "a + b < 2 ^ 64 \<Longrightarrow> add64 a b = a + b"
  by (simp add: add64_def)

lemma sub64_small [wrap_simps]:
  assumes "b \<le> a" and "a < 2 ^ 64"
  shows "sub64 a b = a - b"
proof -
  have "a + (2 ^ 64 - b mod 2 ^ 64) = (a - b) + 2 ^ 64"
    using assms by simp
  then have "sub64 a b = ((a - b) + 2 ^ 64) mod 2 ^ 64"
    by (simp only: sub64_def)
  also have "\<dots> = (a - b) mod 2 ^ 64"
    by (rule mod_add_self2)
  also have "\<dots> = a - b"
    using assms by simp
  finally show ?thesis .
qed

lemma mul64_small [wrap_simps]: "a * b < 2 ^ 64 \<Longrightarrow> mul64 a b = a * b"
  by (simp add: mul64_def)

lemma trunc32_small [wrap_simps]: "a < 2 ^ 32 \<Longrightarrow> trunc32 a = a"
  by (simp add: trunc32_def)

lemma add64_lt [simp, intro]: "add64 a b < 2 ^ 64"
  by (simp add: add64_def)

lemma sub64_lt [simp, intro]: "sub64 a b < 2 ^ 64"
  by (simp add: sub64_def)

lemma mul64_lt [simp, intro]: "mul64 a b < 2 ^ 64"
  by (simp add: mul64_def)

text \<open>The same bounds with the power evaluated, the form in which the simplifier meets them.\<close>

lemma wrap_lt_numeral [simp]:
  "add64 a b < 18446744073709551616" "sub64 a b < 18446744073709551616"
  "mul64 a b < 18446744073709551616"
  using add64_lt [of a b] sub64_lt [of a b] mul64_lt [of a b] by simp_all

section \<open>The arithmetic macros\<close>

definition bytes2kibs :: "nat \<Rightarrow> nat" where
  "bytes2kibs b = drop_bit 10 b"

definition mibs2bytes :: "nat \<Rightarrow> nat" where
  "mibs2bytes m = push_bit 20 m mod 2 ^ 64"

definition gibs2bytes :: "nat \<Rightarrow> nat" where
  "gibs2bytes g = push_bit 30 g mod 2 ^ 64"

definition align64 :: "nat \<Rightarrow> nat \<Rightarrow> nat" where
  "align64 x a = mul64 (add64 x (sub64 a 1) div a) a"

definition align_down :: "nat \<Rightarrow> nat \<Rightarrow> nat" where
  "align_down x a = x div a * a"

definition isaligned :: "nat \<Rightarrow> nat \<Rightarrow> bool" where
  "isaligned x a \<longleftrightarrow> x mod a = 0"

text \<open>
  \<^verbatim>\<open>VIRTUAL\<close> and \<^verbatim>\<open>PHYSICAL\<close> move an address into and out of the direct map at
  \<^verbatim>\<open>0xffff800000000000\<close>; the complement of that mask is the low 47 bits.
\<close>

definition HHDM :: nat where
  "HHDM = 0xffff800000000000"

definition VIRTUAL :: "nat \<Rightarrow> nat" where
  "VIRTUAL a = a OR HHDM"

definition PHYSICAL :: "nat \<Rightarrow> nat" where
  "PHYSICAL a = a AND (2 ^ 64 - 1 - HHDM)"

subsection \<open>Facts about alignment\<close>

lemma ceil_div_mult_bounds:
  fixes x a :: nat
  assumes "0 < a"
  shows "x \<le> (x + (a - 1)) div a * a" and "(x + (a - 1)) div a * a < x + a"
    and "(x + (a - 1)) div a * a \<le> x + (a - 1)"
proof -
  let ?q = "(x + (a - 1)) div a"
  have dm: "?q * a + (x + (a - 1)) mod a = x + (a - 1)"
    by simp
  have lt: "(x + (a - 1)) mod a < a"
    using assms by simp
  show "x \<le> ?q * a"
    using dm lt by linarith
  show "?q * a < x + a"
    using dm assms by linarith
  show "?q * a \<le> x + (a - 1)"
    using dm by linarith
qed

lemma align64_eq:
  assumes "0 < a" and "x + a \<le> 2 ^ 64"
  shows "align64 x a = (x + (a - 1)) div a * a"
proof -
  have s: "sub64 a 1 = a - 1" if "a < 2 ^ 64"
    using assms that by (simp add: sub64_small)
  show ?thesis
  proof (cases "a < 2 ^ 64")
    case True
    have "(x + (a - 1)) div a * a \<le> x + (a - 1)"
      using assms(1) by (rule ceil_div_mult_bounds)
    then have "(x + (a - 1)) div a * a < 2 ^ 64"
      using assms by linarith
    then show ?thesis
      using s [OF True] assms by (simp add: align64_def add64_small mul64_small)
  next
    case False
    with assms have "a = 2 ^ 64" "x = 0" by auto
    then show ?thesis
      by (simp add: align64_def mul64_def)
  qed
qed

lemma align64_ge: "0 < a \<Longrightarrow> x + a \<le> 2 ^ 64 \<Longrightarrow> x \<le> align64 x a"
  using ceil_div_mult_bounds(1) [of a x] by (simp add: align64_eq)

lemma align64_less: "0 < a \<Longrightarrow> x + a \<le> 2 ^ 64 \<Longrightarrow> align64 x a < x + a"
  using ceil_div_mult_bounds(2) [of a x] by (simp add: align64_eq)

lemma align64_dvd: "0 < a \<Longrightarrow> x + a \<le> 2 ^ 64 \<Longrightarrow> a dvd align64 x a"
  by (simp add: align64_eq)

lemma align64_id:
  assumes "0 < a" and "x + a \<le> 2 ^ 64" and "a dvd x"
  shows "align64 x a = x"
proof -
  obtain k where k: "x = k * a" using assms(3) by (auto simp: dvd_def mult.commute)
  have "x \<le> align64 x a" and "align64 x a < x + a"
    using assms by (auto intro: align64_ge align64_less)
  moreover obtain m where m: "align64 x a = m * a"
    using align64_dvd [OF assms(1,2)] by (auto simp: dvd_def mult.commute)
  ultimately have "k * a \<le> m * a" and "m * a < Suc k * a"
    using k by auto
  then have "k = m"
    using assms(1) by (metis Suc_leI le_antisym mult_less_cancel2 not_less)
  then show ?thesis using k m by simp
qed

lemma least_multiple:
  fixes x a p q :: nat
  assumes "a dvd p" and "p < x + a" and "a dvd q \<and> x \<le> q"
  shows "p \<le> q"
proof (rule ccontr)
  assume gt: "\<not> p \<le> q"
  then have "a dvd p - q" and "0 < p - q"
    using assms by (auto intro: dvd_diff_nat)
  then have "a \<le> p - q"
    by (simp add: dvd_imp_le)
  with gt assms(2,3) show False by linarith
qed

lemma align_down_le [simp]: "align_down x a \<le> x"
  by (simp add: align_down_def)

lemma align_down_dvd [simp]: "a dvd align_down x a"
  by (simp add: align_down_def)

lemma isaligned_iff_dvd: "isaligned x a \<longleftrightarrow> a dvd x"
  by (simp add: isaligned_def dvd_eq_mod_eq_0)

subsection \<open>Facts about the direct map\<close>

lemma PHYSICAL_eq_mod: "PHYSICAL a = a mod 2 ^ 47"
proof -
  have "(2 ^ 64 - 1 - HHDM :: nat) = mask 47"
    by (simp add: HHDM_def mask_eq_exp_minus_1)
  then have "PHYSICAL a = take_bit 47 a"
    by (simp only: PHYSICAL_def take_bit_eq_mask)
  then show ?thesis
    by (simp only: take_bit_eq_mod)
qed

lemma PHYSICAL_VIRTUAL [simp]: "PHYSICAL (VIRTUAL a) = PHYSICAL a"
proof -
  have "take_bit 47 (a OR HHDM) = take_bit 47 a OR take_bit 47 HHDM"
    by (rule take_bit_or)
  also have "take_bit 47 HHDM = 0"
    by (simp add: HHDM_def take_bit_eq_mod)
  finally have "take_bit 47 (VIRTUAL a) = take_bit 47 a"
    by (simp add: VIRTUAL_def)
  then show ?thesis
    by (simp only: PHYSICAL_eq_mod take_bit_eq_mod)
qed

lemma PHYSICAL_small: "a < 2 ^ 47 \<Longrightarrow> PHYSICAL a = a"
  by (simp add: PHYSICAL_eq_mod)

lemma VIRTUAL_eq_add:
  assumes "a < 2 ^ 47"
  shows "VIRTUAL a = a + HHDM"
proof -
  have h: "HHDM = push_bit 47 0x1ffff"
    by (simp add: HHDM_def push_bit_eq_mult)
  have t: "take_bit 47 a = a"
    using assms by (simp add: take_bit_eq_mod)
  have d: "\<not> (bit (take_bit 47 a) n \<and> bit (push_bit 47 0x1ffff :: nat) n)" for n
    by (simp only: bit_take_bit_iff bit_push_bit_iff) auto
  have "take_bit 47 a + push_bit 47 0x1ffff = take_bit 47 a OR push_bit 47 0x1ffff"
    by (rule disjunctive_add) (use d in blast)
  then show ?thesis
    by (simp only: VIRTUAL_def h t)
qed

end
