(* ===== verification/Bitmap.thy ===== *)
theory Bitmap
  imports Prelude
begin

text \<open>
  \<^verbatim>\<open>BitmapSkeleton\<close> of \<^verbatim>\<open>util/bitmap.hh\<close>: a bit set over an array of 64 bit words, with a first-fit
  search for a run of clear bits. It allocates physical pages, heap links, arena slots, module
  numbers and USB addresses, so what it promises is stated once, as the locale
  \<open>slot_allocator\<close>, and interpreted on the code's operations.
\<close>

section \<open>The data structure and its operations\<close>

record bitmap =
  buffer :: "64 word list"
  sz :: nat

definition bitmap_set :: "bitmap \<Rightarrow> nat \<Rightarrow> bool \<Rightarrow> bitmap res" where
  "bitmap_set b idx val =
     (let bufidx = idx div 64; bitidx = idx mod 64 in
      if sz b \<le> idx then Inl (Fatal ''set out of bounds'')
      else if length (buffer b) \<le> bufidx then Inl Undefined
      else if val then Inr (b\<lparr>buffer := (buffer b)[bufidx := (buffer b ! bufidx) OR push_bit bitidx 1]\<rparr>)
      else Inr (b\<lparr>buffer := (buffer b)[bufidx := (buffer b ! bufidx) AND NOT (push_bit bitidx 1)]\<rparr>))"

definition bitmap_get :: "bitmap \<Rightarrow> nat \<Rightarrow> bool res" where
  "bitmap_get b idx =
     (if sz b \<le> idx then Inl (Fatal ''get out of bounds'')
      else let bufidx = idx div 64; bitidx = idx mod 64 in
      if length (buffer b) \<le> bufidx then Inl Undefined
      else Inr ((buffer b ! bufidx) AND push_bit bitidx 1 \<noteq> 0))"

text \<open>The marking loop of \<^verbatim>\<open>allocate_range\<close>: set the bits from \<open>j\<close> up to and including \<open>i\<close>.\<close>

function mark_bits :: "bitmap \<Rightarrow> nat \<Rightarrow> nat \<Rightarrow> bitmap res" where
  "mark_bits b j i =
     (if j \<le> i then rbind (bitmap_set b j True) (\<lambda>b'. mark_bits b' (Suc j) i) else Inr b)"
  by pat_completeness auto
termination
  by (relation "measure (\<lambda>(b, j, i). Suc i - j)") auto

text \<open>The search loop: \<open>current\<close> is the start of the run of clear bits that reaches \<open>i\<close>.\<close>

function allocate_loop :: "bitmap \<Rightarrow> nat \<Rightarrow> nat \<Rightarrow> nat \<Rightarrow> nat \<Rightarrow> (nat \<times> bitmap) res" where
  "allocate_loop b n stop current i =
     (if i < stop then
        (case bitmap_get b i of
           Inl e \<Rightarrow> Inl e
         | Inr used \<Rightarrow>
             if \<not> used then
               (if i - current + 1 = n then rbind (mark_bits b current i) (\<lambda>b'. Inr (current, b'))
                else allocate_loop b n stop current (Suc i))
             else allocate_loop b n stop (i + 1) (Suc i))
      else Inr (NPOS, b))"
  by pat_completeness auto
termination
  by (relation "measure (\<lambda>(b, n, stop, current, i). stop - i)") auto

definition allocate_range :: "bitmap \<Rightarrow> nat \<Rightarrow> nat \<Rightarrow> nat \<Rightarrow> (nat \<times> bitmap) res" where
  "allocate_range b start stop n =
     (if n = 0 then Inl (Fatal ''n > 0'')
      else allocate_loop b n (min stop (sz b)) start start)"

definition find_and_set_multiple :: "bitmap \<Rightarrow> nat \<Rightarrow> nat \<Rightarrow> (nat \<times> bitmap) res" where
  "find_and_set_multiple b n start_at =
     rbind (allocate_range b start_at (sz b) n)
       (\<lambda>(first, b'). if first \<noteq> NPOS then Inr (first, b') else allocate_range b' 0 start_at n)"

text \<open>The parameter \<open>start_at\<close> is not passed on: the search always starts at bit 0.\<close>

definition find_and_set :: "bitmap \<Rightarrow> nat \<Rightarrow> (nat \<times> bitmap) res" where
  "find_and_set b start_at = find_and_set_multiple b 1 0"

text \<open>\<^verbatim>\<open>init\<close> takes over \<open>buf\<close>, the words at \<^verbatim>\<open>_buffer\<close>, and overwrites the first \<^verbatim>\<open>sz / 64\<close> of them.\<close>

function fill_words :: "64 word list \<Rightarrow> 64 word \<Rightarrow> nat \<Rightarrow> nat \<Rightarrow> 64 word list res" where
  "fill_words buf defa i n =
     (if i < n then
        (if i < length buf then fill_words (buf[i := defa]) defa (Suc i) n else Inl Undefined)
      else Inr buf)"
  by pat_completeness auto
termination
  by (relation "measure (\<lambda>(buf, defa, i, n). n - i)") auto

definition bitmap_init :: "64 word list \<Rightarrow> nat \<Rightarrow> bool \<Rightarrow> bitmap res" where
  "bitmap_init buf units def =
     (let defa = (if def then - 1 else 0); s = align_down units 64
      in rbind (fill_words buf defa 0 (s div 64)) (\<lambda>buf'. Inr \<lparr>buffer = buf', sz = s\<rparr>))"

declare mark_bits.simps [simp del] allocate_loop.simps [simp del] fill_words.simps [simp del]

section \<open>Abstraction: the set of marked indices\<close>

definition bits :: "bitmap \<Rightarrow> nat \<Rightarrow> bool" where
  "bits b i = bit (buffer b ! (i div 64)) (i mod 64)"

definition bitmap_wf :: "bitmap \<Rightarrow> bool" where
  "bitmap_wf b \<longleftrightarrow> sz b \<le> 64 * length (buffer b) \<and> sz b < 2 ^ 64"

definition free_run :: "bitmap \<Rightarrow> nat \<Rightarrow> nat \<Rightarrow> bool" where
  "free_run b s n \<longleftrightarrow> (\<forall>k < n. \<not> bits b (s + k))"

text \<open>\<open>b'\<close> is \<open>b\<close> with exactly the bits of \<open>[p, p + n)\<close> added.\<close>

definition marked :: "bitmap \<Rightarrow> bitmap \<Rightarrow> nat \<Rightarrow> nat \<Rightarrow> bool" where
  "marked b b' p n \<longleftrightarrow> bitmap_wf b' \<and> sz b' = sz b \<and>
     (\<forall>j. bits b' j \<longleftrightarrow> bits b j \<or> p \<le> j \<and> j < p + n)"

lemma bufidx_in_range: "bitmap_wf b \<Longrightarrow> i < sz b \<Longrightarrow> i div 64 < length (buffer b)"
  by (auto simp: bitmap_wf_def)

lemma bitmap_get_eq [simp]:
  assumes "bitmap_wf b" and "i < sz b"
  shows "bitmap_get b i = Inr (bits b i)"
  using assms bufidx_in_range [OF assms]
  by (simp add: bitmap_get_def bits_def Let_def bit_iff_and_push_bit_not_eq_0)

lemma bits_update:
  assumes "i div 64 < length (buffer b)"
    and w: "\<And>k. k < 64 \<Longrightarrow> bit w k = (if k = i mod 64 then v else bit (buffer b ! (i div 64)) k)"
  shows "bits (b\<lparr>buffer := (buffer b)[i div 64 := w]\<rparr>) = (bits b)(i := v)"
proof
  fix j
  show "bits (b\<lparr>buffer := (buffer b)[i div 64 := w]\<rparr>) j = ((bits b)(i := v)) j"
  proof (cases "j div 64 = i div 64")
    case True
    then have same: "j = i \<longleftrightarrow> j mod 64 = i mod 64"
      by (metis div_mult_mod_eq)
    have "j mod 64 < 64" by simp
    from w [OF this] show ?thesis
      using assms(1) True same by (simp add: bits_def)
  next
    case False
    then have "j \<noteq> i" by auto
    with False show ?thesis by (simp add: bits_def)
  qed
qed

lemma bitmap_set_ok:
  assumes "bitmap_wf b" and "i < sz b"
  obtains b' where "bitmap_set b i v = Inr b'" and "bitmap_wf b'" and "sz b' = sz b"
    and "bits b' = (bits b)(i := v)"
proof -
  let ?old = "buffer b ! (i div 64)"
  let ?w = "if v then ?old OR push_bit (i mod 64) 1 else ?old AND NOT (push_bit (i mod 64) 1)"
  let ?b' = "b\<lparr>buffer := (buffer b)[i div 64 := ?w]\<rparr>"
  have r: "i div 64 < length (buffer b)"
    using assms by (rule bufidx_in_range)
  have "bit ?w k = (if k = i mod 64 then v else bit ?old k)" if "k < 64" for k
    using that by (auto simp: bit_or_iff bit_and_iff bit_not_iff bit_push_bit_iff bit_1_iff bit_exp_iff)
  with r have "bits ?b' = (bits b)(i := v)"
    by (rule bits_update)
  moreover have "bitmap_set b i v = Inr ?b'"
    using assms(2) r by (simp add: bitmap_set_def Let_def)
  moreover have "bitmap_wf ?b'" and "sz ?b' = sz b"
    using assms(1) by (simp_all add: bitmap_wf_def)
  ultimately show thesis using that by blast
qed

lemma bitmap_set_out_of_bounds: "sz b \<le> i \<Longrightarrow> bitmap_set b i v = Inl (Fatal ''set out of bounds'')"
  by (simp add: bitmap_set_def Let_def)

lemma bitmap_get_out_of_bounds: "sz b \<le> i \<Longrightarrow> bitmap_get b i = Inl (Fatal ''get out of bounds'')"
  by (simp add: bitmap_get_def)

lemma wf_below_NPOS: "bitmap_wf b \<Longrightarrow> i < sz b \<Longrightarrow> i \<noteq> NPOS"
  by (auto simp: bitmap_wf_def NPOS_def)

section \<open>The search\<close>

lemma mark_bits_ok:
  assumes "bitmap_wf b" and "j \<le> Suc i" and "i < sz b"
  shows "\<exists>b'. mark_bits b j i = Inr b' \<and> marked b b' j (Suc i - j)"
  using assms
proof (induction b j i rule: mark_bits.induct)
  case (1 b j i)
  show ?case
  proof (cases "j \<le> i")
    case True
    with "1.prems" obtain c where c: "bitmap_set b j True = Inr c" "bitmap_wf c" "sz c = sz b"
      "bits c = (bits b)(j := True)"
      using bitmap_set_ok [of b j True] by (metis le_less_trans)
    with "1.IH" [OF True c(1)] "1.prems" True obtain b' where
      b': "mark_bits c (Suc j) i = Inr b'" "marked c b' (Suc j) (Suc i - Suc j)"
      by auto
    have "marked b b' j (Suc i - j)"
      using b'(2) c True by (auto simp: marked_def)
    with b'(1) c(1) True show ?thesis
      by (subst mark_bits.simps) simp
  next
    case False
    with "1.prems" show ?thesis
      by (subst mark_bits.simps) (auto simp: marked_def)
  qed
qed

definition search_result :: "bitmap \<Rightarrow> nat \<Rightarrow> nat \<Rightarrow> nat \<Rightarrow> nat \<Rightarrow> bitmap \<Rightarrow> bool" where
  "search_result b start stop n p b' \<longleftrightarrow>
     (if p = NPOS then b' = b \<and> (\<forall>s \<ge> start. s + n \<le> stop \<longrightarrow> \<not> free_run b s n)
      else start \<le> p \<and> p + n \<le> stop \<and> free_run b p n \<and> marked b b' p n \<and>
        (\<forall>s. start \<le> s \<and> s < p \<longrightarrow> \<not> free_run b s n))"

lemma allocate_loop_ok:
  assumes "bitmap_wf b" and "stop \<le> sz b" and "0 < n"
    and "start \<le> current" and "current \<le> i" and "i - current < n"
    and "\<forall>j. current \<le> j \<and> j < i \<longrightarrow> \<not> bits b j"
    and "\<forall>s. start \<le> s \<and> s < current \<longrightarrow> \<not> free_run b s n"
  shows "\<exists>p b'. allocate_loop b n stop current i = Inr (p, b') \<and> search_result b start stop n p b'"
  using assms
proof (induction b n stop current i rule: allocate_loop.induct)
  case (1 b n stop current i)
  show ?case
  proof (cases "i < stop")
    case False
    have "\<not> free_run b s n" if "start \<le> s" "s + n \<le> stop" for s
    proof -
      have "current + n \<le> s + n" if "current \<le> s"
        using that by simp
      then have "s < current"
        using that False "1.prems"(5,6) by linarith
      with "1.prems"(8) \<open>start \<le> s\<close> show ?thesis by blast
    qed
    with False show ?thesis
      by (subst allocate_loop.simps) (auto simp: search_result_def)
  next
    case True
    with "1.prems" have lt: "i < sz b" by simp
    show ?thesis
    proof (cases "bits b i")
      case used: True
      have "\<not> free_run b s n" if "start \<le> s" "s < i + 1" for s
      proof (cases "s < current")
        case False
        then have "i - s < n" using "1.prems"(6) by linarith
        moreover have "s + (i - s) = i" using that by simp
        ultimately show ?thesis using used by (auto simp: free_run_def)
      qed (use "1.prems"(8) that in blast)
      with "1.IH"(2) [of True] used True lt "1.prems" show ?thesis
        by (subst allocate_loop.simps) simp
    next
      case free: False
      show ?thesis
      proof (cases "i - current + 1 = n")
        case found: True
        have run: "free_run b current n"
          unfolding free_run_def
        proof (intro allI impI)
          fix k assume "k < n"
          then have "current + k < i \<or> current + k = i" using found "1.prems"(5) by linarith
          then show "\<not> bits b (current + k)" using "1.prems"(7) free by auto
        qed
        have n: "Suc i - current = n" using found "1.prems"(5) by simp
        obtain b' where "mark_bits b current i = Inr b'" "marked b b' current n"
          using mark_bits_ok [of b current i] "1.prems"(1,5) lt n by auto
        moreover have "current \<noteq> NPOS"
          using wf_below_NPOS [of b current] "1.prems"(1,5) lt by simp
        ultimately show ?thesis
          using True free lt found run "1.prems"(1,4,5,8) n
          by (subst allocate_loop.simps) (auto simp: search_result_def)
      next
        case False
        have less: "Suc i - current < n" using False "1.prems"(5,6) by linarith
        have "\<forall>j. current \<le> j \<and> j < Suc i \<longrightarrow> \<not> bits b j"
          using "1.prems"(7) free less_Suc_eq by auto
        with "1.IH"(1) [of False] False free True lt less "1.prems" show ?thesis
          by (subst allocate_loop.simps) simp
      qed
    qed
  qed
qed

lemma allocate_range_ok:
  assumes "bitmap_wf b" and "0 < n"
  shows "\<exists>p b'. allocate_range b start stop n = Inr (p, b') \<and>
           search_result b start (min stop (sz b)) n p b'"
proof -
  have "\<exists>p b'. allocate_loop b n (min stop (sz b)) start start = Inr (p, b') \<and>
           search_result b start (min stop (sz b)) n p b'"
    using assms by (intro allocate_loop_ok) auto
  with assms(2) show ?thesis by (simp add: allocate_range_def)
qed

lemma find_and_set_multiple_cases:
  assumes "bitmap_wf b" and "0 < n"
  obtains (above) p b' where "find_and_set_multiple b n start_at = Inr (p, b')" and "p \<noteq> NPOS"
      and "search_result b start_at (sz b) n p b'"
  | (below) p b' where "find_and_set_multiple b n start_at = Inr (p, b')"
      and "search_result b start_at (sz b) n NPOS b"
      and "search_result b 0 (min start_at (sz b)) n p b'"
proof -
  obtain p b' where a: "allocate_range b start_at (sz b) n = Inr (p, b')"
    "search_result b start_at (sz b) n p b'"
    using allocate_range_ok [OF assms, of start_at "sz b"] by auto
  obtain q c where r: "allocate_range b 0 start_at n = Inr (q, c)"
    "search_result b 0 (min start_at (sz b)) n q c"
    using allocate_range_ok [OF assms, of 0 start_at] by auto
  show thesis
  proof (cases "p = NPOS")
    case True
    with a(2) have "b' = b" by (simp add: search_result_def)
    with True a r show thesis
      by (intro below [of q c]) (simp_all add: find_and_set_multiple_def)
  next
    case False
    with a show thesis
      by (intro above [of p b']) (simp_all add: find_and_set_multiple_def)
  qed
qed

lemma fill_words_ok:
  "i \<le> n \<Longrightarrow> n \<le> length buf \<Longrightarrow>
   fill_words buf defa i n = Inr (take i buf @ replicate (n - i) defa @ drop n buf)"
proof (induction buf defa i n rule: fill_words.induct)
  case (1 buf defa i n)
  show ?case
  proof (cases "i < n")
    case True
    with "1.prems" have lt: "i < length buf" by simp
    have "take (Suc i) (buf[i := defa]) = take i buf @ [defa]"
      using lt by (simp add: take_Suc_conv_app_nth)
    moreover have "replicate (n - i) defa = defa # replicate (n - Suc i) defa"
      using True by (simp add: Suc_diff_Suc flip: replicate_Suc)
    moreover have "drop n (buf[i := defa]) = drop n buf"
      using True by simp
    ultimately show ?thesis
      using "1.IH" True lt "1.prems" by (subst fill_words.simps) simp
  next
    case False
    with "1.prems" show ?thesis by (subst fill_words.simps) simp
  qed
qed

lemma bitmap_init_ok:
  assumes "units div 64 \<le> length buf" and "units < 2 ^ 64"
  obtains b where "bitmap_init buf units def = Inr b" and "bitmap_wf b"
    and "sz b = align_down units 64" and "\<forall>i < sz b. bits b i = def"
    and "length (buffer b) = length buf"
proof -
  let ?n = "units div 64"
  let ?defa = "if def then - 1 else 0 :: 64 word"
  let ?b = "\<lparr>buffer = replicate ?n ?defa @ drop ?n buf, sz = align_down units 64\<rparr>"
  have "fill_words buf ?defa 0 ?n = Inr (replicate ?n ?defa @ drop ?n buf)"
    using assms(1) by (subst fill_words_ok) auto
  then have "bitmap_init buf units def = Inr ?b"
    by (simp add: bitmap_init_def Let_def align_down_def)
  moreover have "bitmap_wf ?b"
    using assms align_down_le [of units 64] unfolding bitmap_wf_def align_down_def by simp
  moreover have "\<forall>i < sz ?b. bits ?b i = def"
    by (auto simp: bits_def align_down_def nth_append less_mult_imp_div_less)
  ultimately show thesis
    using assms(1) that by simp
qed

section \<open>The contract of an allocator of numbered slots\<close>

text \<open>
  A client takes a slot and later puts it back. The provider hands out the lowest free slot, or
  \<open>NPOS\<close> with the state untouched when every slot is used.
\<close>

fun take_many :: "('s \<Rightarrow> (nat \<times> 's) res) \<Rightarrow> nat \<Rightarrow> 's \<Rightarrow> (nat list \<times> 's) res" where
  "take_many take_slot 0 s = Inr ([], s)"
| "take_many take_slot (Suc k) s =
     rbind (take_slot s) (\<lambda>(i, s'). rbind (take_many take_slot k s') (\<lambda>(slots, s''). Inr (i # slots, s'')))"

locale slot_allocator =
  fixes invar :: "'s \<Rightarrow> bool"
    and cap :: "'s \<Rightarrow> nat"
    and used :: "'s \<Rightarrow> nat \<Rightarrow> bool"
    and take_slot :: "'s \<Rightarrow> (nat \<times> 's) res"
    and put_slot :: "'s \<Rightarrow> nat \<Rightarrow> 's res"
  assumes take_free: "invar s \<Longrightarrow> i < cap s \<Longrightarrow> \<not> used s i \<Longrightarrow>
      \<exists>j s'. take_slot s = Inr (j, s') \<and> j \<le> i \<and> \<not> used s j \<and> invar s' \<and> cap s' = cap s \<and>
        used s' = (used s)(j := True)"
    and take_full: "invar s \<Longrightarrow> \<forall>i < cap s. used s i \<Longrightarrow> take_slot s = Inr (NPOS, s)"
    and put: "invar s \<Longrightarrow> i < cap s \<Longrightarrow>
      \<exists>s'. put_slot s i = Inr s' \<and> invar s' \<and> cap s' = cap s \<and> used s' = (used s)(i := False)"
    and cap_bound: "invar s \<Longrightarrow> cap s \<le> NPOS"
begin

definition free_slots :: "'s \<Rightarrow> nat set" where
  "free_slots s = {i. i < cap s \<and> \<not> used s i}"

lemma finite_free_slots [simp]: "finite (free_slots s)"
  by (simp add: free_slots_def)

lemma take_some:
  assumes "invar s" and "free_slots s \<noteq> {}"
  obtains j s' where "take_slot s = Inr (j, s')" and "j \<in> free_slots s" and "invar s'"
    and "cap s' = cap s" and "used s' = (used s)(j := True)" and "free_slots s' = free_slots s - {j}"
proof -
  obtain i where i: "i < cap s" "\<not> used s i"
    using assms(2) by (auto simp: free_slots_def)
  obtain j s' where j: "take_slot s = Inr (j, s')" "j \<le> i" "\<not> used s j" "invar s'"
    "cap s' = cap s" "used s' = (used s)(j := True)"
    using take_free [OF assms(1) i] by auto
  moreover have "j \<in> free_slots s"
    using i j by (simp add: free_slots_def)
  moreover have "free_slots s' = free_slots s - {j}"
    using j by (auto simp: free_slots_def)
  ultimately show thesis using that by blast
qed

lemma take_none_iff:
  assumes "invar s"
  shows "take_slot s = Inr (NPOS, s) \<longleftrightarrow> free_slots s = {}"
proof
  assume "take_slot s = Inr (NPOS, s)"
  then show "free_slots s = {}"
    using take_some [OF assms] cap_bound [OF assms]
    by (metis (mono_tags, lifting) Inr_inject free_slots_def leD mem_Collect_eq prod.inject)
next
  assume "free_slots s = {}"
  then show "take_slot s = Inr (NPOS, s)"
    using take_full [OF assms] by (auto simp: free_slots_def)
qed

lemma take_many_fresh:
  assumes "invar s" and "k \<le> card (free_slots s)"
  shows "\<exists>slots s'. take_many take_slot k s = Inr (slots, s') \<and> length slots = k \<and> distinct slots \<and>
           set slots \<subseteq> free_slots s \<and> invar s' \<and> cap s' = cap s \<and>
           (\<forall>i. used s' i \<longleftrightarrow> used s i \<or> i \<in> set slots)"
  using assms
proof (induction k arbitrary: s)
  case 0
  then show ?case by simp
next
  case (Suc k)
  then have "free_slots s \<noteq> {}" by auto
  from take_some [OF Suc.prems(1) this] obtain j t where
    t: "take_slot s = Inr (j, t)" "j \<in> free_slots s" "invar t" "cap t = cap s"
      "used t = (used s)(j := True)" "free_slots t = free_slots s - {j}"
    by metis
  moreover have "k \<le> card (free_slots t)"
    using t Suc.prems(2) by (simp add: card_Diff_singleton)
  ultimately obtain slots s' where "take_many take_slot k t = Inr (slots, s')" "length slots = k"
    "distinct slots" "set slots \<subseteq> free_slots t" "invar s'" "cap s' = cap t"
    "\<forall>i. used s' i \<longleftrightarrow> used t i \<or> i \<in> set slots"
    using Suc.IH by blast
  with t show ?case
    by (intro exI [of _ "j # slots"] exI [of _ s']) auto
qed

lemma put_then_take:
  assumes "invar s" and "i < cap s" and "used s i"
  shows "\<exists>s' j s''. put_slot s i = Inr s' \<and> take_slot s' = Inr (j, s'') \<and> j \<le> i"
  using put [OF assms(1,2)] take_free assms(2) by (metis fun_upd_same)

end

section \<open>The bitmap keeps the contract\<close>

lemma free_run_1 [simp]: "free_run b s 1 \<longleftrightarrow> \<not> bits b s" "free_run b s (Suc 0) \<longleftrightarrow> \<not> bits b s"
  by (simp_all add: free_run_def)

lemma find_and_set_result:
  assumes "bitmap_wf b"
  shows "\<exists>p b'. find_and_set b k = Inr (p, b') \<and> search_result b 0 (sz b) 1 p b'"
  using assms by (cases rule: find_and_set_multiple_cases [of b 1 0])
    (auto simp: find_and_set_def search_result_def)

lemma marked_1: "marked b b' p 1 \<Longrightarrow> bits b' = (bits b)(p := True)"
  by (auto simp: marked_def fun_eq_iff le_less_Suc_eq)

interpretation slots: slot_allocator bitmap_wf sz bits "\<lambda>b. find_and_set b 0" "\<lambda>b i. bitmap_set b i False"
proof unfold_locales
  fix b i assume b: "bitmap_wf b" and i: "i < sz b" "\<not> bits b i"
  obtain p b' where "find_and_set b 0 = Inr (p, b')" and r: "search_result b 0 (sz b) 1 p b'"
    using find_and_set_result [OF b] by blast
  moreover have "p \<noteq> NPOS"
    using r i by (auto simp: search_result_def)
  then have "p \<le> i \<and> \<not> bits b p \<and> marked b b' p 1"
    using r i by (auto simp: search_result_def not_less [symmetric])
  ultimately show "\<exists>j s'. find_and_set b 0 = Inr (j, s') \<and> j \<le> i \<and> \<not> bits b j \<and>
      bitmap_wf s' \<and> sz s' = sz b \<and> bits s' = (bits b)(j := True)"
    using marked_1 by (metis marked_def)
next
  fix b assume b: "bitmap_wf b" and full: "\<forall>i < sz b. bits b i"
  obtain p b' where "find_and_set b 0 = Inr (p, b')" and r: "search_result b 0 (sz b) 1 p b'"
    using find_and_set_result [OF b] by blast
  moreover have "p = NPOS \<and> b' = b"
    using r full by (auto simp: search_result_def split: if_splits)
  ultimately show "find_and_set b 0 = Inr (NPOS, b)" by simp
next
  fix b i assume "bitmap_wf b" and "i < sz b"
  then show "\<exists>s'. bitmap_set b i False = Inr s' \<and> bitmap_wf s' \<and> sz s' = sz b \<and>
      bits s' = (bits b)(i := False)"
    using bitmap_set_ok by metis
next
  fix b assume "bitmap_wf b"
  then show "sz b \<le> NPOS" by (simp add: bitmap_wf_def NPOS_def)
qed

text \<open>Evaluation of the operations on concrete bitmaps.\<close>

lemmas bitmap_run_simps = find_and_set_def find_and_set_multiple_def allocate_range_def
  allocate_loop.simps mark_bits.simps bitmap_get_def bitmap_set_def

section \<open>Properties\<close>

text \<open>C1: On a well-formed bitmap the search for \<open>n\<close> consecutive clear bits always returns. Either it
  reports \<^verbatim>\<open>-1\<close>, changes nothing, and there is no such run inside \<open>[start_at, sz)\<close> nor inside
  \<open>[0, start_at)\<close>; or it returns the first run at or after \<open>start_at\<close>, or, only when there is none,
  the first run below it, and marks exactly these bits.\<close>

theorem find_and_set_multiple_spec:
  assumes "bitmap_wf b" and "0 < n"
  shows "\<exists>p b'. find_and_set_multiple b n start_at = Inr (p, b') \<and>
    (if p = NPOS then b' = b \<and>
       (\<forall>s. s + n \<le> sz b \<and> (start_at \<le> s \<or> s + n \<le> start_at) \<longrightarrow> \<not> free_run b s n)
     else p + n \<le> sz b \<and> free_run b p n \<and> marked b b' p n \<and>
       (if start_at \<le> p then \<forall>s. start_at \<le> s \<and> s < p \<longrightarrow> \<not> free_run b s n
        else p + n \<le> start_at \<and> (\<forall>s < p. \<not> free_run b s n) \<and>
          (\<forall>s \<ge> start_at. s + n \<le> sz b \<longrightarrow> \<not> free_run b s n)))"
  using assms
proof (cases rule: find_and_set_multiple_cases [of b n start_at])
  case (above p b')
  then show ?thesis by (auto simp: search_result_def)
next
  case (below p b')
  then show ?thesis using assms(2) by (auto simp: search_result_def)
qed

theorem find_and_set_multiple_spec_witness:
  "bitmap_wf \<lparr>buffer = [11], sz = 64\<rparr> \<and>
   find_and_set_multiple \<lparr>buffer = [11], sz = 64\<rparr> 2 0 = Inr (4, \<lparr>buffer = [59], sz = 64\<rparr>) \<and>
   free_run \<lparr>buffer = [11], sz = 64\<rparr> 4 2"
proof -
  have wf: "bitmap_wf \<lparr>buffer = [11], sz = 64\<rparr>" by (simp add: bitmap_wf_def)
  have run: "find_and_set_multiple \<lparr>buffer = [11], sz = 64\<rparr> 2 0 = Inr (4, \<lparr>buffer = [59], sz = 64\<rparr>)"
    by (simp add: bitmap_run_simps NPOS_def)
  show ?thesis
    using find_and_set_multiple_spec [OF wf, of 2 0] wf run by (simp add: NPOS_def)
qed

text \<open>A bit reads back as it was last written, and no write changes another bit.\<close>

theorem bitmap_get_after_set:
  assumes "bitmap_wf b" and "i < sz b"
  shows "rbind (bitmap_set b i v) (\<lambda>b'. bitmap_get b' j) = (if j = i then Inr v else bitmap_get b j)"
proof -
  obtain b' where b': "bitmap_set b i v = Inr b'" "bitmap_wf b'" "sz b' = sz b"
    "bits b' = (bits b)(i := v)"
    using bitmap_set_ok [OF assms] by metis
  show ?thesis
  proof (cases "j < sz b")
    case True
    with b' assms show ?thesis by simp
  next
    case False
    with b' assms show ?thesis by (auto simp: bitmap_get_out_of_bounds)
  qed
qed

theorem bitmap_get_after_set_witness:
  "bitmap_wf \<lparr>buffer = [0, 5], sz = 128\<rparr> \<and>
   rbind (bitmap_set \<lparr>buffer = [0, 5], sz = 128\<rparr> 66 False) (\<lambda>b'. bitmap_get b' 66) = Inr False"
proof -
  have wf: "bitmap_wf \<lparr>buffer = [0, 5], sz = 128\<rparr>" by (simp add: bitmap_wf_def)
  show ?thesis using wf bitmap_get_after_set [OF wf, of 66 False 66] by simp
qed

text \<open>C2: Successive calls of \<^verbatim>\<open>find_and_set\<close> hand out different, previously clear bits for as long as
  clear bits are left, whatever the \<^verbatim>\<open>start_at\<close> argument.\<close>

theorem find_and_set_fresh:
  assumes "bitmap_wf b" and "k \<le> card {i. i < sz b \<and> \<not> bits b i}"
  shows "\<exists>slots b'. take_many (\<lambda>b. find_and_set b start_at) k b = Inr (slots, b') \<and> length slots = k \<and>
    distinct slots \<and> (\<forall>i \<in> set slots. i < sz b \<and> \<not> bits b i) \<and> bitmap_wf b' \<and>
    (\<forall>i. bits b' i \<longleftrightarrow> bits b i \<or> i \<in> set slots)"
proof -
  have "(\<lambda>b. find_and_set b start_at) = (\<lambda>b. find_and_set b 0)"
    by (simp add: find_and_set_def)
  then show ?thesis
    using slots.take_many_fresh [OF assms(1), of k] assms(2)
    unfolding slots.free_slots_def by fastforce
qed

theorem find_and_set_fresh_witness:
  "\<exists>slots b'. take_many (\<lambda>b. find_and_set b 7) 1 \<lparr>buffer = [11], sz = 64\<rparr> = Inr (slots, b') \<and> distinct slots"
proof -
  have wf: "bitmap_wf \<lparr>buffer = [11], sz = 64\<rparr>" by (simp add: bitmap_wf_def)
  have "{2} \<subseteq> {i. i < sz \<lparr>buffer = [11], sz = 64\<rparr> \<and> \<not> bits \<lparr>buffer = [11], sz = 64\<rparr> i}"
    by (simp add: bits_def)
  then have "card {2 :: nat} \<le> card {i. i < sz \<lparr>buffer = [11], sz = 64\<rparr> \<and> \<not> bits \<lparr>buffer = [11], sz = 64\<rparr> i}"
    by (intro card_mono) auto
  then show ?thesis using find_and_set_fresh [OF wf, of 1 7] by auto
qed

end
