(* ===== verification/Region.thy ===== *)
theory Region
  imports Prelude
begin

text \<open>
  The contract shared by the allocators that hand out address ranges: the watermark allocator and
  the physical page allocator. Each call returns a range out of what is still available and keeps
  it from being available again; a client may then make any sequence of calls and gets ranges that
  never overlap.
\<close>

definition region :: "nat \<times> nat \<Rightarrow> nat set" where
  "region r = {fst r ..< fst r + snd r}"

lemma region_empty [simp]: "region (p, 0) = {}"
  by (simp add: region_def)

text \<open>A sequence of calls, stopping at the first one that does not return.\<close>

primrec run_allocs :: "('s \<Rightarrow> 'c \<Rightarrow> ((nat \<times> nat) \<times> 's) res) \<Rightarrow> 's \<Rightarrow> 'c list \<Rightarrow> ((nat \<times> nat) list \<times> 's) res" where
  "run_allocs call s [] = Inr ([], s)"
| "run_allocs call s (c # cs) =
     rbind (call s c) (\<lambda>(r, s'). rbind (run_allocs call s' cs) (\<lambda>(rs, s''). Inr (r # rs, s'')))"

definition disjoint_regions :: "(nat \<times> nat) list \<Rightarrow> bool" where
  "disjoint_regions rs \<longleftrightarrow>
     (\<forall>i j. i < j \<and> j < length rs \<longrightarrow> region (rs ! i) \<inter> region (rs ! j) = {})"

lemma disjoint_regions_Nil [simp]: "disjoint_regions []"
  by (simp add: disjoint_regions_def)

lemma disjoint_regions_Cons [simp]:
  "disjoint_regions (r # rs) \<longleftrightarrow> (\<forall>x \<in> set rs. region r \<inter> region x = {}) \<and> disjoint_regions rs"
proof
  assume l: "disjoint_regions (r # rs)"
  have "region r \<inter> region x = {}" if x: "x \<in> set rs" for x
  proof -
    obtain k where "k < length rs" "rs ! k = x"
      using x by (auto simp: in_set_conv_nth)
    then show ?thesis
      using l [unfolded disjoint_regions_def, rule_format, of 0 "Suc k"] by simp
  qed
  moreover have "region (rs ! i) \<inter> region (rs ! j) = {}" if "i < j" "j < length rs" for i j
    using l [unfolded disjoint_regions_def, rule_format, of "Suc i" "Suc j"] that by simp
  ultimately show "(\<forall>x \<in> set rs. region r \<inter> region x = {}) \<and> disjoint_regions rs"
    by (simp add: disjoint_regions_def)
next
  assume r: "(\<forall>x \<in> set rs. region r \<inter> region x = {}) \<and> disjoint_regions rs"
  show "disjoint_regions (r # rs)"
    unfolding disjoint_regions_def
  proof (intro allI impI)
    fix i j
    assume ij: "i < j \<and> j < length (r # rs)"
    then obtain j' where "j = Suc j'" by (cases j) auto
    with ij r show "region ((r # rs) ! i) \<inter> region ((r # rs) ! j) = {}"
      by (cases i) (auto simp: disjoint_regions_def)
  qed
qed

locale region_allocator =
  fixes invar :: "'s \<Rightarrow> bool"
    and avail :: "'s \<Rightarrow> nat set"
    and legal :: "'c \<Rightarrow> bool"
    and call :: "'s \<Rightarrow> 'c \<Rightarrow> ((nat \<times> nat) \<times> 's) res"
  assumes call_invar: "invar s \<Longrightarrow> legal c \<Longrightarrow> call s c = Inr (r, s') \<Longrightarrow> invar s'"
    and call_avail: "invar s \<Longrightarrow> legal c \<Longrightarrow> call s c = Inr (r, s') \<Longrightarrow> region r \<subseteq> avail s"
    and call_consumes: "invar s \<Longrightarrow> legal c \<Longrightarrow> call s c = Inr (r, s') \<Longrightarrow>
      avail s' \<subseteq> avail s - region r"
begin

lemma run_sound:
  "invar s \<Longrightarrow> \<forall>c \<in> set cs. legal c \<Longrightarrow> run_allocs call s cs = Inr (rs, s') \<Longrightarrow>
   invar s' \<and> length rs = length cs \<and> disjoint_regions rs \<and> avail s' \<subseteq> avail s \<and>
   (\<forall>r \<in> set rs. region r \<subseteq> avail s \<and> region r \<inter> avail s' = {})"
proof (induction cs arbitrary: s rs)
  case Nil
  then show ?case by simp
next
  case (Cons c cs)
  from Cons.prems(3) obtain r s1 rs' where call: "call s c = Inr (r, s1)"
    and rest: "run_allocs call s1 cs = Inr (rs', s')" and rs: "rs = r # rs'"
    by (auto simp: rbind_eq_Inr)
  have c: "legal c" and cs: "\<forall>c \<in> set cs. legal c"
    using Cons.prems(2) by auto
  note facts = call_invar [OF Cons.prems(1) c call] call_avail [OF Cons.prems(1) c call]
    call_consumes [OF Cons.prems(1) c call]
  note ih = Cons.IH [OF facts(1) cs rest]
  have "region x \<subseteq> avail s" if "x \<in> set rs'" for x
    using ih that facts(3) by blast
  moreover
  have "region r \<inter> region x = {}" if "x \<in> set rs'" for x
    using ih that facts(3) by blast
  moreover have "region r \<inter> avail s' = {}" and "avail s' \<subseteq> avail s"
    using ih facts(3) by blast+
  ultimately show ?case
    using ih facts(2) rs by (simp del: Int_iff)
qed

end

end
