(* ===== verification/Async.thy ===== *)
theory Async
  imports Prelude
begin

text \<open>
  \<^verbatim>\<open>MutexSimple\<close> of \<^verbatim>\<open>util/async.hh\<close>, the spin lock around every allocator, list and scheduler
  routine. First as one thread sees it, which is what the sequential models of those routines use;
  then with any number of threads, as a step relation whose reachable states have at most one
  holder.
\<close>

section \<open>One thread\<close>

text \<open>
  The compare-and-exchange builtin: whether it stored, the new value of the variable, and what it
  leaves in \<^verbatim>\<open>expected\<close>.
\<close>

definition atomic_compare_exchange :: "int \<Rightarrow> int \<Rightarrow> int \<Rightarrow> bool \<times> int \<times> int" where
  "atomic_compare_exchange var expected desired =
     (if var = expected then (True, desired, expected) else (False, var, var))"

text \<open>
  With no other thread to run \<^verbatim>\<open>unlock\<close>, the loop of \<^verbatim>\<open>lock\<close> either succeeds at once or retries with
  the same values forever.
\<close>

definition mutex_lock :: "int \<Rightarrow> int res" where
  "mutex_lock lockvar =
     (case atomic_compare_exchange lockvar 0 1 of
        (True, lockvar', expected) \<Rightarrow> Inr lockvar'
      | (False, lockvar', expected) \<Rightarrow> Inl Hang)"

definition mutex_unlock :: "int \<Rightarrow> int" where
  "mutex_unlock lockvar = 0"

lemma mutex_lock_free [simp]: "mutex_lock 0 = Inr 1"
  by (simp add: mutex_lock_def atomic_compare_exchange_def)

lemma mutex_lock_taken [simp]: "lockvar \<noteq> 0 \<Longrightarrow> mutex_lock lockvar = Inl Hang"
  by (simp add: mutex_lock_def atomic_compare_exchange_def)

lemma mutex_unlock_0 [simp]: "mutex_unlock lockvar = 0"
  by (simp add: mutex_unlock_def)

section \<open>Many threads\<close>

datatype lock_pc = Outside | Spinning int | Holding

record lock_sys =
  lockvar :: int
  pcs :: "nat \<Rightarrow> lock_pc"

definition lock_init :: lock_sys where
  "lock_init = \<lparr>lockvar = 0, pcs = (\<lambda>_. Outside)\<rparr>"

inductive mutex_step :: "lock_sys \<Rightarrow> lock_sys \<Rightarrow> bool" where
  enter: "pcs s t = Outside \<Longrightarrow> mutex_step s (s\<lparr>pcs := (pcs s)(t := Spinning 0)\<rparr>)"
| acquire: "pcs s t = Spinning expected \<Longrightarrow>
     atomic_compare_exchange (lockvar s) expected 1 = (True, v, e) \<Longrightarrow>
     mutex_step s (s\<lparr>lockvar := v, pcs := (pcs s)(t := Holding)\<rparr>)"
| retry: "pcs s t = Spinning expected \<Longrightarrow>
     atomic_compare_exchange (lockvar s) expected 1 = (False, v, e) \<Longrightarrow>
     mutex_step s (s\<lparr>lockvar := v, pcs := (pcs s)(t := Spinning 0)\<rparr>)"
| unlock: "pcs s t = Holding \<Longrightarrow>
     mutex_step s (s\<lparr>lockvar := mutex_unlock (lockvar s), pcs := (pcs s)(t := Outside)\<rparr>)"

inductive mutex_reachable :: "lock_sys \<Rightarrow> bool" where
  start: "mutex_reachable lock_init"
| step: "mutex_reachable s \<Longrightarrow> mutex_step s s' \<Longrightarrow> mutex_reachable s'"

definition mutex_inv :: "lock_sys \<Rightarrow> bool" where
  "mutex_inv s \<longleftrightarrow>
     lockvar s \<in> {0, 1} \<and>
     (lockvar s = 1 \<longleftrightarrow> (\<exists>t. pcs s t = Holding)) \<and>
     (\<forall>t u. pcs s t = Holding \<longrightarrow> pcs s u = Holding \<longrightarrow> t = u) \<and>
     (\<forall>t e. pcs s t = Spinning e \<longrightarrow> e = 0)"

lemma atomic_compare_exchange_True [simp]:
  "atomic_compare_exchange var expected desired = (True, v, e) \<longleftrightarrow>
     var = expected \<and> v = desired \<and> e = expected"
  by (auto simp: atomic_compare_exchange_def)

lemma atomic_compare_exchange_False [simp]:
  "atomic_compare_exchange var expected desired = (False, v, e) \<longleftrightarrow>
     var \<noteq> expected \<and> v = var \<and> e = var"
  by (auto simp: atomic_compare_exchange_def)

lemma upd_Holding_iff:
  "pc t \<noteq> Holding \<Longrightarrow> x \<noteq> Holding \<Longrightarrow> (pc(t := x)) u = Holding \<longleftrightarrow> pc u = Holding"
  by auto

lemma mutex_step_inv: "mutex_step s s' \<Longrightarrow> mutex_inv s \<Longrightarrow> mutex_inv s'"
proof (induction rule: mutex_step.induct)
  case (enter s t)
  then show ?case by (auto simp: mutex_inv_def upd_Holding_iff simp del: fun_upd_apply split: if_splits)
      (auto split: if_splits)
next
  case (acquire s t expected v e)
  then have "expected = 0" unfolding mutex_inv_def by metis
  with acquire show ?case unfolding mutex_inv_def by simp
next
  case (retry s t expected v e)
  then show ?case by (auto simp: mutex_inv_def upd_Holding_iff simp del: fun_upd_apply split: if_splits)
      (auto split: if_splits)
next
  case (unlock s t)
  then show ?case unfolding mutex_inv_def by (simp split: if_splits) metis
qed

lemma mutex_reachable_inv: "mutex_reachable s \<Longrightarrow> mutex_inv s"
proof (induction rule: mutex_reachable.induct)
  case start
  show ?case by (simp add: mutex_inv_def lock_init_def)
next
  case (step s s')
  then show ?case by (blast intro: mutex_step_inv)
qed

section \<open>Properties\<close>

text \<open>C10: Under every interleaving at most one thread is between \<^verbatim>\<open>lock\<close> and \<^verbatim>\<open>unlock\<close>, and the lock is
  never lost: whenever the variable is free, any waiting thread's next compare-and-exchange takes
  the lock, and whenever it is taken some thread holds it and can release it.\<close>

theorem mutex_exclusion_and_progress:
  assumes "mutex_reachable s"
  shows "(\<forall>t u. pcs s t = Holding \<and> pcs s u = Holding \<longrightarrow> t = u) \<and>
    (lockvar s = 0 \<longrightarrow> (\<forall>t e. pcs s t = Spinning e \<longrightarrow>
       mutex_step s (s\<lparr>lockvar := 1, pcs := (pcs s)(t := Holding)\<rparr>))) \<and>
    (lockvar s \<noteq> 0 \<longrightarrow> (\<exists>t. pcs s t = Holding \<and>
       mutex_step s (s\<lparr>lockvar := 0, pcs := (pcs s)(t := Outside)\<rparr>)))"
proof -
  have inv: "mutex_inv s"
    using assms by (rule mutex_reachable_inv)
  have "\<forall>t u. pcs s t = Holding \<and> pcs s u = Holding \<longrightarrow> t = u"
    using inv by (auto simp: mutex_inv_def)
  moreover have "mutex_step s (s\<lparr>lockvar := 1, pcs := (pcs s)(t := Holding)\<rparr>)"
    if "lockvar s = 0" "pcs s t = Spinning e" for t e
    using inv that by (auto simp: mutex_inv_def intro: mutex_step.acquire)
  moreover have "\<exists>t. pcs s t = Holding \<and> mutex_step s (s\<lparr>lockvar := 0, pcs := (pcs s)(t := Outside)\<rparr>)"
    if "lockvar s \<noteq> 0"
    using inv that mutex_step.unlock [of s] by (auto simp: mutex_inv_def)
  ultimately show ?thesis by blast
qed

theorem mutex_exclusion_and_progress_witness:
  "mutex_reachable (lock_init\<lparr>pcs := (\<lambda>_. Outside)(3 := Spinning 0)\<rparr>) \<and>
   mutex_step (lock_init\<lparr>pcs := (\<lambda>_. Outside)(3 := Spinning 0)\<rparr>)
     (lock_init\<lparr>lockvar := 1, pcs := (\<lambda>_. Outside)(3 := Holding)\<rparr>)"
proof -
  have "mutex_step lock_init (lock_init\<lparr>pcs := (pcs lock_init)(3 := Spinning 0)\<rparr>)"
    by (rule mutex_step.enter) (simp add: lock_init_def)
  then have r: "mutex_reachable (lock_init\<lparr>pcs := (\<lambda>_. Outside)(3 := Spinning 0)\<rparr>)"
    using mutex_reachable.step [OF mutex_reachable.start] by (simp add: lock_init_def)
  let ?s = "lock_init\<lparr>pcs := (\<lambda>_. Outside)(3 := Spinning 0)\<rparr>"
  have "lockvar ?s = 0" "pcs ?s 3 = Spinning 0"
    by (simp_all add: lock_init_def)
  then have "mutex_step ?s (?s\<lparr>lockvar := 1, pcs := (pcs ?s)(3 := Holding)\<rparr>)"
    using mutex_exclusion_and_progress [OF r] by blast
  with r show ?thesis by (simp add: lock_init_def)
qed

end
