(* ===== verification/Watermark.thy ===== *)
theory Watermark
  imports Region Async
begin

text \<open>
  The watermark allocator of \<^verbatim>\<open>mm/vmm.cc\<close>: a cursor that only moves up through the region that
  \<^verbatim>\<open>pmm_init\<close> sets aside. The page tables and the heap's bookkeeping live in it.
\<close>

record wm =
  wm_cursor :: nat
  wm_free :: nat
  wm_mutex :: int

text \<open>
  The cursor has already moved when the shortage is noticed; \<^verbatim>\<open>fatal\<close> does not return. A call with
  size and alignment 0 divides by zero.
\<close>

definition wm_alloc :: "wm \<Rightarrow> nat \<Rightarrow> nat \<Rightarrow> (nat \<times> wm) res" where
  "wm_alloc s bytes alignment =
     rbind (mutex_lock (wm_mutex s)) (\<lambda>l.
     let bytes = align64 bytes 16;
         alignment = max bytes alignment in
     if alignment = 0 then Inl Undefined
     else
     let alignfix = sub64 (align64 (wm_cursor s) alignment) (wm_cursor s);
         cursor = add64 (wm_cursor s) alignfix;
         p = cursor;
         cursor = add64 cursor bytes in
     if wm_free s < add64 bytes alignfix then Inl (Fatal ''Watermark allocator out of memory!'')
     else Inr (p, s\<lparr>wm_cursor := cursor, wm_free := sub64 (wm_free s) (add64 bytes alignfix),
                     wm_mutex := mutex_unlock l\<rparr>))"

text \<open>
  The region lies in the direct map of at most 32 TiB of memory and requests are below 32 TiB, so
  that rounding the cursor up does not wrap.
\<close>

definition wm_ok :: "wm \<Rightarrow> bool" where
  "wm_ok s \<longleftrightarrow> wm_mutex s = 0 \<and> wm_cursor s + wm_free s \<le> HHDM + 2 ^ 45"

definition wm_legal :: "nat \<times> nat \<Rightarrow> bool" where
  "wm_legal c \<longleftrightarrow> fst c < 2 ^ 45 \<and> snd c < 2 ^ 45 \<and> 0 < max (fst c) (snd c)"

definition wm_avail :: "wm \<Rightarrow> nat set" where
  "wm_avail s = {wm_cursor s ..< wm_cursor s + wm_free s}"

definition wm_call :: "wm \<Rightarrow> nat \<times> nat \<Rightarrow> ((nat \<times> nat) \<times> wm) res" where
  "wm_call s c = rbind (wm_alloc s (fst c) (snd c)) (\<lambda>(p, s'). Inr ((p, fst c), s'))"

text \<open>The size and alignment the allocator works with, and the position it rounds up to.\<close>

abbreviation wm_size :: "nat \<Rightarrow> nat" where
  "wm_size bytes \<equiv> align64 bytes 16"

abbreviation wm_align :: "nat \<Rightarrow> nat \<Rightarrow> nat" where
  "wm_align bytes alignment \<equiv> max (wm_size bytes) alignment"

abbreviation wm_place :: "wm \<Rightarrow> nat \<Rightarrow> nat \<Rightarrow> nat" where
  "wm_place s bytes alignment \<equiv> align64 (wm_cursor s) (wm_align bytes alignment)"

lemma wm_size_bounds:
  assumes "bytes < 2 ^ 45"
  shows "bytes \<le> wm_size bytes" and "wm_size bytes < 2 ^ 45 + 16"
  using assms align64_ge [of 16 bytes] align64_less [of 16 bytes] by auto

lemma wm_place_bounds:
  assumes "wm_ok s" and "wm_legal (bytes, alignment)"
  shows "wm_cursor s \<le> wm_place s bytes alignment"
    and "wm_place s bytes alignment < wm_cursor s + wm_align bytes alignment"
    and "wm_align bytes alignment dvd wm_place s bytes alignment"
proof -
  have "0 < wm_align bytes alignment" and "wm_align bytes alignment < 2 ^ 45 + 16"
    using assms(2) wm_size_bounds [of bytes] by (auto simp: wm_legal_def)
  moreover have "wm_cursor s \<le> HHDM + 2 ^ 45"
    using assms(1) by (simp add: wm_ok_def)
  ultimately have "0 < wm_align bytes alignment" "wm_cursor s + wm_align bytes alignment \<le> 2 ^ 64"
    by (auto simp: HHDM_def)
  then show "wm_cursor s \<le> wm_place s bytes alignment"
    and "wm_place s bytes alignment < wm_cursor s + wm_align bytes alignment"
    and "wm_align bytes alignment dvd wm_place s bytes alignment"
    by (auto intro: align64_ge align64_less align64_dvd)
qed

lemma wm_alloc_eq:
  assumes ok: "wm_ok s" and legal: "wm_legal (bytes, alignment)"
  shows "wm_alloc s bytes alignment =
    (let p = wm_place s bytes alignment; stop = wm_cursor s + wm_free s in
     if p + wm_size bytes \<le> stop
     then Inr (p, s\<lparr>wm_cursor := p + wm_size bytes, wm_free := stop - (p + wm_size bytes)\<rparr>)
     else Inl (Fatal ''Watermark allocator out of memory!''))"
proof -
  let ?p = "wm_place s bytes alignment" and ?n = "wm_size bytes" and ?c = "wm_cursor s"
  note b = wm_place_bounds [OF ok legal]
  have n: "?n < 2 ^ 45 + 16" and a: "wm_align bytes alignment < 2 ^ 45 + 16" "0 < wm_align bytes alignment"
    using legal wm_size_bounds [of bytes] by (auto simp: wm_legal_def)
  have c: "?c + wm_free s \<le> HHDM + 2 ^ 45" and l: "wm_mutex s = 0"
    using ok by (auto simp: wm_ok_def)
  have h: "HHDM + 2 ^ 45 + 2 ^ 45 + 2 ^ 45 + 32 < (2::nat) ^ 64"
    by (simp add: HHDM_def)
  have "sub64 ?p ?c = ?p - ?c"
    using b a c h by (intro sub64_small) linarith+
  moreover have "add64 ?c (?p - ?c) = ?p"
    using b a c h by (subst add64_small) linarith+
  moreover have "add64 ?p ?n = ?p + ?n"
    using b a c h n by (intro add64_small) linarith
  moreover have "add64 ?n (?p - ?c) = ?n + (?p - ?c)"
    using b a c h n by (intro add64_small) linarith
  moreover have "sub64 (wm_free s) (?n + (?p - ?c)) = ?c + wm_free s - (?p + ?n)"
    if "?p + ?n \<le> ?c + wm_free s"
    using b c h that by (subst sub64_small) linarith+
  moreover have "wm_free s < ?n + (?p - ?c) \<longleftrightarrow> \<not> ?p + ?n \<le> ?c + wm_free s"
    using b by linarith
  moreover have "s\<lparr>wm_cursor := x, wm_free := y, wm_mutex := 0\<rparr> = s\<lparr>wm_cursor := x, wm_free := y\<rparr>" for x y
    using l by (cases s) simp
  moreover have "(wm_align bytes alignment = 0) = False"
    using a(2) by (simp only: neq0_conv [symmetric])
  ultimately show ?thesis
    using l by (simp only: wm_alloc_def Let_def mutex_lock_free rbind_Inr mutex_unlock_0 if_False)
      (simp only: not_less not_le if_not_P split: if_split, simp)
qed

lemma wm_call_ok:
  assumes "wm_ok s" and "wm_legal c" and "wm_call s c = Inr (r, s')"
  shows "wm_ok s'" and "region r \<subseteq> wm_avail s" and "wm_avail s' \<subseteq> wm_avail s - region r"
proof -
  obtain bytes alignment where c: "c = (bytes, alignment)" by (cases c)
  have "bytes < 2 ^ 45" using assms(2) c by (simp add: wm_legal_def)
  note b = wm_place_bounds [OF assms(1) assms(2) [unfolded c]] wm_size_bounds(1) [OF this]
  have r: "r = (wm_place s bytes alignment, bytes)"
    and fits: "wm_place s bytes alignment + wm_size bytes \<le> wm_cursor s + wm_free s"
    and s': "s' = s\<lparr>wm_cursor := wm_place s bytes alignment + wm_size bytes,
      wm_free := wm_cursor s + wm_free s - (wm_place s bytes alignment + wm_size bytes)\<rparr>"
    using assms(3) wm_alloc_eq [OF assms(1) assms(2) [unfolded c]]
    by (auto simp: wm_call_def c Let_def split: if_splits)
  show "wm_ok s'" using assms(1) fits s' by (simp add: wm_ok_def)
  show "region r \<subseteq> wm_avail s" using b fits by (auto simp: r region_def wm_avail_def)
  show "wm_avail s' \<subseteq> wm_avail s - region r"
    using b fits by (auto simp: r s' region_def wm_avail_def)
qed

interpretation watermark: region_allocator wm_ok wm_avail wm_legal wm_call
  by unfold_locales (fact wm_call_ok)+

section \<open>Properties\<close>

text \<open>C12: A legal request is placed at the first multiple of \<open>max (size rounded to 16) alignment\<close> at or
  after the cursor if it fits before the end of the region, and then the cursor moves past it while
  the end of the region stays where it is; otherwise the kernel stops. In particular the requested
  alignment itself is kept only where it divides that maximum.\<close>

theorem wm_alloc_spec:
  assumes "wm_ok s" and "wm_legal (bytes, alignment)"
  shows "\<exists>p. wm_align bytes alignment dvd p \<and> wm_cursor s \<le> p \<and>
      (\<forall>q. wm_align bytes alignment dvd q \<and> wm_cursor s \<le> q \<longrightarrow> p \<le> q) \<and>
      (if p + wm_size bytes \<le> wm_cursor s + wm_free s
       then \<exists>s'. wm_alloc s bytes alignment = Inr (p, s') \<and> wm_ok s' \<and>
         wm_cursor s' = p + wm_size bytes \<and>
         wm_cursor s' + wm_free s' = wm_cursor s + wm_free s
       else wm_alloc s bytes alignment = Inl (Fatal ''Watermark allocator out of memory!''))"
proof (intro exI conjI)
  note b = wm_place_bounds [OF assms]
  show "wm_align bytes alignment dvd wm_place s bytes alignment" "wm_cursor s \<le> wm_place s bytes alignment"
    using b by auto
  show "\<forall>q. wm_align bytes alignment dvd q \<and> wm_cursor s \<le> q \<longrightarrow> wm_place s bytes alignment \<le> q"
    using least_multiple [OF b(3,2)] by blast
  show "if wm_place s bytes alignment + wm_size bytes \<le> wm_cursor s + wm_free s
       then \<exists>s'. wm_alloc s bytes alignment = Inr (wm_place s bytes alignment, s') \<and> wm_ok s' \<and>
         wm_cursor s' = wm_place s bytes alignment + wm_size bytes \<and>
         wm_cursor s' + wm_free s' = wm_cursor s + wm_free s
       else wm_alloc s bytes alignment = Inl (Fatal ''Watermark allocator out of memory!'')"
    using assms(1) by (simp add: wm_alloc_eq [OF assms] Let_def wm_ok_def)
qed

theorem wm_alloc_spec_witness:
  "wm_ok \<lparr>wm_cursor = 100, wm_free = 1000, wm_mutex = 0\<rparr> \<and> wm_legal (40, 64) \<and>
   wm_alloc \<lparr>wm_cursor = 100, wm_free = 1000, wm_mutex = 0\<rparr> 40 64 =
     Inr (128, \<lparr>wm_cursor = 176, wm_free = 924, wm_mutex = 0\<rparr>)"
proof -
  let ?s = "\<lparr>wm_cursor = 100, wm_free = 1000, wm_mutex = 0\<rparr>"
  have ok: "wm_ok ?s" and legal: "wm_legal (40, 64)"
    by (simp_all add: wm_ok_def wm_legal_def HHDM_def)
  have n: "wm_size 40 = 48" "max (48::nat) 64 = 64"
    by (simp_all add: align64_def add64_def sub64_def mul64_def)
  have "\<exists>p. 64 dvd p \<and> 100 \<le> p \<and> (\<forall>q. 64 dvd q \<and> 100 \<le> q \<longrightarrow> p \<le> q) \<and>
      (if p + 48 \<le> 100 + 1000 then \<exists>s'. wm_alloc ?s 40 64 = Inr (p, s') \<and> wm_ok s' \<and>
         wm_cursor s' = p + 48 \<and> wm_cursor s' + wm_free s' = 100 + 1000
       else wm_alloc ?s 40 64 = Inl (Fatal ''Watermark allocator out of memory!''))"
    using wm_alloc_spec [OF ok legal] by (simp only: n wm.simps)
  then obtain p where p: "64 dvd p" "100 \<le> p" "\<forall>q. 64 dvd q \<and> 100 \<le> q \<longrightarrow> p \<le> q"
    and r: "p + 48 \<le> 100 + 1000 \<Longrightarrow> \<exists>s'. wm_alloc ?s 40 64 = Inr (p, s') \<and> wm_ok s' \<and>
         wm_cursor s' = p + 48 \<and> wm_cursor s' + wm_free s' = 100 + 1000"
    by (elim exE conjE) (rule that, assumption+, simp only: if_True)
  have "p \<le> 128" using p(3) [rule_format, of 128] by simp
  moreover have "\<not> p < 128"
  proof
    obtain k where k: "p = 64 * k" using p(1) by (rule dvdE)
    assume "p < 128"
    with k p(2) show False by presburger
  qed
  ultimately have "p = 128" by simp
  with r obtain s' where "wm_alloc ?s 40 64 = Inr (128, s')" "wm_ok s'" "wm_cursor s' = 176" "wm_free s' = 924"
    by auto
  then show ?thesis using ok legal by (cases s') (simp add: wm_ok_def)
qed

end
