(* ===== verification/Pmm.thy ===== *)
theory Pmm
  imports Bitmap Watermark
begin

text \<open>
  The physical page allocator of \<^verbatim>\<open>mm/pmm.cc\<close>. \<^verbatim>\<open>pmm_init\<close> reads the boot loader's memory map, sets
  aside the watermark region and the bitmap, and clears the bit of every usable page;
  \<^verbatim>\<open>pmm_alloc\<close> and \<^verbatim>\<open>pmm_alloc4g\<close> search the bitmap for runs of pages. The memory map and the contents
  of memory at boot are inputs.
\<close>

datatype MMAP_TYPES = USABLE | RESERVED | ACPI_RECLAIMABLE | ACPI_NVS | BAD_MEMORY
  | BOOTLOADER_RECLAIMABLE | KERNEL_AND_MODULES | FRAMEBUFFER

record limine_memmap_entry =
  base :: nat
  len :: nat
  type_of :: MMAP_TYPES

record pmm =
  pmm_freemem :: nat
  pmm_usedmem :: nat
  pmm_reservedmem :: nat
  pmm_bm :: bitmap
  pmm_buffer :: nat
  pmm_mutex :: int

definition PMM_PAGESIZE :: nat where
  "PMM_PAGESIZE = 0x1000"

definition WM_SIZE :: nat where
  "WM_SIZE = mibs2bytes 64"

section \<open>Initialisation\<close>

text \<open>The entry that ends the managed memory: the last one, or the one before it if that is reserved.\<close>

definition pmm_last :: "limine_memmap_entry list \<Rightarrow> limine_memmap_entry res" where
  "pmm_last es =
     (let n = length es in
      if n = 0 then Inl Undefined
      else if type_of (es ! (n - 1)) = RESERVED
      then (if n = 1 then Inl Undefined else Inr (es ! (n - 2)))
      else Inr (es ! (n - 1)))"

definition pmm_bm_size :: "limine_memmap_entry \<Rightarrow> nat" where
  "pmm_bm_size l = align64 (add64 (base l) (len l)) PMM_PAGESIZE div PMM_PAGESIZE"

text \<open>The loop that picks the first usable entry with room for the watermark region and the bitmap.\<close>

primrec pmm_candidate :: "nat \<Rightarrow> limine_memmap_entry list \<Rightarrow> limine_memmap_entry option" where
  "pmm_candidate bm_bytes [] = None"
| "pmm_candidate bm_bytes (e # es) =
     (if type_of e = USABLE \<and> add64 bm_bytes WM_SIZE \<le> len e then Some e
      else pmm_candidate bm_bytes es)"

text \<open>The two loops that write the bits of a range of pages.\<close>

function set_pages :: "bitmap \<Rightarrow> bool \<Rightarrow> nat \<Rightarrow> nat \<Rightarrow> nat \<Rightarrow> bitmap res" where
  "set_pages b v start j n =
     (if j < n
      then rbind (bitmap_set b (add64 start j div PMM_PAGESIZE) v)
             (\<lambda>b'. set_pages b' v start (j + PMM_PAGESIZE) n)
      else Inr b)"
  by pat_completeness auto
termination
  by (relation "measure (\<lambda>(b, v, start, j, n). n - j)") (auto simp: PMM_PAGESIZE_def)

declare set_pages.simps [simp del]

definition clear_pages :: "bitmap \<Rightarrow> nat \<Rightarrow> nat \<Rightarrow> bitmap res" where
  "clear_pages b start n = set_pages b False start 0 n"

definition reserve_pages :: "bitmap \<Rightarrow> nat \<Rightarrow> nat \<Rightarrow> bitmap res" where
  "reserve_pages b start n = set_pages b True start 0 n"

text \<open>One round of the second loop: a usable entry is counted, its pages are cleared, and the pages of
  the watermark region and the bitmap are marked again when they are at the start of this entry.
  The number of bytes marked is \<^verbatim>\<open>bm_size + WM_SIZE\<close>, the bits of the bitmap taken for its bytes.\<close>

definition pmm_init_entry :: "nat \<Rightarrow> limine_memmap_entry \<Rightarrow> pmm \<Rightarrow> pmm res" where
  "pmm_init_entry bm_size e s =
     (if type_of e \<noteq> USABLE then Inr s
      else
        let s = s\<lparr>pmm_freemem := add64 (pmm_freemem s) (len e)\<rparr> in
        rbind (clear_pages (pmm_bm s) (align64 (base e) PMM_PAGESIZE) (align_down (len e) PMM_PAGESIZE)) (\<lambda>b.
        if add64 (base e) WM_SIZE = PHYSICAL (pmm_buffer s)
        then rbind (reserve_pages b (base e) (add64 bm_size WM_SIZE)) (\<lambda>b'. Inr (s\<lparr>pmm_bm := b'\<rparr>))
        else Inr (s\<lparr>pmm_bm := b\<rparr>)))"

primrec pmm_init_entries :: "nat \<Rightarrow> limine_memmap_entry list \<Rightarrow> pmm \<Rightarrow> pmm res" where
  "pmm_init_entries bm_size [] s = Inr s"
| "pmm_init_entries bm_size (e # es) s =
     rbind (pmm_init_entry bm_size e s) (pmm_init_entries bm_size es)"

text \<open>\<open>ram a\<close> is the word at address \<open>a\<close> when the kernel starts. The static counters start at 0.\<close>

definition pmm_init :: "(nat \<Rightarrow> 64 word) \<Rightarrow> limine_memmap_entry list \<Rightarrow> (pmm \<times> wm) res" where
  "pmm_init ram es =
     rbind (pmm_last es) (\<lambda>l.
     let bm_size = pmm_bm_size l; bm_bytes = bm_size div 8 in
     case pmm_candidate bm_bytes es of
       None \<Rightarrow> Inl (Fatal ''No good candidate found for bitmap and WM alloc!'')
     | Some e \<Rightarrow>
         let w = \<lparr>wm_cursor = VIRTUAL (base e), wm_free = WM_SIZE, wm_mutex = 0\<rparr>;
             addr = VIRTUAL (add64 (base e) WM_SIZE) in
         rbind (bitmap_init (map (\<lambda>k. ram (addr + 8 * k)) [0 ..< bm_size div 64]) bm_size True) (\<lambda>b.
         rbind (pmm_init_entries bm_size es
            \<lparr>pmm_freemem = 0, pmm_usedmem = 0, pmm_reservedmem = 0, pmm_bm = b, pmm_buffer = addr,
             pmm_mutex = 0\<rparr>) (\<lambda>s.
         rbind (bitmap_set (pmm_bm s) 0 True) (\<lambda>b'.
         Inr (s\<lparr>pmm_bm := b'\<rparr>, w)))))"

section \<open>Allocation\<close>

definition pmm_alloc :: "pmm \<Rightarrow> nat \<Rightarrow> (nat \<times> pmm) res" where
  "pmm_alloc s bytes =
     rbind (mutex_lock (pmm_mutex s)) (\<lambda>l.
     let n = align64 bytes PMM_PAGESIZE;
         s = s\<lparr>pmm_mutex := l, pmm_usedmem := add64 (pmm_usedmem s) n,
               pmm_freemem := sub64 (pmm_freemem s) n\<rparr> in
     rbind (find_and_set_multiple (pmm_bm s) (n div PMM_PAGESIZE) (gibs2bytes 4 div PMM_PAGESIZE)) (\<lambda>(b, bm).
     if b = NPOS then Inl (Fatal ''PMM failed to allocate %llu bytes'')
     else Inr (VIRTUAL (mul64 b PMM_PAGESIZE), s\<lparr>pmm_bm := bm, pmm_mutex := mutex_unlock l\<rparr>)))"

definition pmm_alloc4g :: "pmm \<Rightarrow> nat \<Rightarrow> (nat \<times> pmm) res" where
  "pmm_alloc4g s bytes =
     rbind (mutex_lock (pmm_mutex s)) (\<lambda>l.
     let n = align64 bytes PMM_PAGESIZE;
         s = s\<lparr>pmm_mutex := l, pmm_usedmem := add64 (pmm_usedmem s) n,
               pmm_freemem := sub64 (pmm_freemem s) n\<rparr> in
     rbind (find_and_set_multiple (pmm_bm s) (n div PMM_PAGESIZE) 0) (\<lambda>(b, bm).
     if b = NPOS then Inl (Fatal ''PMM failed to allocate %llu bytes'')
     else Inr (VIRTUAL (mul64 b PMM_PAGESIZE), s\<lparr>pmm_bm := bm, pmm_mutex := mutex_unlock l\<rparr>)))"

text \<open>The body of \<^verbatim>\<open>pmm_free\<close> is commented out.\<close>

definition pmm_free :: "pmm \<Rightarrow> nat \<Rightarrow> pmm" where
  "pmm_free s p = s"

section \<open>What the bitmap means\<close>

definition pmm_ok :: "pmm \<Rightarrow> bool" where
  "pmm_ok s \<longleftrightarrow> pmm_mutex s = 0 \<and> bitmap_wf (pmm_bm s) \<and> sz (pmm_bm s) * PMM_PAGESIZE \<le> 2 ^ 45"

definition page_free :: "pmm \<Rightarrow> nat \<Rightarrow> bool" where
  "page_free s i \<longleftrightarrow> i < sz (pmm_bm s) \<and> \<not> bits (pmm_bm s) i"

definition pmm_avail :: "pmm \<Rightarrow> nat set" where
  "pmm_avail s = {HHDM + x | x. page_free s (x div PMM_PAGESIZE)}"

datatype pmm_request = Alloc nat | Alloc4g nat | Free nat

fun pmm_call :: "pmm \<Rightarrow> pmm_request \<Rightarrow> ((nat \<times> nat) \<times> pmm) res" where
  "pmm_call s (Alloc n) = rbind (pmm_alloc s n) (\<lambda>(p, s'). Inr ((p, n), s'))"
| "pmm_call s (Alloc4g n) = rbind (pmm_alloc4g s n) (\<lambda>(p, s'). Inr ((p, n), s'))"
| "pmm_call s (Free p) = Inr ((p, 0), pmm_free s p)"

fun pmm_legal :: "pmm_request \<Rightarrow> bool" where
  "pmm_legal (Alloc n) \<longleftrightarrow> n < 2 ^ 64"
| "pmm_legal (Alloc4g n) \<longleftrightarrow> n < 2 ^ 64"
| "pmm_legal (Free p) \<longleftrightarrow> True"

section \<open>The allocation calls\<close>

text \<open>The body that the two allocation calls share.\<close>

definition pmm_alloc_from :: "nat \<Rightarrow> pmm \<Rightarrow> nat \<Rightarrow> (nat \<times> pmm) res" where
  "pmm_alloc_from start s bytes =
     rbind (mutex_lock (pmm_mutex s)) (\<lambda>l.
     let n = align64 bytes PMM_PAGESIZE;
         s = s\<lparr>pmm_mutex := l, pmm_usedmem := add64 (pmm_usedmem s) n,
               pmm_freemem := sub64 (pmm_freemem s) n\<rparr> in
     rbind (find_and_set_multiple (pmm_bm s) (n div PMM_PAGESIZE) start) (\<lambda>(b, bm).
     if b = NPOS then Inl (Fatal ''PMM failed to allocate %llu bytes'')
     else Inr (VIRTUAL (mul64 b PMM_PAGESIZE), s\<lparr>pmm_bm := bm, pmm_mutex := mutex_unlock l\<rparr>)))"

lemma pmm_alloc_conv: "pmm_alloc s bytes = pmm_alloc_from (gibs2bytes 4 div PMM_PAGESIZE) s bytes"
  by (simp only: pmm_alloc_def pmm_alloc_from_def)

lemma pmm_alloc4g_conv: "pmm_alloc4g s bytes = pmm_alloc_from 0 s bytes"
  by (simp only: pmm_alloc4g_def pmm_alloc_from_def)

definition pages_of :: "nat \<Rightarrow> nat" where
  "pages_of bytes = (bytes + (PMM_PAGESIZE - 1)) div PMM_PAGESIZE"

lemma page_mult_div [simp]: "n * PMM_PAGESIZE div PMM_PAGESIZE = n"
  by (simp add: PMM_PAGESIZE_def)

lemma pages_of_bounds: "bytes \<le> pages_of bytes * PMM_PAGESIZE"
  using ceil_div_mult_bounds(1) [of PMM_PAGESIZE bytes] by (simp add: pages_of_def PMM_PAGESIZE_def)

lemma pages_of_pos: "0 < bytes \<Longrightarrow> 0 < pages_of bytes"
  using pages_of_bounds [of bytes] by (cases "pages_of bytes") auto

lemma align_page:
  "bytes \<le> 2 ^ 64 - PMM_PAGESIZE \<Longrightarrow> align64 bytes PMM_PAGESIZE = pages_of bytes * PMM_PAGESIZE"
  unfolding pages_of_def by (rule align64_eq) (simp_all add: PMM_PAGESIZE_def)

lemma align_page_wrap:
  assumes "2 ^ 64 - PMM_PAGESIZE < bytes" and "bytes < 2 ^ 64"
  shows "align64 bytes PMM_PAGESIZE = 0"
proof -
  have "sub64 PMM_PAGESIZE 1 = 4095"
    by (simp add: sub64_small PMM_PAGESIZE_def)
  moreover have "(bytes + 4095) mod 2 ^ 64 < 4096"
  proof -
    have "bytes + 4095 = (bytes + 4095 - 2 ^ 64) + 2 ^ 64"
      using assms by (simp add: PMM_PAGESIZE_def)
    then have "(bytes + 4095) mod 2 ^ 64 = (bytes + 4095 - 2 ^ 64) mod 2 ^ 64"
      by (metis mod_add_self2)
    then show ?thesis
      using assms by (simp add: PMM_PAGESIZE_def)
  qed
  ultimately show ?thesis
    by (simp add: align64_def add64_def mul64_def PMM_PAGESIZE_def)
qed

lemma pmm_alloc_zero: "pmm_mutex s = 0 \<Longrightarrow> align64 bytes PMM_PAGESIZE = 0 \<Longrightarrow>
    pmm_alloc_from start s bytes = Inl (Fatal ''n > 0'')"
  by (simp add: pmm_alloc_from_def find_and_set_multiple_def allocate_range_def Let_def)

text \<open>The state after \<open>n\<close> pages from page \<open>i\<close> on have been handed out.\<close>

definition pages_taken :: "pmm \<Rightarrow> pmm \<Rightarrow> nat \<Rightarrow> nat \<Rightarrow> bool" where
  "pages_taken s s' i n \<longleftrightarrow> pmm_ok s' \<and> sz (pmm_bm s') = sz (pmm_bm s) \<and>
     (\<forall>j. page_free s' j \<longleftrightarrow> page_free s j \<and> \<not> (i \<le> j \<and> j < i + n)) \<and>
     pmm_usedmem s' = add64 (pmm_usedmem s) (n * PMM_PAGESIZE) \<and>
     pmm_freemem s' = sub64 (pmm_freemem s) (n * PMM_PAGESIZE)"

definition free_pages :: "pmm \<Rightarrow> nat \<Rightarrow> nat \<Rightarrow> bool" where
  "free_pages s i n \<longleftrightarrow> (\<forall>k < n. page_free s (i + k))"

lemma free_pages_iff:
  "0 < n \<Longrightarrow> free_pages s i n \<longleftrightarrow> i + n \<le> sz (pmm_bm s) \<and> free_run (pmm_bm s) i n"
proof
  assume n: "0 < n" and f: "free_pages s i n"
  then have "page_free s (i + (n - 1))" unfolding free_pages_def by (metis diff_less zero_less_one)
  then have "i + n \<le> sz (pmm_bm s)" using n unfolding page_free_def by linarith
  then show "i + n \<le> sz (pmm_bm s) \<and> free_run (pmm_bm s) i n"
    using f by (simp add: free_pages_def page_free_def free_run_def)
qed (auto simp: free_pages_def page_free_def free_run_def)

lemma page_address:
  assumes "i * PMM_PAGESIZE < 2 ^ 45"
  shows "VIRTUAL (mul64 i PMM_PAGESIZE) = HHDM + i * PMM_PAGESIZE"
proof -
  have "mul64 i PMM_PAGESIZE = i * PMM_PAGESIZE"
    using assms by (intro mul64_small) simp
  then show ?thesis
    using assms by (simp add: VIRTUAL_eq_add)
qed

lemma pmm_alloc_from_run:
  assumes ok: "pmm_ok s" and n: "align64 bytes PMM_PAGESIZE = n * PMM_PAGESIZE" "0 < n"
    and r: "find_and_set_multiple (pmm_bm s) n start = Inr (i, bm)" and i: "i \<noteq> NPOS"
    and m: "marked (pmm_bm s) bm i n" "i + n \<le> sz (pmm_bm s)"
  shows "\<exists>s'. pmm_alloc_from start s bytes = Inr (HHDM + i * PMM_PAGESIZE, s') \<and> pages_taken s s' i n"
proof -
  have "i * PMM_PAGESIZE < (i + n) * PMM_PAGESIZE"
    using n(2) by (simp add: PMM_PAGESIZE_def)
  also have "\<dots> \<le> 2 ^ 45"
    using m(2) ok unfolding pmm_ok_def by (meson le_trans mult_le_mono1)
  finally have a: "VIRTUAL (mul64 i PMM_PAGESIZE) = HHDM + i * PMM_PAGESIZE"
    by (rule page_address)
  let ?s' = "s\<lparr>pmm_mutex := 0, pmm_usedmem := add64 (pmm_usedmem s) (n * PMM_PAGESIZE),
    pmm_freemem := sub64 (pmm_freemem s) (n * PMM_PAGESIZE), pmm_bm := bm\<rparr>"
  have "pmm_alloc_from start s bytes = Inr (HHDM + i * PMM_PAGESIZE, ?s')"
    using ok r i by (simp add: pmm_alloc_from_def n(1) a pmm_ok_def Let_def)
  moreover have "pages_taken s ?s' i n"
    using ok m(1) by (auto simp: pages_taken_def pmm_ok_def marked_def page_free_def)
  ultimately show ?thesis by blast
qed

lemma pmm_alloc_from_cases:
  assumes ok: "pmm_ok s" and bytes: "0 < bytes" "bytes \<le> 2 ^ 64 - PMM_PAGESIZE"
  obtains (placed) i s' where "pmm_alloc_from start s bytes = Inr (HHDM + i * PMM_PAGESIZE, s')"
      and "free_pages s i (pages_of bytes)" and "pages_taken s s' i (pages_of bytes)"
      and "i < start \<Longrightarrow> i + pages_of bytes \<le> start \<and> (\<forall>j \<ge> start. \<not> free_pages s j (pages_of bytes))"
  | (none) "pmm_alloc_from start s bytes = Inl (Fatal ''PMM failed to allocate %llu bytes'')"
      and "\<forall>i. start \<le> i \<or> i + pages_of bytes \<le> start \<longrightarrow> \<not> free_pages s i (pages_of bytes)"
proof -
  let ?n = "pages_of bytes"
  have n: "0 < ?n" and al: "align64 bytes PMM_PAGESIZE = ?n * PMM_PAGESIZE"
    using bytes by (simp_all add: pages_of_pos align_page)
  have wf: "bitmap_wf (pmm_bm s)"
    using ok by (simp add: pmm_ok_def)
  note run = pmm_alloc_from_run [OF ok al n] and fp = free_pages_iff [OF n]
  have fail: "pmm_alloc_from start s bytes = Inl (Fatal ''PMM failed to allocate %llu bytes'')"
    if "find_and_set_multiple (pmm_bm s) ?n start = Inr (NPOS, bm)" for bm
    using ok that by (simp add: pmm_alloc_from_def al pmm_ok_def Let_def)
  show thesis
  proof (cases rule: find_and_set_multiple_cases [OF wf n, of start, case_names above below])
    case (above p bm)
    then have "marked (pmm_bm s) bm p ?n" "p + ?n \<le> sz (pmm_bm s)" "start \<le> p" "free_pages s p ?n"
      by (auto simp: search_result_def fp)
    with run [OF above(1,2)] placed show thesis by (metis not_less)
  next
    case (below p bm)
    show thesis
    proof (cases "p = NPOS")
      case True
      with below have "\<forall>i. start \<le> i \<or> i + ?n \<le> start \<longrightarrow> \<not> free_pages s i ?n"
        using n by (auto simp: search_result_def fp)
      with True below(1) fail none show thesis by blast
    next
      case False
      with below have "marked (pmm_bm s) bm p ?n" "p + ?n \<le> sz (pmm_bm s)" "free_pages s p ?n"
        "p + ?n \<le> start" "\<forall>j \<ge> start. \<not> free_pages s j ?n"
        by (auto simp: search_result_def fp)
      with run [OF below(1) False] placed show thesis by blast
    qed
  qed
qed

lemma pmm_alloc_from_sound:
  assumes ok: "pmm_ok s" and bytes: "bytes < 2 ^ 64"
    and r: "pmm_alloc_from start s bytes = Inr (p, s')"
  shows "pmm_ok s'" and "region (p, bytes) \<subseteq> pmm_avail s" and "pmm_avail s' \<subseteq> pmm_avail s - region (p, bytes)"
proof -
  let ?n = "pages_of bytes"
  have m: "pmm_mutex s = 0" using ok by (simp add: pmm_ok_def)
  have "align64 bytes PMM_PAGESIZE \<noteq> 0"
    using r pmm_alloc_zero [OF m, of bytes start] by auto
  then have b: "0 < bytes" "bytes \<le> 2 ^ 64 - PMM_PAGESIZE"
    using align_page_wrap [OF _ bytes] align_page [of 0]
    by (auto simp: pages_of_def PMM_PAGESIZE_def not_less [symmetric] intro: ccontr)
  obtain i where p: "p = HHDM + i * PMM_PAGESIZE" and f: "free_pages s i ?n" and t: "pages_taken s s' i ?n"
    using r by (cases rule: pmm_alloc_from_cases [OF ok b, of start]) auto
  have in_page: "i \<le> (x - HHDM) div PMM_PAGESIZE \<and> (x - HHDM) div PMM_PAGESIZE < i + ?n"
    if "x \<in> region (p, bytes)" for x
  proof -
    have "i * PMM_PAGESIZE \<le> x - HHDM" "x - HHDM < (i + ?n) * PMM_PAGESIZE"
      using that pages_of_bounds [of bytes] by (auto simp: region_def p algebra_simps)
    then show ?thesis
      by (simp add: PMM_PAGESIZE_def less_eq_div_iff_mult_less_eq div_less_iff_less_mult)
  qed
  show "pmm_ok s'" using t by (simp add: pages_taken_def)
  show "region (p, bytes) \<subseteq> pmm_avail s"
  proof
    fix x assume x: "x \<in> region (p, bytes)"
    then obtain k where "k < ?n" "(x - HHDM) div PMM_PAGESIZE = i + k"
      using in_page [OF x] by (metis le_Suc_ex nat_add_left_cancel_less)
    with f have "page_free s ((x - HHDM) div PMM_PAGESIZE)" by (simp add: free_pages_def)
    moreover have "x = HHDM + (x - HHDM)" using x by (simp add: region_def p)
    ultimately show "x \<in> pmm_avail s" unfolding pmm_avail_def by blast
  qed
  show "pmm_avail s' \<subseteq> pmm_avail s - region (p, bytes)"
  proof
    fix y assume "y \<in> pmm_avail s'"
    then obtain x where y: "y = HHDM + x" and "page_free s' (x div PMM_PAGESIZE)"
      by (auto simp: pmm_avail_def)
    with t have "page_free s (x div PMM_PAGESIZE)"
      "\<not> (i \<le> x div PMM_PAGESIZE \<and> x div PMM_PAGESIZE < i + ?n)"
      by (simp_all add: pages_taken_def)
    with in_page [of y] show "y \<in> pmm_avail s - region (p, bytes)"
      by (auto simp: pmm_avail_def y)
  qed
qed

lemma pmm_call_cases:
  assumes "pmm_call s c = Inr (r, s')" and "pmm_legal c"
  obtains (alloc) start bytes p where "pmm_alloc_from start s bytes = Inr (p, s')" and "r = (p, bytes)"
      and "bytes < 2 ^ 64"
  | (free) p where "r = (p, 0)" and "s' = s"
  using assms
  by (cases c) (fastforce simp: rbind_eq_Inr pmm_alloc_conv pmm_alloc4g_conv pmm_free_def)+

lemma pmm_call_ok:
  assumes "pmm_ok s" and "pmm_legal c" and "pmm_call s c = Inr (r, s')"
  shows "pmm_ok s'" and "region r \<subseteq> pmm_avail s" and "pmm_avail s' \<subseteq> pmm_avail s - region r"
proof -
  have "pmm_ok s' \<and> region r \<subseteq> pmm_avail s \<and> pmm_avail s' \<subseteq> pmm_avail s - region r"
    using assms(3,2)
  proof (cases rule: pmm_call_cases)
    case (alloc start bytes p)
    with pmm_alloc_from_sound [OF assms(1) alloc(3,1)] show ?thesis by simp
  next
    case (free p)
    with assms(1) show ?thesis by simp
  qed
  then show "pmm_ok s'" and "region r \<subseteq> pmm_avail s" and "pmm_avail s' \<subseteq> pmm_avail s - region r"
    by auto
qed

interpretation pages: region_allocator pmm_ok pmm_avail pmm_legal pmm_call
  by unfold_locales (fact pmm_call_ok)+

section \<open>Reading the memory map\<close>

definition set_range :: "bitmap \<Rightarrow> bitmap \<Rightarrow> bool \<Rightarrow> nat \<Rightarrow> nat \<Rightarrow> bool" where
  "set_range b b' v i n \<longleftrightarrow> bitmap_wf b' \<and> sz b' = sz b \<and>
     (\<forall>j. bits b' j = (if i \<le> j \<and> j < i + n then v else bits b j))"

lemma set_range_0: "bitmap_wf b \<Longrightarrow> set_range b b v i 0"
  by (auto simp: set_range_def)

lemma page_add_div:
  assumes "(a + c) * PMM_PAGESIZE < 2 ^ 64"
  shows "add64 (a * PMM_PAGESIZE) (c * PMM_PAGESIZE) div PMM_PAGESIZE = a + c"
proof -
  have "add64 (a * PMM_PAGESIZE) (c * PMM_PAGESIZE) = (a + c) * PMM_PAGESIZE"
    using assms by (subst add64_small) (simp_all add: algebra_simps)
  then show ?thesis by simp
qed

lemma less_pages_of: "c * PMM_PAGESIZE < n \<longleftrightarrow> c < pages_of n"
proof -
  have "c < pages_of n \<longleftrightarrow> Suc c * PMM_PAGESIZE \<le> n + (PMM_PAGESIZE - 1)"
    unfolding pages_of_def Suc_le_eq [symmetric]
    by (rule less_eq_div_iff_mult_less_eq) (simp add: PMM_PAGESIZE_def)
  then show ?thesis by (simp add: PMM_PAGESIZE_def) linarith
qed

lemma set_pages_ok:
  assumes "bitmap_wf b" and "a + pages_of n \<le> sz b" and "sz b * PMM_PAGESIZE \<le> 2 ^ 64"
    and "c \<le> pages_of n"
  shows "\<exists>b'. set_pages b v (a * PMM_PAGESIZE) (c * PMM_PAGESIZE) n = Inr b' \<and>
    set_range b b' v (a + c) (pages_of n - c)"
  using assms
proof (induction "pages_of n - c" arbitrary: b c)
  case 0
  then have "\<not> c * PMM_PAGESIZE < n" by (simp add: less_pages_of)
  with 0 show ?case by (subst set_pages.simps) (simp add: set_range_0)
next
  case (Suc k)
  then have lt: "c * PMM_PAGESIZE < n" and le: "a + c < sz b" by (auto simp: less_pages_of)
  have "(a + c) * PMM_PAGESIZE < sz b * PMM_PAGESIZE"
    using le by (simp add: PMM_PAGESIZE_def)
  then have idx: "add64 (a * PMM_PAGESIZE) (c * PMM_PAGESIZE) div PMM_PAGESIZE = a + c"
    using Suc.prems(3) by (intro page_add_div) linarith
  obtain b1 where b1: "bitmap_set b (a + c) v = Inr b1" "bitmap_wf b1" "sz b1 = sz b"
    "bits b1 = (bits b)(a + c := v)"
    by (rule bitmap_set_ok [OF Suc.prems(1) le])
  obtain b2 where b2: "set_pages b1 v (a * PMM_PAGESIZE) (Suc c * PMM_PAGESIZE) n = Inr b2"
    "set_range b1 b2 v (a + Suc c) (pages_of n - Suc c)"
  proof -
    have "k = pages_of n - Suc c" and "Suc c \<le> pages_of n"
      using Suc.hyps(2) by linarith+
    then show thesis
      using Suc.hyps(1) [of "Suc c" b1] Suc.prems b1(2,3) that by fastforce
  qed
  have "set_range b b2 v (a + c) (pages_of n - c)"
    using b1 b2(2) Suc.hyps(2) by (auto simp: set_range_def)
  moreover have "set_pages b v (a * PMM_PAGESIZE) (c * PMM_PAGESIZE) n = Inr b2"
    using lt idx b1(1) b2(1) by (subst set_pages.simps) (simp add: add.commute)
  ultimately show ?case by blast
qed

lemma set_pages_out:
  assumes "bitmap_wf b" and "sz b < a + pages_of n" and "a * PMM_PAGESIZE + n \<le> 2 ^ 63"
    and "c < pages_of n"
  shows "set_pages b v (a * PMM_PAGESIZE) (c * PMM_PAGESIZE) n = Inl (Fatal ''set out of bounds'')"
  using assms
proof (induction "pages_of n - c" arbitrary: b c)
  case 0
  then show ?case by simp
next
  case (Suc k)
  then have lt: "c * PMM_PAGESIZE < n" by (simp add: less_pages_of)
  then have "(a + c) * PMM_PAGESIZE < 2 ^ 64"
    using Suc.prems(3) by (simp add: algebra_simps)
  then have idx: "add64 (a * PMM_PAGESIZE) (c * PMM_PAGESIZE) div PMM_PAGESIZE = a + c"
    by (rule page_add_div)
  show ?case
  proof (cases "a + c < sz b")
    case False
    then show ?thesis
      using lt idx by (subst set_pages.simps) (simp add: bitmap_set_out_of_bounds)
  next
    case True
    obtain b1 where b1: "bitmap_set b (a + c) v = Inr b1" "bitmap_wf b1" "sz b1 = sz b"
      by (rule bitmap_set_ok [OF Suc.prems(1) True])
    have "set_pages b1 v (a * PMM_PAGESIZE) (Suc c * PMM_PAGESIZE) n = Inl (Fatal ''set out of bounds'')"
      using True Suc.hyps(1) [of "Suc c" b1] Suc.hyps(2) Suc.prems b1(2,3) by simp
    then show ?thesis
      using lt idx b1(1) by (subst set_pages.simps) (simp add: add.commute)
  qed
qed

text \<open>
  What the boot protocol documents of usable entries: they are aligned to pages and do not overlap
  one another. The bound of 32 TiB is the machine's.
\<close>

definition entry_ok :: "limine_memmap_entry \<Rightarrow> bool" where
  "entry_ok e \<longleftrightarrow> PMM_PAGESIZE dvd base e \<and> PMM_PAGESIZE dvd len e \<and> base e + len e \<le> 2 ^ 45"

definition first_page :: "limine_memmap_entry \<Rightarrow> nat" where
  "first_page e = base e div PMM_PAGESIZE"

definition end_page :: "limine_memmap_entry \<Rightarrow> nat" where
  "end_page e = (base e + len e) div PMM_PAGESIZE"

definition memmap_ok :: "limine_memmap_entry list \<Rightarrow> bool" where
  "memmap_ok es \<longleftrightarrow>
     (\<forall>e \<in> set es. type_of e = USABLE \<longrightarrow> entry_ok e) \<and>
     (\<forall>e \<in> set es. \<forall>f \<in> set es. type_of e = USABLE \<and> type_of f = USABLE \<and> e \<noteq> f \<longrightarrow>
        end_page e \<le> first_page f \<or> end_page f \<le> first_page e)"

definition usable_page :: "limine_memmap_entry list \<Rightarrow> nat \<Rightarrow> bool" where
  "usable_page es i \<longleftrightarrow> (\<exists>e \<in> set es. type_of e = USABLE \<and> first_page e \<le> i \<and> i < end_page e)"

lemma entry_ok_pages:
  assumes "entry_ok e"
  obtains m where "base e = first_page e * PMM_PAGESIZE" and "len e = m * PMM_PAGESIZE"
    and "end_page e = first_page e + m"
proof -
  obtain a m where "base e = a * PMM_PAGESIZE" "len e = m * PMM_PAGESIZE"
    using assms by (auto simp: entry_ok_def dvd_def mult.commute)
  then show thesis
    using that [of m] by (simp add: first_page_def end_page_def flip: add_mult_distrib)
qed

lemma pages_of_mult [simp]: "pages_of (m * PMM_PAGESIZE) = m"
  by (simp add: pages_of_def PMM_PAGESIZE_def)

lemma align_page_mult:
  "m * PMM_PAGESIZE \<le> 2 ^ 45 \<Longrightarrow> align64 (m * PMM_PAGESIZE) PMM_PAGESIZE = m * PMM_PAGESIZE"
  by (subst align_page) (simp add: PMM_PAGESIZE_def, simp)

lemma clear_pages_entry:
  assumes "entry_ok e" and "bitmap_wf b" and "end_page e \<le> sz b" and "sz b * PMM_PAGESIZE \<le> 2 ^ 64"
  shows "\<exists>b'. clear_pages b (align64 (base e) PMM_PAGESIZE) (align_down (len e) PMM_PAGESIZE) = Inr b' \<and>
    set_range b b' False (first_page e) (end_page e - first_page e)"
proof -
  obtain m where m: "base e = first_page e * PMM_PAGESIZE" "len e = m * PMM_PAGESIZE"
    "end_page e = first_page e + m"
    by (rule entry_ok_pages [OF assms(1)])
  then have "align64 (base e) PMM_PAGESIZE = first_page e * PMM_PAGESIZE"
    "align_down (len e) PMM_PAGESIZE = m * PMM_PAGESIZE"
    using assms(1) align_page_mult [of "first_page e"] by (simp_all add: entry_ok_def align_down_def)
  then show ?thesis
    using set_pages_ok [of b "first_page e" "m * PMM_PAGESIZE" 0 False] assms m(3)
    by (simp add: clear_pages_def)
qed

lemma clear_pages_entry_out:
  assumes "entry_ok e" and "bitmap_wf b" and "sz b < end_page e" and "first_page e < end_page e"
  shows "clear_pages b (align64 (base e) PMM_PAGESIZE) (align_down (len e) PMM_PAGESIZE) =
    Inl (Fatal ''set out of bounds'')"
proof -
  obtain m where m: "base e = first_page e * PMM_PAGESIZE" "len e = m * PMM_PAGESIZE"
    "end_page e = first_page e + m"
    by (rule entry_ok_pages [OF assms(1)])
  then have "align64 (base e) PMM_PAGESIZE = first_page e * PMM_PAGESIZE"
    "align_down (len e) PMM_PAGESIZE = m * PMM_PAGESIZE"
    using assms(1) align_page_mult [of "first_page e"] by (simp_all add: entry_ok_def align_down_def)
  moreover have "first_page e * PMM_PAGESIZE + m * PMM_PAGESIZE \<le> 2 ^ 63"
    using assms(1) m(1,2) by (simp add: entry_ok_def)
  ultimately show ?thesis
    using set_pages_out [of b "first_page e" "m * PMM_PAGESIZE" 0 False] assms m(3)
    by (simp add: clear_pages_def)
qed

text \<open>\<open>K\<close> is the number of pages the second loop marks again at the start of the chosen entry \<open>c\<close>.\<close>

definition entry_written :: "nat \<Rightarrow> limine_memmap_entry \<Rightarrow> limine_memmap_entry \<Rightarrow> bitmap \<Rightarrow> bitmap \<Rightarrow> bool" where
  "entry_written K c e b b' \<longleftrightarrow> bitmap_wf b' \<and> sz b' = sz b \<and>
     (\<forall>i. bits b' i =
        (if base e = base c \<and> first_page c \<le> i \<and> i < first_page c + K then True
         else if first_page e \<le> i \<and> i < end_page e then False else bits b i))"

lemma same_entry_iff:
  assumes "entry_ok e" and "entry_ok c" and "pmm_buffer s = VIRTUAL (add64 (base c) WM_SIZE)"
  shows "add64 (base e) WM_SIZE = PHYSICAL (pmm_buffer s) \<longleftrightarrow> base e = base c"
proof -
  have w: "WM_SIZE = 2 ^ 26" by (simp add: WM_SIZE_def mibs2bytes_def push_bit_eq_mult)
  have b: "base e \<le> 2 ^ 45" "base c \<le> 2 ^ 45" using assms by (auto simp: entry_ok_def)
  then have "add64 (base e) WM_SIZE = base e + WM_SIZE" "add64 (base c) WM_SIZE = base c + WM_SIZE"
    by (auto intro!: add64_small simp: w)
  moreover have "PHYSICAL (base c + WM_SIZE) = base c + WM_SIZE"
    using b by (intro PHYSICAL_small) (simp add: w)
  ultimately show ?thesis using assms(3) by simp
qed

lemma pmm_init_entry_ok:
  assumes e: "type_of e = USABLE" "entry_ok e" "end_page e \<le> sz (pmm_bm s)"
    and c: "entry_ok c" "first_page c + pages_of (add64 bm_size WM_SIZE) \<le> sz (pmm_bm s)"
    and s: "bitmap_wf (pmm_bm s)" "sz (pmm_bm s) * PMM_PAGESIZE \<le> 2 ^ 64"
      "pmm_buffer s = VIRTUAL (add64 (base c) WM_SIZE)"
  shows "\<exists>b'. pmm_init_entry bm_size e s =
      Inr (s\<lparr>pmm_freemem := add64 (pmm_freemem s) (len e), pmm_bm := b'\<rparr>) \<and>
    entry_written (pages_of (add64 bm_size WM_SIZE)) c e (pmm_bm s) b'"
proof -
  let ?K = "pages_of (add64 bm_size WM_SIZE)"
  obtain b1 where b1: "clear_pages (pmm_bm s) (align64 (base e) PMM_PAGESIZE) (align_down (len e) PMM_PAGESIZE) = Inr b1"
    "set_range (pmm_bm s) b1 False (first_page e) (end_page e - first_page e)"
    using clear_pages_entry [OF e(2) s(1) e(3) s(2)] by blast
  then have wf1: "bitmap_wf b1" "sz b1 = sz (pmm_bm s)" by (auto simp: set_range_def)
  have le: "first_page e \<le> end_page e"
    by (simp add: first_page_def end_page_def div_le_mono)
  note same = same_entry_iff [OF e(2) c(1) s(3)]
  show ?thesis
  proof (cases "base e = base c")
    case False
    then have "entry_written ?K c e (pmm_bm s) b1"
      using b1(2) le by (auto simp: entry_written_def set_range_def)
    then show ?thesis
      using False b1(1) e(1) same by (intro exI [of _ b1]) (simp add: pmm_init_entry_def Let_def)
  next
    case True
    have "base e = first_page c * PMM_PAGESIZE"
      using True entry_ok_pages [OF c(1)] by metis
    then obtain b2 where b2: "reserve_pages b1 (base e) (add64 bm_size WM_SIZE) = Inr b2"
      "set_range b1 b2 True (first_page c) ?K"
      using set_pages_ok [of b1 "first_page c" "add64 bm_size WM_SIZE" 0 True] wf1 c(2) s(2)
      by (auto simp: reserve_pages_def)
    have "entry_written ?K c e (pmm_bm s) b2"
      using True b1(2) b2(2) le by (auto simp: entry_written_def set_range_def)
    then show ?thesis
      using True b1(1) b2(1) e(1) same by (intro exI [of _ b2]) (simp add: pmm_init_entry_def Let_def)
  qed
qed

text \<open>The state after the entries \<open>es\<close>: pages are clear only if usable, every usable page outside the
  marked range is clear, and the part of the marked range that belongs to \<open>c\<close> alone stays marked.\<close>

definition entries_written :: "nat \<Rightarrow> limine_memmap_entry \<Rightarrow> limine_memmap_entry list \<Rightarrow> bitmap \<Rightarrow> bitmap \<Rightarrow> bool" where
  "entries_written K c es b b' \<longleftrightarrow> bitmap_wf b' \<and> sz b' = sz b \<and>
     (\<forall>i. \<not> bits b' i \<longrightarrow> \<not> bits b i \<or> usable_page es i) \<and>
     (\<forall>i. (i < first_page c \<or> first_page c + K \<le> i) \<and> (\<not> bits b i \<or> usable_page es i) \<longrightarrow> \<not> bits b' i) \<and>
     (\<forall>i. first_page c \<le> i \<and> i < first_page c + K \<and> (bits b i \<or> c \<in> set es \<and> type_of c = USABLE) \<and>
        (\<forall>e \<in> set es. type_of e = USABLE \<and> first_page e \<le> i \<and> i < end_page e \<longrightarrow> e = c) \<longrightarrow> bits b' i)"

lemma usable_page_Cons [simp]:
  "usable_page (e # es) i \<longleftrightarrow> type_of e = USABLE \<and> first_page e \<le> i \<and> i < end_page e \<or> usable_page es i"
  by (auto simp: usable_page_def)

lemma usable_page_Nil [simp]: "\<not> usable_page [] i"
  by (simp add: usable_page_def)

lemma entries_written_Cons:
  assumes "entry_written K c e b b1" and "entries_written K c es b1 b2" and "type_of e = USABLE"
  shows "entries_written K c (e # es) b b2"
  unfolding entries_written_def
proof (intro conjI allI impI)
  show "bitmap_wf b2" "sz b2 = sz b"
    using assms by (auto simp: entries_written_def entry_written_def)
next
  fix i assume "\<not> bits b2 i"
  with assms show "\<not> bits b i \<or> usable_page (e # es) i"
    unfolding entries_written_def entry_written_def by (metis usable_page_Cons)
next
  fix i assume "(i < first_page c \<or> first_page c + K \<le> i) \<and> (\<not> bits b i \<or> usable_page (e # es) i)"
  with assms show "\<not> bits b2 i"
    unfolding entries_written_def entry_written_def usable_page_Cons by (metis not_le)
next
  fix i assume i: "first_page c \<le> i \<and> i < first_page c + K \<and>
    (bits b i \<or> c \<in> set (e # es) \<and> type_of c = USABLE) \<and>
    (\<forall>f \<in> set (e # es). type_of f = USABLE \<and> first_page f \<le> i \<and> i < end_page f \<longrightarrow> f = c)"
  have "bits b1 i" if "bits b i \<or> e = c"
  proof (cases "e = c")
    case True
    with i assms(1) show ?thesis by (simp add: entry_written_def)
  next
    case False
    with i assms(3) have "\<not> (first_page e \<le> i \<and> i < end_page e)" by auto
    with that False assms(1) show ?thesis by (auto simp: entry_written_def)
  qed
  then have "bits b1 i \<or> c \<in> set es \<and> type_of c = USABLE" using i by auto
  moreover have "\<forall>f \<in> set es. type_of f = USABLE \<and> first_page f \<le> i \<and> i < end_page f \<longrightarrow> f = c"
    using i by auto
  ultimately show "bits b2 i"
    using i assms(2) unfolding entries_written_def by blast
qed

lemma pmm_init_entries_ok:
  assumes "\<forall>e \<in> set es. type_of e = USABLE \<longrightarrow> entry_ok e \<and> end_page e \<le> sz (pmm_bm s)"
    and "entry_ok c" and "first_page c + pages_of (add64 bm_size WM_SIZE) \<le> sz (pmm_bm s)"
    and "bitmap_wf (pmm_bm s)" and "sz (pmm_bm s) * PMM_PAGESIZE \<le> 2 ^ 64"
    and "pmm_buffer s = VIRTUAL (add64 (base c) WM_SIZE)" and "pmm_freemem s < 2 ^ 64"
  shows "\<exists>fm b'. pmm_init_entries bm_size es s = Inr (s\<lparr>pmm_freemem := fm, pmm_bm := b'\<rparr>) \<and>
    entries_written (pages_of (add64 bm_size WM_SIZE)) c es (pmm_bm s) b' \<and>
    fm = (pmm_freemem s + sum_list (map len (filter (\<lambda>e. type_of e = USABLE) es))) mod 2 ^ 64"
  using assms
proof (induction es arbitrary: s)
  case Nil
  then show ?case
    by (intro exI [of _ "pmm_freemem s"] exI [of _ "pmm_bm s"]) (simp add: entries_written_def)
next
  case (Cons e es)
  let ?K = "pages_of (add64 bm_size WM_SIZE)"
  show ?case
  proof (cases "type_of e = USABLE")
    case False
    then have "entries_written ?K c (e # es) b b' \<longleftrightarrow> entries_written ?K c es b b'" for b b'
      by (auto simp: entries_written_def)
    then show ?thesis
      using Cons.IH [of s] Cons.prems False by (simp add: pmm_init_entry_def)
  next
    case True
    then have "entry_ok e" "end_page e \<le> sz (pmm_bm s)" using Cons.prems(1) by auto
    from pmm_init_entry_ok [OF True this Cons.prems(2-6)] obtain b1 where
      step: "pmm_init_entry bm_size e s = Inr (s\<lparr>pmm_freemem := add64 (pmm_freemem s) (len e), pmm_bm := b1\<rparr>)"
      and w: "entry_written ?K c e (pmm_bm s) b1"
      by blast
    let ?s1 = "s\<lparr>pmm_freemem := add64 (pmm_freemem s) (len e), pmm_bm := b1\<rparr>"
    have "bitmap_wf b1" "sz b1 = sz (pmm_bm s)" using w by (auto simp: entry_written_def)
    then have "\<exists>fm b'. pmm_init_entries bm_size es ?s1 = Inr (?s1\<lparr>pmm_freemem := fm, pmm_bm := b'\<rparr>) \<and>
      entries_written ?K c es (pmm_bm ?s1) b' \<and>
      fm = (pmm_freemem ?s1 + sum_list (map len (filter (\<lambda>e. type_of e = USABLE) es))) mod 2 ^ 64"
      using Cons.prems by (intro Cons.IH) simp_all
    moreover have "pmm_bm ?s1 = b1" "pmm_freemem ?s1 = add64 (pmm_freemem s) (len e)"
      by simp_all
    ultimately obtain fm b2 where rest: "pmm_init_entries bm_size es ?s1 = Inr (?s1\<lparr>pmm_freemem := fm, pmm_bm := b2\<rparr>)"
      and w2: "entries_written ?K c es b1 b2"
      and fm: "fm = (add64 (pmm_freemem s) (len e) +
        sum_list (map len (filter (\<lambda>e. type_of e = USABLE) es))) mod 2 ^ 64"
      by metis
    have "fm = (pmm_freemem s + sum_list (map len (filter (\<lambda>e. type_of e = USABLE) (e # es)))) mod 2 ^ 64"
      using fm True by (simp add: add64_def mod_simps add.assoc)
    moreover have "pmm_init_entries bm_size (e # es) s = Inr (s\<lparr>pmm_freemem := fm, pmm_bm := b2\<rparr>)"
      using step rest by simp
    ultimately show ?thesis
      using entries_written_Cons [OF w w2 True] by blast
  qed
qed

lemma WM_SIZE_eq: "WM_SIZE = 2 ^ 26"
  by (simp add: WM_SIZE_def mibs2bytes_def push_bit_eq_mult)

lemma pmm_candidate_SomeD:
  "pmm_candidate bm_bytes es = Some c \<Longrightarrow>
   c \<in> set es \<and> type_of c = USABLE \<and> add64 bm_bytes WM_SIZE \<le> len c"
  by (induction es) (auto split: if_splits)

lemma pmm_bm_size_le:
  assumes "base l + len l \<le> 2 ^ 45"
  shows "pmm_bm_size l \<le> 2 ^ 33"
proof -
  have "add64 (base l) (len l) = base l + len l"
    using assms by (intro add64_small) simp
  then have "pmm_bm_size l = pages_of (base l + len l)"
    using assms align_page [of "base l + len l"] by (simp add: pmm_bm_size_def PMM_PAGESIZE_def)
  also have "\<dots> \<le> (2 ^ 45 + 4095) div 4096"
    unfolding pages_of_def PMM_PAGESIZE_def using assms by (intro div_le_mono) simp
  finally show ?thesis by simp
qed

text \<open>The memory that \<^verbatim>\<open>pmm_init\<close> keeps for itself at the start of entry \<open>c\<close>: the watermark region and
  the bitmap behind it.\<close>

definition kept_page :: "limine_memmap_entry \<Rightarrow> nat \<Rightarrow> nat \<Rightarrow> bool" where
  "kept_page c bm_bytes i \<longleftrightarrow> base c \<le> i * PMM_PAGESIZE \<and> i * PMM_PAGESIZE < base c + WM_SIZE + bm_bytes"

lemma kept_page_bounds:
  assumes "entry_ok c" and "bm_bytes + WM_SIZE \<le> len c" and "bm_bytes \<le> bm_size"
    and "kept_page c bm_bytes i"
  shows "first_page c \<le> i" and "i < first_page c + pages_of (bm_size + WM_SIZE)" and "i < end_page c"
proof -
  obtain m where m: "base c = first_page c * PMM_PAGESIZE" "len c = m * PMM_PAGESIZE"
    "end_page c = first_page c + m"
    by (rule entry_ok_pages [OF assms(1)])
  show le: "first_page c \<le> i"
    using assms(4) m(1) by (simp add: kept_page_def PMM_PAGESIZE_def)
  have "(i - first_page c) * PMM_PAGESIZE < bm_bytes + WM_SIZE"
    using assms(4) m(1) mult_le_mono1 [OF le, of PMM_PAGESIZE]
    unfolding kept_page_def diff_mult_distrib by linarith
  then have "(i - first_page c) * PMM_PAGESIZE < bm_size + WM_SIZE"
    and "(i - first_page c) * PMM_PAGESIZE < m * PMM_PAGESIZE"
    using assms(2,3) m(2) by linarith+
  then have "i - first_page c < pages_of (bm_size + WM_SIZE)" and "i - first_page c < m"
    by (simp_all only: less_pages_of pages_of_mult)
  then show "i < first_page c + pages_of (bm_size + WM_SIZE)" and "i < end_page c"
    using le m(3) by linarith+
qed

text \<open>
  A memory map on which \<^verbatim>\<open>pmm_init\<close> finds the last entry \<open>l\<close> and the entry \<open>c\<close> to settle in, and the
  further condition that everything it writes to the bitmap is inside it: the bitmap has \<open>bm_size\<close>
  bits rounded down to a multiple of 64.
\<close>

definition boot_ok :: "limine_memmap_entry list \<Rightarrow> limine_memmap_entry \<Rightarrow> limine_memmap_entry \<Rightarrow> bool" where
  "boot_ok es l c \<longleftrightarrow> memmap_ok es \<and> pmm_last es = Inr l \<and> base l + len l \<le> 2 ^ 45 \<and>
     pmm_candidate (pmm_bm_size l div 8) es = Some c"

definition boot_fits :: "limine_memmap_entry list \<Rightarrow> limine_memmap_entry \<Rightarrow> limine_memmap_entry \<Rightarrow> bool" where
  "boot_fits es l c \<longleftrightarrow>
     (\<forall>e \<in> set es. type_of e = USABLE \<longrightarrow> end_page e \<le> align_down (pmm_bm_size l) 64) \<and>
     first_page c + pages_of (pmm_bm_size l + WM_SIZE) \<le> align_down (pmm_bm_size l) 64"

lemma boot_okD:
  assumes "boot_ok es l c"
  shows "c \<in> set es" "type_of c = USABLE" "entry_ok c" "pmm_bm_size l \<le> 2 ^ 33"
    "pmm_bm_size l div 8 + WM_SIZE \<le> len c" "add64 (base c) WM_SIZE = base c + WM_SIZE"
    "add64 (pmm_bm_size l) WM_SIZE = pmm_bm_size l + WM_SIZE"
    "VIRTUAL (base c) = HHDM + base c" "VIRTUAL (base c + WM_SIZE) = HHDM + base c + WM_SIZE"
proof -
  have l: "base l + len l \<le> 2 ^ 45" and cand: "pmm_candidate (pmm_bm_size l div 8) es = Some c"
    and m: "memmap_ok es"
    using assms by (auto simp: boot_ok_def)
  note bs = pmm_bm_size_le [OF l]
  show "pmm_bm_size l \<le> 2 ^ 33" by (rule bs)
  show c: "c \<in> set es" "type_of c = USABLE" and "entry_ok c"
    using pmm_candidate_SomeD [OF cand] m by (auto simp: memmap_ok_def)
  then have b: "base c + len c \<le> 2 ^ 45" by (simp add: entry_ok_def)
  have "add64 (pmm_bm_size l div 8) WM_SIZE = pmm_bm_size l div 8 + WM_SIZE"
    using bs by (intro add64_small) (simp add: WM_SIZE_eq)
  then show w: "pmm_bm_size l div 8 + WM_SIZE \<le> len c"
    using pmm_candidate_SomeD [OF cand] by simp
  show "add64 (base c) WM_SIZE = base c + WM_SIZE"
    using b by (intro add64_small) (simp add: WM_SIZE_eq)
  show "add64 (pmm_bm_size l) WM_SIZE = pmm_bm_size l + WM_SIZE"
    using bs by (intro add64_small) (simp add: WM_SIZE_eq)
  show "VIRTUAL (base c) = HHDM + base c" "VIRTUAL (base c + WM_SIZE) = HHDM + base c + WM_SIZE"
    using b by (simp_all add: VIRTUAL_eq_add WM_SIZE_eq)
qed

lemma pmm_init_unfold:
  assumes ok: "boot_ok es l c"
  obtains b where "bitmap_wf b" and "sz b = align_down (pmm_bm_size l) 64" and "\<forall>i < sz b. bits b i"
    and "pmm_init ram es =
      rbind (pmm_init_entries (pmm_bm_size l) es
        \<lparr>pmm_freemem = 0, pmm_usedmem = 0, pmm_reservedmem = 0, pmm_bm = b,
         pmm_buffer = VIRTUAL (add64 (base c) WM_SIZE), pmm_mutex = 0\<rparr>) (\<lambda>s.
      rbind (bitmap_set (pmm_bm s) 0 True) (\<lambda>b'.
      Inr (s\<lparr>pmm_bm := b'\<rparr>, \<lparr>wm_cursor = VIRTUAL (base c), wm_free = WM_SIZE, wm_mutex = 0\<rparr>)))"
proof -
  let ?buf = "map (\<lambda>k. ram (VIRTUAL (add64 (base c) WM_SIZE) + 8 * k)) [0 ..< pmm_bm_size l div 64]"
  have "pmm_bm_size l < 2 ^ 64"
    using boot_okD(4) [OF ok] by simp
  then obtain b where b: "bitmap_init ?buf (pmm_bm_size l) True = Inr b" "bitmap_wf b"
    "sz b = align_down (pmm_bm_size l) 64" "\<forall>i < sz b. bits b i = True"
    using bitmap_init_ok [of "pmm_bm_size l" ?buf True] by auto
  have l: "pmm_last es = Inr l" and c: "pmm_candidate (pmm_bm_size l div 8) es = Some c"
    using ok by (auto simp: boot_ok_def)
  show thesis
    using b l c by (intro that [of b]) (simp_all add: pmm_init_def Let_def)
qed

lemma bits_after_entries:
  assumes "entries_written K c es b b1" and "\<forall>i < sz b. bits b i" and "i < sz b"
  shows "\<not> bits b1 i \<Longrightarrow> usable_page es i"
    and "i < first_page c \<or> first_page c + K \<le> i \<Longrightarrow> usable_page es i \<Longrightarrow> \<not> bits b1 i"
  using assms unfolding entries_written_def by blast+

lemma memmap_unique:
  assumes "memmap_ok es" and "c \<in> set es" "type_of c = USABLE" and "first_page c \<le> i" "i < end_page c"
    and "e \<in> set es" "type_of e = USABLE" "first_page e \<le> i" "i < end_page e"
  shows "e = c"
proof (rule ccontr)
  assume "e \<noteq> c"
  then have "end_page e \<le> first_page c \<or> end_page c \<le> first_page e"
    using assms(1-3,6,7) unfolding memmap_ok_def by blast
  with assms(4,5,8,9) show False by linarith
qed

lemma kept_page_addr:
  assumes "entry_ok c" and "base c \<le> x" and "x < base c + WM_SIZE + n"
  shows "kept_page c n (x div PMM_PAGESIZE)"
proof -
  have "base c = first_page c * PMM_PAGESIZE"
    using entry_ok_pages [OF assms(1)] by metis
  moreover have "first_page c \<le> x div PMM_PAGESIZE"
    unfolding first_page_def using assms(2) by (rule div_le_mono)
  ultimately have "base c \<le> x div PMM_PAGESIZE * PMM_PAGESIZE"
    by (simp only: mult_le_mono1)
  moreover have "x div PMM_PAGESIZE * PMM_PAGESIZE \<le> x"
    by simp
  ultimately show ?thesis
    using assms(3) unfolding kept_page_def by linarith
qed

lemma pmm_avail_outside_kept:
  assumes "entry_ok c" and "\<forall>i. page_free s i \<longrightarrow> \<not> kept_page c n i"
  shows "pmm_avail s \<inter> {HHDM + base c ..< HHDM + base c + WM_SIZE + n} = {}"
  using kept_page_addr [OF assms(1)] assms(2) by (fastforce simp: pmm_avail_def)

lemma kept_marked:
  assumes ok: "boot_ok es l c" and w: "entries_written (pages_of (pmm_bm_size l + WM_SIZE)) c es b b1"
    and kept: "kept_page c (pmm_bm_size l div 8) i"
  shows "bits b1 i"
proof -
  note c = boot_okD [OF ok]
  have k: "first_page c \<le> i" "i < first_page c + pages_of (pmm_bm_size l + WM_SIZE)" "i < end_page c"
    using kept_page_bounds [OF c(3,5) _ kept, of "pmm_bm_size l"] by auto
  have "\<forall>e \<in> set es. type_of e = USABLE \<and> first_page e \<le> i \<and> i < end_page e \<longrightarrow> e = c"
    using memmap_unique [OF _ c(1,2) k(1,3)] ok unfolding boot_ok_def by blast
  then show ?thesis
    using w c(1,2) k(1,2) unfolding entries_written_def by blast
qed

lemma pmm_init_run:
  assumes ok: "boot_ok es l c" and fits: "boot_fits es l c"
  obtains b b1 b2 s where "pmm_init ram es = Inr (s, \<lparr>wm_cursor = VIRTUAL (base c), wm_free = WM_SIZE, wm_mutex = 0\<rparr>)"
    and "\<forall>i < sz b. bits b i" and "sz b = align_down (pmm_bm_size l) 64" and "sz b * PMM_PAGESIZE \<le> 2 ^ 45"
    and "entries_written (pages_of (pmm_bm_size l + WM_SIZE)) c es b b1"
    and "bitmap_wf b2" and "sz b2 = sz b" and "bits b2 = (bits b1)(0 := True)"
    and "s = \<lparr>pmm_freemem = sum_list (map len (filter (\<lambda>e. type_of e = USABLE) es)) mod 2 ^ 64,
      pmm_usedmem = 0, pmm_reservedmem = 0, pmm_bm = b2,
      pmm_buffer = VIRTUAL (add64 (base c) WM_SIZE), pmm_mutex = 0\<rparr>"
proof -
  note c = boot_okD [OF ok]
  obtain b where b: "bitmap_wf b" "sz b = align_down (pmm_bm_size l) 64" "\<forall>i < sz b. bits b i"
    and init: "pmm_init ram es =
      rbind (pmm_init_entries (pmm_bm_size l) es
        \<lparr>pmm_freemem = 0, pmm_usedmem = 0, pmm_reservedmem = 0, pmm_bm = b,
         pmm_buffer = VIRTUAL (add64 (base c) WM_SIZE), pmm_mutex = 0\<rparr>) (\<lambda>s.
      rbind (bitmap_set (pmm_bm s) 0 True) (\<lambda>b'.
      Inr (s\<lparr>pmm_bm := b'\<rparr>, \<lparr>wm_cursor = VIRTUAL (base c), wm_free = WM_SIZE, wm_mutex = 0\<rparr>)))"
    by (rule pmm_init_unfold [OF ok])
  have "sz b \<le> 2 ^ 33" using b(2) c(4) align_down_le le_trans by metis
  then have szb: "sz b * PMM_PAGESIZE \<le> 2 ^ 45" by (simp add: PMM_PAGESIZE_def)
  let ?s0 = "\<lparr>pmm_freemem = 0, pmm_usedmem = 0, pmm_reservedmem = 0, pmm_bm = b,
         pmm_buffer = VIRTUAL (add64 (base c) WM_SIZE), pmm_mutex = 0\<rparr>"
  have "\<exists>fm b'. pmm_init_entries (pmm_bm_size l) es ?s0 = Inr (?s0\<lparr>pmm_freemem := fm, pmm_bm := b'\<rparr>) \<and>
    entries_written (pages_of (add64 (pmm_bm_size l) WM_SIZE)) c es (pmm_bm ?s0) b' \<and>
    fm = (pmm_freemem ?s0 + sum_list (map len (filter (\<lambda>e. type_of e = USABLE) es))) mod 2 ^ 64"
  proof (rule pmm_init_entries_ok)
    show "\<forall>e \<in> set es. type_of e = USABLE \<longrightarrow> entry_ok e \<and> end_page e \<le> sz (pmm_bm ?s0)"
      using ok fits b(2) by (simp add: boot_ok_def memmap_ok_def boot_fits_def)
    show "first_page c + pages_of (add64 (pmm_bm_size l) WM_SIZE) \<le> sz (pmm_bm ?s0)"
      using fits b(2) c(7) by (simp add: boot_fits_def)
  qed (use b(1) c(3) szb in simp_all)
  then obtain fm b1 where e: "pmm_init_entries (pmm_bm_size l) es ?s0 = Inr (?s0\<lparr>pmm_freemem := fm, pmm_bm := b1\<rparr>)"
    and w: "entries_written (pages_of (pmm_bm_size l + WM_SIZE)) c es b b1"
    and fm: "fm = sum_list (map len (filter (\<lambda>e. type_of e = USABLE) es)) mod 2 ^ 64"
    unfolding c(7) by auto
  have b1: "bitmap_wf b1" "sz b1 = sz b" using w by (auto simp: entries_written_def)
  have "0 < sz b" using fits pages_of_pos [of "pmm_bm_size l + WM_SIZE"] b(2)
    by (simp add: boot_fits_def WM_SIZE_eq)
  then obtain b2 where b2: "bitmap_set b1 0 True = Inr b2" "bitmap_wf b2" "sz b2 = sz b"
    "bits b2 = (bits b1)(0 := True)"
    using bitmap_set_ok [OF b1(1), of 0 True] b1(2) by metis
  show thesis
    by (rule that [OF _ b(3,2) szb w b2(2,3,4) refl]) (simp add: init e b2(1) fm)
qed

lemma pmm_init_ok:
  assumes ok: "boot_ok es l c" and fits: "boot_fits es l c"
  obtains s w where "pmm_init ram es = Inr (s, w)" and "pmm_ok s" and "wm_ok w"
    and "w = \<lparr>wm_cursor = HHDM + base c, wm_free = WM_SIZE, wm_mutex = 0\<rparr>"
    and "pmm_buffer s = HHDM + base c + WM_SIZE"
    and "pmm_freemem s = sum_list (map len (filter (\<lambda>e. type_of e = USABLE) es)) mod 2 ^ 64"
    and "\<forall>i. page_free s i \<longrightarrow> usable_page es i \<and> i \<noteq> 0 \<and> \<not> kept_page c (pmm_bm_size l div 8) i"
    and "\<forall>i. usable_page es i \<and> i \<noteq> 0 \<and>
      (i < first_page c \<or> first_page c + pages_of (pmm_bm_size l + WM_SIZE) \<le> i) \<longrightarrow> page_free s i"
proof -
  let ?w = "\<lparr>wm_cursor = HHDM + base c, wm_free = WM_SIZE, wm_mutex = 0\<rparr>"
  note c = boot_okD [OF ok]
  obtain b b1 b2 s where run: "pmm_init ram es = Inr (s, \<lparr>wm_cursor = VIRTUAL (base c), wm_free = WM_SIZE, wm_mutex = 0\<rparr>)"
    and b: "\<forall>i < sz b. bits b i" "sz b = align_down (pmm_bm_size l) 64" "sz b * PMM_PAGESIZE \<le> 2 ^ 45"
    and w: "entries_written (pages_of (pmm_bm_size l + WM_SIZE)) c es b b1"
    and b2: "bitmap_wf b2" "sz b2 = sz b" "bits b2 = (bits b1)(0 := True)"
    and s: "s = \<lparr>pmm_freemem = sum_list (map len (filter (\<lambda>e. type_of e = USABLE) es)) mod 2 ^ 64,
      pmm_usedmem = 0, pmm_reservedmem = 0, pmm_bm = b2,
      pmm_buffer = VIRTUAL (add64 (base c) WM_SIZE), pmm_mutex = 0\<rparr>"
    by (rule pmm_init_run [OF ok fits])
  have free: "\<forall>i. page_free s i \<longrightarrow> usable_page es i \<and> i \<noteq> 0 \<and> \<not> kept_page c (pmm_bm_size l div 8) i"
    using bits_after_entries(1) [OF w b(1)] kept_marked [OF ok w] b2 by (auto simp: s page_free_def)
  have bound: "i < sz b" if "usable_page es i" for i
    using that fits b(2) unfolding usable_page_def boot_fits_def by fastforce
  have "\<forall>i. usable_page es i \<and> i \<noteq> 0 \<and>
      (i < first_page c \<or> first_page c + pages_of (pmm_bm_size l + WM_SIZE) \<le> i) \<longrightarrow> page_free s i"
    using bits_after_entries(2) [OF w b(1)] bound b2(2,3) by (auto simp: s page_free_def)
  moreover have "wm_ok ?w"
    using c(3,5) by (simp add: wm_ok_def entry_ok_def)
  moreover have "pmm_ok s"
    using b2(1,2) b(3) by (simp add: s pmm_ok_def)
  ultimately show thesis
    using that [of s ?w] run free c(6,8,9) by (simp add: s)
qed

lemma reserve_pages_cases:
  assumes "entry_ok c" and "bitmap_wf b" and "n \<le> 2 ^ 62" and "sz b * PMM_PAGESIZE \<le> 2 ^ 64"
  shows "reserve_pages b (base c) n = Inl (Fatal ''set out of bounds'') \<or>
    (\<exists>b'. reserve_pages b (base c) n = Inr b' \<and> bitmap_wf b' \<and> sz b' = sz b)"
proof -
  have base: "base c = first_page c * PMM_PAGESIZE"
    using entry_ok_pages [OF assms(1)] by metis
  have room: "first_page c * PMM_PAGESIZE + n \<le> 2 ^ 63"
    using assms(1,3) base by (simp add: entry_ok_def)
  consider "pages_of n = 0" | "0 < pages_of n" "sz b < first_page c + pages_of n"
    | "first_page c + pages_of n \<le> sz b" by linarith
  then show ?thesis
  proof cases
    case 1
    then have "n = 0" using pages_of_bounds [of n] by simp
    then show ?thesis using assms(2) by (simp add: reserve_pages_def set_pages.simps)
  next
    case 2
    then show ?thesis
      using set_pages_out [OF assms(2) 2(2) room, of 0 True] by (simp add: reserve_pages_def base)
  next
    case 3
    then show ?thesis
      using set_pages_ok [OF assms(2) 3 assms(4), of 0 True] by (auto simp: reserve_pages_def base set_range_def)
  qed
qed

lemma pmm_init_entry_cases:
  assumes "type_of e = USABLE \<longrightarrow> entry_ok e" and "bm_size \<le> 2 ^ 33"
    and "bitmap_wf (pmm_bm s)" and "sz (pmm_bm s) * PMM_PAGESIZE \<le> 2 ^ 64"
  obtains (out) "pmm_init_entry bm_size e s = Inl (Fatal ''set out of bounds'')"
  | (ok) s' where "pmm_init_entry bm_size e s = Inr s'" and "bitmap_wf (pmm_bm s')"
      and "sz (pmm_bm s') = sz (pmm_bm s)"
      and "type_of e = USABLE \<and> first_page e < end_page e \<longrightarrow> end_page e \<le> sz (pmm_bm s)"
proof (cases "type_of e = USABLE")
  case False
  then show thesis using ok [of s] assms(3) by (simp add: pmm_init_entry_def)
next
  case True
  with assms(1) have e: "entry_ok e" by blast
  have n: "add64 bm_size WM_SIZE \<le> 2 ^ 62"
    using assms(2) by (subst add64_small) (simp_all add: WM_SIZE_eq)
  have le: "first_page e \<le> end_page e"
    by (simp add: first_page_def end_page_def div_le_mono)
  show thesis
  proof (cases "sz (pmm_bm s) < end_page e \<and> first_page e < end_page e")
    case True
    then show thesis
      using clear_pages_entry_out [OF e assms(3)] \<open>type_of e = USABLE\<close> out
      by (simp add: pmm_init_entry_def Let_def)
  next
    case False
    have "\<exists>b1. clear_pages (pmm_bm s) (align64 (base e) PMM_PAGESIZE) (align_down (len e) PMM_PAGESIZE) = Inr b1 \<and>
      bitmap_wf b1 \<and> sz b1 = sz (pmm_bm s)"
    proof (cases "end_page e \<le> sz (pmm_bm s)")
      case True
      then show ?thesis
        using clear_pages_entry [OF e assms(3) True assms(4)] by (auto simp: set_range_def)
    next
      case empty: False
      with False le have "len e = 0"
        using entry_ok_pages [OF e] by (metis add_cancel_right_right le_antisym mult_is_0 not_le)
      then show ?thesis
        using assms(3) by (simp add: clear_pages_def align_down_def set_pages.simps)
    qed
    then obtain b1 where b1: "clear_pages (pmm_bm s) (align64 (base e) PMM_PAGESIZE) (align_down (len e) PMM_PAGESIZE) = Inr b1"
      "bitmap_wf b1" "sz b1 = sz (pmm_bm s)" by blast
    then have "sz b1 * PMM_PAGESIZE \<le> 2 ^ 64" using assms(4) by simp
    from reserve_pages_cases [OF e b1(2) n this] show thesis
      using True False b1 out ok
      by (cases "add64 (base e) WM_SIZE = PHYSICAL (pmm_buffer s)")
        (fastforce simp: pmm_init_entry_def Let_def not_less)+
  qed
qed

lemma pmm_init_entries_out:
  assumes "\<forall>e \<in> set es. type_of e = USABLE \<longrightarrow> entry_ok e" and "bm_size \<le> 2 ^ 33"
    and "bitmap_wf (pmm_bm s)" and "sz (pmm_bm s) * PMM_PAGESIZE \<le> 2 ^ 64"
    and "\<exists>e \<in> set es. type_of e = USABLE \<and> first_page e < end_page e \<and> sz (pmm_bm s) < end_page e"
  shows "pmm_init_entries bm_size es s = Inl (Fatal ''set out of bounds'')"
  using assms
proof (induction es arbitrary: s)
  case Nil
  then show ?case by simp
next
  case (Cons e es)
  have "type_of e = USABLE \<longrightarrow> entry_ok e" using Cons.prems(1) by simp
  then show ?case
    using Cons.prems(2-4)
  proof (cases rule: pmm_init_entry_cases)
    case out
    then show ?thesis by simp
  next
    case (ok s')
    then have "\<exists>e \<in> set es. type_of e = USABLE \<and> first_page e < end_page e \<and> sz (pmm_bm s') < end_page e"
      using Cons.prems(5) by auto
    then show ?thesis
      using Cons.IH [of s'] Cons.prems ok by simp
  qed
qed

section \<open>Properties\<close>

text \<open>C7: On a memory map the boot protocol allows and that the bitmap covers, \<^verbatim>\<open>pmm_init\<close> returns. A page is
  then free only if it is usable, is not page 0 and holds neither the watermark region nor the
  bitmap; and every usable page other than page 0 and those of the \<open>bm_size + WM_SIZE\<close> bytes marked
  at the start of the chosen entry is free. The watermark region is the 64 MiB at the start of that
  entry, and the free memory is the sum of the usable lengths.\<close>

theorem pmm_init_spec:
  assumes "boot_ok es l c" and "boot_fits es l c"
  shows "\<exists>s w. pmm_init ram es = Inr (s, w) \<and> pmm_ok s \<and> wm_ok w \<and>
    wm_avail w = {HHDM + base c ..< HHDM + base c + WM_SIZE} \<and>
    pmm_buffer s = HHDM + base c + WM_SIZE \<and>
    pmm_freemem s = sum_list (map len (filter (\<lambda>e. type_of e = USABLE) es)) mod 2 ^ 64 \<and>
    (\<forall>i. page_free s i \<longrightarrow> usable_page es i \<and> i \<noteq> 0 \<and> \<not> kept_page c (pmm_bm_size l div 8) i) \<and>
    (\<forall>i. usable_page es i \<and> i \<noteq> 0 \<and>
       (i < first_page c \<or> first_page c + pages_of (pmm_bm_size l + WM_SIZE) \<le> i) \<longrightarrow> page_free s i)"
proof -
  obtain s w where "pmm_init ram es = Inr (s, w)" "pmm_ok s" "wm_ok w"
    "w = \<lparr>wm_cursor = HHDM + base c, wm_free = WM_SIZE, wm_mutex = 0\<rparr>"
    "pmm_buffer s = HHDM + base c + WM_SIZE"
    "pmm_freemem s = sum_list (map len (filter (\<lambda>e. type_of e = USABLE) es)) mod 2 ^ 64"
    "\<forall>i. page_free s i \<longrightarrow> usable_page es i \<and> i \<noteq> 0 \<and> \<not> kept_page c (pmm_bm_size l div 8) i"
    "\<forall>i. usable_page es i \<and> i \<noteq> 0 \<and>
       (i < first_page c \<or> first_page c + pages_of (pmm_bm_size l + WM_SIZE) \<le> i) \<longrightarrow> page_free s i"
    by (rule pmm_init_ok [OF assms])
  moreover from this(4) have "wm_avail w = {HHDM + base c ..< HHDM + base c + WM_SIZE}"
    by (simp add: wm_avail_def)
  ultimately show ?thesis by blast
qed

text \<open>A machine with 128 MiB from the first megabyte on, and one with a page more.\<close>

definition small_map :: "nat \<Rightarrow> limine_memmap_entry list" where
  "small_map n = [\<lparr>base = 0, len = 0x9f000, type_of = RESERVED\<rparr>,
     \<lparr>base = 0x100000, len = n, type_of = USABLE\<rparr>, \<lparr>base = 0xfffc0000, len = 0x40000, type_of = RESERVED\<rparr>]"

lemmas boot_run_simps = small_map_def boot_ok_def boot_fits_def memmap_ok_def entry_ok_def first_page_def end_page_def
  pmm_last_def pmm_bm_size_def pages_of_def WM_SIZE_eq PMM_PAGESIZE_def align64_def align_down_def
  add64_def sub64_def mul64_def

lemma small_map_ok:
  "boot_ok (small_map 0x8000000) (small_map 0x8000000 ! 1) (small_map 0x8000000 ! 1)"
  "boot_fits (small_map 0x8000000) (small_map 0x8000000 ! 1) (small_map 0x8000000 ! 1)"
  "boot_ok (small_map 0x8001000) (small_map 0x8001000 ! 1) (small_map 0x8001000 ! 1)"
  by (simp_all add: boot_run_simps)

theorem pmm_init_spec_witness:
  "boot_ok (small_map 0x8000000) (small_map 0x8000000 ! 1) (small_map 0x8000000 ! 1) \<and>
   (\<exists>s w. pmm_init (\<lambda>_. 7) (small_map 0x8000000) = Inr (s, w) \<and> pmm_freemem s = 0x8000000 \<and>
     \<not> page_free s 0x200 \<and> page_free s 0x7000)"
proof -
  let ?c = "small_map 0x8000000 ! 1"
  have k: "kept_page ?c (pmm_bm_size ?c div 8) 0x200"
    by (simp add: kept_page_def boot_run_simps)
  have u: "usable_page (small_map 0x8000000) 0x7000 \<and> first_page ?c + pages_of (pmm_bm_size ?c + WM_SIZE) \<le> 0x7000"
    by (simp add: usable_page_def boot_run_simps)
  have m: "sum_list (map len (filter (\<lambda>e. type_of e = USABLE) (small_map 0x8000000))) mod 2 ^ 64 = 0x8000000"
    by (simp add: small_map_def)
  from pmm_init_spec [OF small_map_ok(1,2), of "\<lambda>_. 7"] k u m small_map_ok(1) show ?thesis
    by (metis zero_neq_numeral)
qed

text \<open>The bitmap has no bit for the last pages when their number is not a multiple of 64: if usable
  memory reaches them, \<^verbatim>\<open>pmm_init\<close> stops with an out of bounds write to the bitmap.\<close>

theorem pmm_init_tail_fatal:
  assumes "boot_ok es l c"
    and "e \<in> set es" and "type_of e = USABLE" and "first_page e < end_page e"
    and "align_down (pmm_bm_size l) 64 < end_page e"
  shows "pmm_init ram es = Inl (Fatal ''set out of bounds'')"
proof -
  note c = boot_okD [OF assms(1)]
  obtain b where b: "bitmap_wf b" "sz b = align_down (pmm_bm_size l) 64"
    and init: "pmm_init ram es =
      rbind (pmm_init_entries (pmm_bm_size l) es
        \<lparr>pmm_freemem = 0, pmm_usedmem = 0, pmm_reservedmem = 0, pmm_bm = b,
         pmm_buffer = VIRTUAL (add64 (base c) WM_SIZE), pmm_mutex = 0\<rparr>) (\<lambda>s.
      rbind (bitmap_set (pmm_bm s) 0 True) (\<lambda>b'.
      Inr (s\<lparr>pmm_bm := b'\<rparr>, \<lparr>wm_cursor = VIRTUAL (base c), wm_free = WM_SIZE, wm_mutex = 0\<rparr>)))"
    by (rule pmm_init_unfold [OF assms(1)])
  have "sz b \<le> 2 ^ 33" using b(2) c(4) align_down_le le_trans by metis
  then have "sz b * PMM_PAGESIZE \<le> 2 ^ 64" by (simp add: PMM_PAGESIZE_def)
  moreover have "\<forall>e \<in> set es. type_of e = USABLE \<longrightarrow> entry_ok e"
    using assms(1) by (auto simp: boot_ok_def memmap_ok_def)
  ultimately show ?thesis
    unfolding init using assms(2-5) b c(4) by (subst pmm_init_entries_out) auto
qed

theorem pmm_init_tail_fatal_witness:
  "pmm_init (\<lambda>_. 0) (small_map 0x8001000) = Inl (Fatal ''set out of bounds'')"
  by (rule pmm_init_tail_fatal [OF small_map_ok(3), of "small_map 0x8001000 ! 1"])
    (simp_all add: boot_run_simps)



end
