(* ===== verification/Mem.thy ===== *)
theory Mem
  imports Prelude
begin

text \<open>
  The memory routines of \<^verbatim>\<open>util/mem.cc\<close> on a byte-addressed memory: a loop over the odd bytes and a
  string instruction for the rest. Each is shown equal to the pointwise description that the other
  theories use.
\<close>

type_synonym memory = "nat \<Rightarrow> 8 word"

section \<open>The routines\<close>

primrec fill_bytes :: "memory \<Rightarrow> nat \<Rightarrow> 8 word \<Rightarrow> nat \<Rightarrow> memory" where
  "fill_bytes m d c 0 = m"
| "fill_bytes m d c (Suc n) = fill_bytes (m(d := c)) (d + 1) c n"

text \<open>A little-endian store of eight bytes, and \<^verbatim>\<open>rep stosq\<close>.\<close>

definition store64 :: "memory \<Rightarrow> nat \<Rightarrow> 64 word \<Rightarrow> memory" where
  "store64 m d w = (\<lambda>x. if d \<le> x \<and> x < d + 8 then ucast (drop_bit (8 * (x - d)) w) else m x)"

primrec stosq :: "memory \<Rightarrow> nat \<Rightarrow> 64 word \<Rightarrow> nat \<Rightarrow> memory" where
  "stosq m d w 0 = m"
| "stosq m d w (Suc n) = stosq (store64 m d w) (d + 8) w n"

definition spread64 :: "8 word \<Rightarrow> 64 word" where
  "spread64 c = ucast c OR push_bit 8 (ucast c) OR push_bit 16 (ucast c) OR push_bit 24 (ucast c)
     OR push_bit 32 (ucast c) OR push_bit 40 (ucast c) OR push_bit 48 (ucast c) OR push_bit 56 (ucast c)"

definition memset :: "memory \<Rightarrow> nat \<Rightarrow> 8 word \<Rightarrow> nat \<Rightarrow> memory" where
  "memset m a c count =
     (let toalign = count mod 8;
          m = fill_bytes m a c toalign;
          count = count - count mod 8 in
      if count = 0 then m else stosq m (a + toalign) (spread64 c) (count div 8))"

primrec copy_bytes :: "memory \<Rightarrow> nat \<Rightarrow> nat \<Rightarrow> nat \<Rightarrow> memory" where
  "copy_bytes m d s 0 = m"
| "copy_bytes m d s (Suc n) = copy_bytes (m(d := m s)) (d + 1) (s + 1) n"

text \<open>One round of \<^verbatim>\<open>rep movsq\<close> reads eight bytes and then writes them.\<close>

definition copy64 :: "memory \<Rightarrow> nat \<Rightarrow> nat \<Rightarrow> memory" where
  "copy64 m d s = (\<lambda>x. if d \<le> x \<and> x < d + 8 then m (s + (x - d)) else m x)"

primrec movsq :: "memory \<Rightarrow> nat \<Rightarrow> nat \<Rightarrow> nat \<Rightarrow> memory" where
  "movsq m d s 0 = m"
| "movsq m d s (Suc n) = movsq (copy64 m d s) (d + 8) (s + 8) n"

definition memcpy :: "memory \<Rightarrow> nat \<Rightarrow> nat \<Rightarrow> nat \<Rightarrow> memory" where
  "memcpy m dest src count =
     (let toalign = count mod 8;
          m = copy_bytes m dest src toalign;
          count = count - count mod 8 in
      if count = 0 then m else movsq m (dest + toalign) (src + toalign) (count div 8))"

text \<open>The comparisons run from the last byte to the first and return false on equality.\<close>

primrec memcmp :: "memory \<Rightarrow> nat \<Rightarrow> nat \<Rightarrow> nat \<Rightarrow> bool" where
  "memcmp m a b 0 = False"
| "memcmp m a b (Suc n) = (if m (a + n) \<noteq> m (b + n) then True else memcmp m a b n)"

primrec memchk :: "memory \<Rightarrow> nat \<Rightarrow> 8 word \<Rightarrow> nat \<Rightarrow> bool" where
  "memchk m a c 0 = False"
| "memchk m a c (Suc n) = (if m (a + n) \<noteq> c then True else memchk m a c n)"

section \<open>What they compute\<close>

definition filled :: "memory \<Rightarrow> nat \<Rightarrow> 8 word \<Rightarrow> nat \<Rightarrow> memory" where
  "filled m a c n = (\<lambda>x. if a \<le> x \<and> x < a + n then c else m x)"

definition copied :: "memory \<Rightarrow> nat \<Rightarrow> nat \<Rightarrow> nat \<Rightarrow> memory" where
  "copied m d s n = (\<lambda>x. if d \<le> x \<and> x < d + n then m (s + (x - d)) else m x)"

lemma filled_0 [simp]: "filled m a c 0 = m"
  by (auto simp: filled_def fun_eq_iff)

lemma copied_0 [simp]: "copied m d s 0 = m"
  by (auto simp: copied_def fun_eq_iff)

lemma fill_bytes_eq: "fill_bytes m d c n = filled m d c n"
  by (induction n arbitrary: m d) (auto simp: filled_def fun_eq_iff)

lemma byte_bit_high: "8 \<le> n \<Longrightarrow> \<not> bit (c :: 8 word) n"
  using bit_imp_le_length [of c n] by auto

lemma bit_spread64: "j < 8 \<Longrightarrow> k \<in> {0, 1, 2, 3, 4, 5, 6, 7} \<Longrightarrow> bit (spread64 c) (8 * k + j) = bit c j"
  unfolding spread64_def bit_or_iff bit_push_bit_iff bit_ucast_iff
  by (elim insertE emptyE) (simp_all add: byte_bit_high)

lemma spread64_byte:
  assumes "k < 8"
  shows "ucast (drop_bit (8 * k) (spread64 c)) = c"
proof (rule bit_word_eqI)
  have k: "k \<in> {0, 1, 2, 3, 4, 5, 6, 7}" using assms by auto
  fix j assume "j < LENGTH(8)"
  then show "bit (ucast (drop_bit (8 * k) (spread64 c)) :: 8 word) j = bit c j"
    using bit_spread64 [OF _ k, of j c] by (simp add: bit_ucast_iff bit_drop_bit_eq)
qed

lemma store64_spread: "store64 m d (spread64 c) = filled m d c 8"
  by (auto simp: store64_def filled_def fun_eq_iff spread64_byte)

lemma filled_filled: "filled (filled m a c n) (a + n) c k = filled m a c (n + k)"
  by (auto simp: filled_def fun_eq_iff)

lemma stosq_spread: "stosq m d (spread64 c) n = filled m d c (8 * n)"
  by (induction n arbitrary: m d) (simp_all add: store64_spread filled_filled)

lemma memset_eq: "memset m a c n = filled m a c n"
proof -
  have "n mod 8 + 8 * (n div 8) = n" by simp
  then have "filled (filled m a c (n mod 8)) (a + n mod 8) c (8 * (n div 8)) = filled m a c n"
    by (simp add: filled_filled)
  moreover have "(n - n mod 8) div 8 = n div 8"
    by (simp add: minus_mod_eq_mult_div)
  moreover have "n mod 8 = n" if "n \<le> n mod 8"
    using that by (simp add: le_antisym)
  ultimately show ?thesis
    by (cases "n \<le> n mod 8") (simp_all add: memset_def Let_def fill_bytes_eq stosq_spread)
qed

text \<open>Forward copying is right when the blocks do not overlap and when the destination is below.\<close>

lemma copied_copied:
  assumes "d \<le> s \<or> s + (n + k) \<le> d"
  shows "copied (copied m d s n) (d + n) (s + n) k = copied m d s (n + k)"
proof (rule ext)
  fix x
  show "copied (copied m d s n) (d + n) (s + n) k x = copied m d s (n + k) x"
    using assms by (auto simp: copied_def algebra_simps)
qed

lemma copy_bytes_eq: "d \<le> s \<or> s + n \<le> d \<Longrightarrow> copy_bytes m d s n = copied m d s n"
proof (induction n arbitrary: m d s)
  case 0
  then show ?case by simp
next
  case (Suc n)
  have "m(d := m s) = copied m d s 1"
    by (auto simp: copied_def fun_eq_iff)
  then show ?case
    using Suc.IH [of "d + 1" "s + 1" "m(d := m s)"] Suc.prems copied_copied [of d s 1 n m] by auto
qed

lemma movsq_eq: "d \<le> s \<or> s + 8 * n \<le> d \<Longrightarrow> movsq m d s n = copied m d s (8 * n)"
proof (induction n arbitrary: m d s)
  case 0
  then show ?case by simp
next
  case (Suc n)
  have "copy64 m d s = copied m d s 8"
    by (simp add: copied_def copy64_def)
  then show ?case
    using Suc.IH [of "d + 8" "s + 8" "copy64 m d s"] Suc.prems copied_copied [of d s 8 "8 * n" m] by auto
qed

lemma memcpy_eq:
  assumes "d \<le> s \<or> s + n \<le> d"
  shows "memcpy m d s n = copied m d s n"
proof -
  have n: "n mod 8 + 8 * (n div 8) = n" by simp
  have "copy_bytes m d s (n mod 8) = copied m d s (n mod 8)"
    using assms n by (intro copy_bytes_eq) linarith
  moreover have "movsq m' (d + n mod 8) (s + n mod 8) (n div 8) = copied m' (d + n mod 8) (s + n mod 8) (8 * (n div 8))" for m'
    using assms n by (intro movsq_eq) linarith
  moreover have "copied (copied m d s (n mod 8)) (d + n mod 8) (s + n mod 8) (8 * (n div 8)) = copied m d s n"
    using assms copied_copied [of d s "n mod 8" "8 * (n div 8)" m] by simp
  moreover have "(n - n mod 8) div 8 = n div 8"
    by (simp add: minus_mod_eq_mult_div)
  moreover have "n mod 8 = n" if "n \<le> n mod 8"
    using that by (simp add: le_antisym)
  ultimately show ?thesis
    by (cases "n \<le> n mod 8") (simp_all add: memcpy_def Let_def)
qed

lemma memchk_iff: "memchk m a c n \<longleftrightarrow> (\<exists>k < n. m (a + k) \<noteq> c)"
  by (induction n) (auto simp: less_Suc_eq)

lemma memcmp_iff: "memcmp m a b n \<longleftrightarrow> (\<exists>k < n. m (a + k) \<noteq> m (b + k))"
  by (induction n) (auto simp: less_Suc_eq)

section \<open>Properties\<close>

text \<open>C13: \<^verbatim>\<open>memset\<close> sets exactly the bytes of its range, and after it \<^verbatim>\<open>memchk\<close> accepts the range; \<^verbatim>\<open>memcpy\<close> moves
  exactly the bytes of its range when source and destination do not overlap or the destination is
  the lower one, and after a copy between disjoint blocks \<^verbatim>\<open>memcmp\<close> finds them equal.\<close>

theorem mem_routines_spec:
  "memset m a c n = (\<lambda>x. if a \<le> x \<and> x < a + n then c else m x) \<and> \<not> memchk (memset m a c n) a c n \<and>
   (d \<le> s \<or> s + n \<le> d \<longrightarrow>
     memcpy m d s n = (\<lambda>x. if d \<le> x \<and> x < d + n then m (s + (x - d)) else m x)) \<and>
   (d + n \<le> s \<or> s + n \<le> d \<longrightarrow> \<not> memcmp (memcpy m d s n) d s n)"
proof (intro conjI impI)
  show "memset m a c n = (\<lambda>x. if a \<le> x \<and> x < a + n then c else m x)"
    by (simp add: memset_eq filled_def)
  show "\<not> memchk (memset m a c n) a c n"
    by (simp add: memset_eq filled_def memchk_iff)
  show "memcpy m d s n = (\<lambda>x. if d \<le> x \<and> x < d + n then m (s + (x - d)) else m x)"
    if "d \<le> s \<or> s + n \<le> d"
    using that by (simp add: memcpy_eq copied_def)
  show "\<not> memcmp (memcpy m d s n) d s n" if "d + n \<le> s \<or> s + n \<le> d"
  proof -
    have "memcpy m d s n = copied m d s n" using that by (intro memcpy_eq) linarith
    then show ?thesis using that by (auto simp: memcmp_iff copied_def)
  qed
qed

theorem mem_routines_spec_witness:
  "memcpy (\<lambda>x. of_nat x) 100 50 20 107 = 57 \<and>
   \<not> memcmp (memcpy (\<lambda>x. of_nat x) 100 50 20) 100 50 20"
proof -
  have le: "(50::nat) + 20 \<le> 100" by simp
  note r = mem_routines_spec [of "\<lambda>x. of_nat x" 0 0 20 100 50]
  from r le have "memcpy (\<lambda>x. of_nat x) 100 50 20 =
    (\<lambda>x. if 100 \<le> x \<and> x < 100 + 20 then of_nat (50 + (x - 100)) else of_nat x)"
    by blast
  then have "memcpy (\<lambda>x. of_nat x) 100 50 20 107 = 57"
    by (simp only: refl) simp
  moreover from r le have "\<not> memcmp (memcpy (\<lambda>x. of_nat x) 100 50 20) 100 50 20"
    by blast
  ultimately show ?thesis by blast
qed

end
