(* ===== verification/DList.thy ===== *)
theory DList
  imports Prelude
begin

text \<open>
  Doubly linked lists in a store of numbered nodes, the shape behind the heap's block list and the
  container \<^verbatim>\<open>LinkedList\<close>. \<open>chain L p xs q\<close> says that the nodes \<open>xs\<close> are linked in this order in both
  directions, that the first one's predecessor is \<open>p\<close> and the last one's successor is \<open>q\<close>. A kind of
  node extends the record with its own fields.
\<close>

record node =
  nxt :: "nat option"
  prv :: "nat option"

definition first_of :: "nat list \<Rightarrow> nat option \<Rightarrow> nat option" where
  "first_of xs q = (case xs of [] \<Rightarrow> q | x # _ \<Rightarrow> Some x)"

definition last_of :: "nat option \<Rightarrow> nat list \<Rightarrow> nat option" where
  "last_of p xs = (if xs = [] then p else Some (last xs))"

primrec chain :: "(nat \<Rightarrow> 'a node_scheme) \<Rightarrow> nat option \<Rightarrow> nat list \<Rightarrow> nat option \<Rightarrow> bool" where
  "chain L p [] q \<longleftrightarrow> True"
| "chain L p (x # xs) q \<longleftrightarrow> prv (L x) = p \<and> nxt (L x) = first_of xs q \<and> chain L (Some x) xs q"

lemma first_of_simps [simp]:
  "first_of [] q = q" "first_of (x # xs) q = Some x"
  by (simp_all add: first_of_def)

lemma first_of_append [simp]: "first_of (xs @ ys) q = first_of xs (first_of ys q)"
  by (cases xs) simp_all

lemma last_of_simps [simp]:
  "last_of p [] = p" "last_of p (x # xs) = last_of (Some x) xs"
  by (simp_all add: last_of_def)

lemma last_of_append [simp]: "last_of p (xs @ ys) = last_of (last_of p xs) ys"
  by (induction xs arbitrary: p) simp_all

lemma first_of_eq_None [simp]: "first_of xs None = None \<longleftrightarrow> xs = []"
  by (cases xs) simp_all

lemma last_of_eq_None [simp]: "last_of None xs = None \<longleftrightarrow> xs = []"
  by (simp add: last_of_def)

lemma first_of_eq_Some: "first_of xs None = Some x \<longleftrightarrow> (\<exists>ys. xs = x # ys)"
  by (cases xs) auto

lemma last_of_eq_Some: "last_of None xs = Some x \<longleftrightarrow> (\<exists>ys. xs = ys @ [x])"
  by (auto simp: last_of_def) (metis append_butlast_last_id)

lemma chain_append [simp]:
  "chain L p (xs @ ys) q \<longleftrightarrow> chain L p xs (first_of ys q) \<and> chain L (last_of p xs) ys q"
  by (induction xs arbitrary: p) auto

lemma chain_upd_other [simp]: "k \<notin> set xs \<Longrightarrow> chain (L(k := v)) p xs q = chain L p xs q"
  by (induction xs arbitrary: p) auto

lemma chain_cong:
  "(\<And>x. x \<in> set xs \<Longrightarrow> nxt (L x) = nxt (M x) \<and> prv (L x) = prv (M x)) \<Longrightarrow> chain L p xs q = chain M p xs q"
  by (induction xs arbitrary: p) auto

text \<open>Writing fields other than the two links changes no chain.\<close>

lemma chain_upd_same:
  "nxt v = nxt (L k) \<Longrightarrow> prv v = prv (L k) \<Longrightarrow> chain (L(k := v)) p xs q = chain L p xs q"
  by (rule chain_cong) simp

lemma chain_unique:
  "chain L p xs None \<Longrightarrow> chain L p ys None \<Longrightarrow> first_of xs None = first_of ys None \<Longrightarrow> xs = ys"
proof (induction xs arbitrary: p ys)
  case Nil
  then show ?case by (cases ys) simp_all
next
  case (Cons x xs)
  then obtain ys' where "ys = x # ys'" by (cases ys) auto
  with Cons show ?case by auto
qed

lemma chain_upd_last_nxt:
  "chain L p (xs @ [x]) q \<Longrightarrow> x \<notin> set xs \<Longrightarrow> prv v = prv (L x) \<Longrightarrow> nxt v = q' \<Longrightarrow>
   chain (L(x := v)) p (xs @ [x]) q'"
  by simp

lemma chain_last_nxt: "chain L p (xs @ [x]) q \<Longrightarrow> nxt (L x) = q"
  by simp

lemma chain_ends:
  assumes "chain L p xs q" "xs \<noteq> []"
  shows "prv (L (hd xs)) = p" "nxt (L (last xs)) = q"
proof -
  show "prv (L (hd xs)) = p" using assms by (cases xs) simp_all
  show "nxt (L (last xs)) = q" using assms by (cases xs rule: rev_cases) simp_all
qed

lemma chain_nxt_nth:
  "chain L p xs q \<Longrightarrow> i < length xs \<Longrightarrow> nxt (L (xs ! i)) = (if Suc i < length xs then Some (xs ! Suc i) else q)"
proof (induction xs arbitrary: p i)
  case (Cons x xs)
  then show ?case by (cases i; cases xs) auto
qed simp

text \<open>Relinking both ends of a chain.\<close>

lemma chain_relink:
  "chain L p xs q \<Longrightarrow> xs \<noteq> [] \<Longrightarrow> distinct xs \<Longrightarrow>
   (\<And>x. x \<in> set xs \<Longrightarrow> nxt (L' x) = (if x = last xs then q' else nxt (L x))) \<Longrightarrow>
   (\<And>x. x \<in> set xs \<Longrightarrow> prv (L' x) = (if x = hd xs then p' else prv (L x))) \<Longrightarrow> chain L' p' xs q'"
proof (induction xs arbitrary: p p')
  case (Cons x xs)
  show ?case
  proof (cases "xs = []")
    case True
    then show ?thesis using Cons.prems(4,5) [of x] by simp
  next
    case False
    then obtain y ys where xs: "xs = y # ys" by (cases xs) auto
    have "chain L' (Some x) xs q'"
    proof (rule Cons.IH [of "Some x"])
      show "chain L (Some x) xs q" "xs \<noteq> []" "distinct xs" using Cons.prems False by simp_all
      fix z
      assume z: "z \<in> set xs"
      then have "z \<noteq> x" using Cons.prems(3) by auto
      with z Cons.prems(1) Cons.prems(4,5) [of z] False xs
      show "nxt (L' z) = (if z = last xs then q' else nxt (L z))" "prv (L' z) = (if z = hd xs then Some x else prv (L z))"
        by auto
    qed
    moreover have "x \<noteq> last xs" using Cons.prems(3) False by auto
    ultimately show ?thesis using Cons.prems(1) Cons.prems(4,5) [of x] False xs by simp
  qed
qed simp

section \<open>Walking the list\<close>

text \<open>
  The loops that follow \<^verbatim>\<open>next\<close> while summing lengths, until a test on the node and the address holds.
  A list of nodes from an array of \<open>n\<close> ends within \<open>n\<close> steps or runs in a circle, so fuel above \<open>n\<close>
  loses nothing.
\<close>

fun walk :: "(nat \<Rightarrow> 'a node_scheme) \<Rightarrow> (nat \<Rightarrow> nat) \<Rightarrow> (nat \<Rightarrow> nat \<Rightarrow> bool) \<Rightarrow> nat \<Rightarrow> nat option \<Rightarrow> nat \<Rightarrow>
  (nat option \<times> nat) res" where
  "walk L w P 0 i a = Inl Hang"
| "walk L w P (Suc fuel) None a = Inr (None, a)"
| "walk L w P (Suc fuel) (Some i) a =
     (if P i a then Inr (Some i, a) else walk L w P fuel (nxt (L i)) (add64 a (w i)))"

primrec walk_list :: "(nat \<Rightarrow> nat) \<Rightarrow> (nat \<Rightarrow> nat \<Rightarrow> bool) \<Rightarrow> nat list \<Rightarrow> nat \<Rightarrow> nat option \<times> nat" where
  "walk_list w P [] a = (None, a)"
| "walk_list w P (i # is') a = (if P i a then (Some i, a) else walk_list w P is' (add64 a (w i)))"

lemma walk_chain:
  "chain L p xs None \<Longrightarrow> length xs < fuel \<Longrightarrow> walk L w P fuel (first_of xs None) a = Inr (walk_list w P xs a)"
proof (induction xs arbitrary: p fuel a)
  case Nil
  then show ?case by (cases fuel) simp_all
next
  case (Cons x xs)
  then obtain k where "fuel = Suc k" "length xs < k" by (cases fuel) auto
  with Cons.IH [of "Some x" k "add64 a (w x)"] Cons.prems(1) show ?case by simp
qed

definition offset :: "(nat \<Rightarrow> nat) \<Rightarrow> nat list \<Rightarrow> nat" where
  "offset w xs = sum_list (map w xs)"

lemma offset_simps [simp]:
  "offset w [] = 0" "offset w (x # xs) = w x + offset w xs" "offset w (xs @ ys) = offset w xs + offset w ys"
  by (simp_all add: offset_def)

lemma offset_cong: "(\<And>x. x \<in> set xs \<Longrightarrow> v x = w x) \<Longrightarrow> offset v xs = offset w xs"
  by (simp add: offset_def cong: map_cong)

lemma offset_mono: "x \<in> set xs \<Longrightarrow> w x \<le> offset w xs"
  by (simp add: offset_def member_le_sum_list)

lemma walk_list_None:
  assumes "walk_list w P xs a = (None, b)" and "a + offset w xs < 2 ^ 64"
  shows "b = a + offset w xs \<and> (\<forall>ys x zs. xs = ys @ x # zs \<longrightarrow> \<not> P x (a + offset w ys))"
  using assms
proof (induction xs arbitrary: a)
  case Nil
  then show ?case by simp
next
  case (Cons u us)
  have add: "add64 a (w u) = a + w u"
    using Cons.prems(2) by (intro add64_small) simp
  have "\<not> P u a" and "walk_list w P us (a + w u) = (None, b)"
    using Cons.prems(1) add by (auto split: if_splits)
  moreover have ih: "b = a + w u + offset w us \<and> (\<forall>ys x zs. us = ys @ x # zs \<longrightarrow> \<not> P x (a + w u + offset w ys))"
    using Cons.IH [OF calculation(2)] Cons.prems(2) by simp
  ultimately have "\<not> P x (a + offset w ys)" if "u # us = ys @ x # zs" for ys x zs
    using that by (cases ys) (auto simp: add.assoc)
  with ih show ?case by simp
qed

lemma walk_list_Some:
  assumes "walk_list w P xs a = (Some i, b)" and "a + offset w xs < 2 ^ 64"
  obtains ys zs where "xs = ys @ i # zs" and "b = a + offset w ys" and "P i b"
    and "\<And>us x vs. ys = us @ x # vs \<Longrightarrow> \<not> P x (a + offset w us)"
  using assms
proof (induction xs arbitrary: a thesis)
  case Nil
  then show ?case by simp
next
  case (Cons u us)
  have add: "add64 a (w u) = a + w u"
    using Cons.prems(3) by (intro add64_small) simp
  show ?case
  proof (cases "P u a")
    case True
    with Cons.prems(1) [of "[]" us] Cons.prems(2) show ?thesis by simp
  next
    case False
    then have "walk_list w P us (a + w u) = (Some i, b)" "a + w u + offset w us < 2 ^ 64"
      using Cons.prems(2,3) add by simp_all
    from Cons.IH [OF _ this] obtain ys zs where r: "us = ys @ i # zs" "b = a + w u + offset w ys" "P i b"
      "\<And>us x vs. ys = us @ x # vs \<Longrightarrow> \<not> P x (a + w u + offset w us)"
      by blast
    have n: "\<not> P x (a + offset w vs)" if "u # ys = vs @ x # ws" for vs x ws
      using that r(4) [of "tl vs" x ws] False by (cases vs) (auto simp: add.assoc)
    show ?thesis
      by (rule Cons.prems(1) [of "u # ys" zs]) (use r n in auto)
  qed
qed

text \<open>A walk whose test is met at a known place and nowhere before stops there.\<close>

lemma walk_list_stop:
  assumes "a + offset w (ys @ x # zs) < 2 ^ 64" and "P x (a + offset w ys)"
    and "\<And>us u vs. ys = us @ u # vs \<Longrightarrow> \<not> P u (a + offset w us)"
  shows "walk_list w P (ys @ x # zs) a = (Some x, a + offset w ys)"
  using assms
proof (induction ys arbitrary: a)
  case Nil
  then show ?case by simp
next
  case (Cons y ys)
  have "add64 a (w y) = a + w y"
    using Cons.prems(1) by (intro add64_small) simp
  moreover have "\<not> P y a"
    using Cons.prems(3) [of "[]" y ys] by simp
  moreover have "\<not> P u (a + w y + offset w us)" if "ys = us @ u # vs" for us u vs
    using Cons.prems(3) [of "y # us" u vs] that by (simp add: add.assoc)
  ultimately show ?case
    using Cons.IH [of "a + w y"] Cons.prems(1,2) by (simp add: add.assoc)
qed

end
