(* ===== verification/MemMgr.thy ===== *)
theory MemMgr
  imports Pmm Mem DList
begin

text \<open>
  The kernel heap, \<^verbatim>\<open>MemoryMgr\<close> of \<^verbatim>\<open>util/mm.cc\<close> (built with \<^verbatim>\<open>VMM_DEBUG\<close>), and \<^verbatim>\<open>vmm_init\<close>. The heap
  is an address range cut into blocks; the blocks are a doubly linked list of \<^verbatim>\<open>link_t\<close> taken from an
  array whose used slots a bitmap records. An allocation is the first free block that is large
  enough, framed by two red zones.
\<close>

section \<open>State\<close>

record link = node +
  lfile :: "string option"
  lline :: nat
  llen :: nat
  free :: bool

text \<open>A \<^verbatim>\<open>link_t*\<close> is an index into \<^verbatim>\<open>links\<close> or null. \<open>ram\<close> is the memory behind the heap.\<close>

record memmgr =
  links :: "nat \<Rightarrow> link"
  first :: "nat option"
  bm :: bitmap
  capacity :: nat
  usedmem :: nat
  freemem :: nat
  heap_base :: nat
  mtx :: int
  ram :: memory

definition VMM_MIN_ALLOC :: nat where
  "VMM_MIN_ALLOC = 16"

definition VMM_REDZONE_SIZE :: nat where
  "VMM_REDZONE_SIZE = 64"

definition VMM_REDZONE_MAGIC :: "8 word" where
  "VMM_REDZONE_MAGIC = 0xbc"

definition VMM_HEAP_BASE :: nat where
  "VMM_HEAP_BASE = 0xffff900000000000"

definition sizeof_link_t :: nat where
  "sizeof_link_t = 48"

definition set_link :: "memmgr \<Rightarrow> nat \<Rightarrow> (link \<Rightarrow> link) \<Rightarrow> memmgr" where
  "set_link s i f = s\<lparr>links := (links s)(i := f (links s i))\<rparr>"

definition link_walk :: "memmgr \<Rightarrow> (nat \<Rightarrow> nat \<Rightarrow> bool) \<Rightarrow> (nat option \<times> nat) res" where
  "link_walk s P = walk (links s) (\<lambda>i. llen (links s i)) P (Suc (capacity s)) (first s) (heap_base s)"

section \<open>Operations\<close>

definition null_link :: link where
  "null_link = \<lparr>nxt = None, prv = None, lfile = None, lline = 0, llen = 0, free = False\<rparr>"

text \<open>The constructor takes two pages. \<open>words\<close> is what the second one, the bitmap's, held before.\<close>

definition MemoryMgr :: "(nat \<Rightarrow> 64 word) \<Rightarrow> memory \<Rightarrow> pmm \<Rightarrow> nat \<Rightarrow> nat \<Rightarrow> (memmgr \<times> pmm) res" where
  "MemoryMgr words mem pm heap bytes =
     (let cap = PMM_PAGESIZE div sizeof_link_t in
      rbind (pmm_alloc pm PMM_PAGESIZE) (\<lambda>(_, pm).
      rbind (pmm_alloc pm PMM_PAGESIZE) (\<lambda>(_, pm).
      rbind (bitmap_init (map words [0 ..< PMM_PAGESIZE div 8]) cap False) (\<lambda>b.
      rbind (bitmap_set b 0 True) (\<lambda>b.
      Inr (\<lparr>links = (\<lambda>_. null_link)(0 := \<lparr>nxt = None, prv = None, lfile = Some ''util/mm.cc'', lline = 21,
              llen = bytes, free = True\<rparr>),
            first = Some 0, bm = b, capacity = cap, usedmem = 0, freemem = bytes, heap_base = heap,
            mtx = 0, ram = mem\<rparr>, pm))))))"

definition vmm_init :: "(nat \<Rightarrow> 64 word) \<Rightarrow> memory \<Rightarrow> pmm \<Rightarrow> (memmgr \<times> pmm) res" where
  "vmm_init words mem pm = MemoryMgr words mem pm VMM_HEAP_BASE (pmm_freemem pm)"

fun count_links :: "(nat \<Rightarrow> link) \<Rightarrow> nat \<Rightarrow> nat option \<Rightarrow> nat \<Rightarrow> nat res" where
  "count_links L 0 l ret = Inl Hang"
| "count_links L (Suc fuel) None ret = Inr ret"
| "count_links L (Suc fuel) (Some l) ret = count_links L fuel (nxt (L l)) (trunc32 (ret + 1))"

definition count_allocs :: "memmgr \<Rightarrow> nat res" where
  "count_allocs s = count_links (links s) (Suc (capacity s)) (first s) 0"

definition delete_link :: "memmgr \<Rightarrow> nat \<Rightarrow> memmgr res" where
  "delete_link s l =
     (let s = (if prv (links s l) = None then s\<lparr>first := nxt (links s l)\<rparr> else s) in
      rbind (bitmap_set (bm s) l False) (\<lambda>b.
      Inr (set_link (s\<lparr>bm := b\<rparr>) l (\<lambda>k. k\<lparr>nxt := None, prv := None, lfile := None, lline := 0\<rparr>))))"

definition create_link :: "memmgr \<Rightarrow> (nat \<times> memmgr) res" where
  "create_link s =
     rbind (find_and_set (bm s) 0) (\<lambda>(idx, b).
     if idx = NPOS then Inl (Fatal ''Kifogyott a vmm bitmap!'')
     else Inr (idx, set_link (s\<lparr>bm := b\<rparr>) idx (\<lambda>k. k\<lparr>lfile := None, lline := 0\<rparr>)))"

text \<open>The two halves of \<^verbatim>\<open>merge\<close>: with the following block, then with the preceding one.\<close>

definition merge_next :: "memmgr \<Rightarrow> nat \<Rightarrow> memmgr res" where
  "merge_next s l =
     (case nxt (links s l) of
        None \<Rightarrow> Inr s
      | Some old \<Rightarrow>
          if free (links s l) \<and> free (links s old) then
            let s = set_link s l (\<lambda>k. k\<lparr>llen := add64 (llen k) (llen (links s old))\<rparr>);
                s = (case nxt (links s old) of
                       None \<Rightarrow> s
                     | Some j \<Rightarrow> set_link s j (\<lambda>k. k\<lparr>prv := Some l\<rparr>));
                s = set_link s l (\<lambda>k. k\<lparr>nxt := nxt (links s old)\<rparr>)
            in delete_link s old
          else Inr s)"

definition merge_prev :: "memmgr \<Rightarrow> nat \<Rightarrow> memmgr res" where
  "merge_prev s l =
     (case prv (links s l) of
        None \<Rightarrow> Inr s
      | Some p \<Rightarrow>
          if free (links s l) \<and> free (links s p) then
            let s = set_link s p (\<lambda>k. k\<lparr>llen := add64 (llen k) (llen (links s l))\<rparr>);
                s = (case nxt (links s l) of
                       None \<Rightarrow> s
                     | Some j \<Rightarrow> set_link s j (\<lambda>k. k\<lparr>prv := prv (links s l)\<rparr>));
                s = set_link s p (\<lambda>k. k\<lparr>nxt := nxt (links s l)\<rparr>)
            in delete_link s l
          else Inr s)"

definition merge :: "memmgr \<Rightarrow> nat \<Rightarrow> memmgr res" where
  "merge s l = rbind (merge_next s l) (\<lambda>s. merge_prev s l)"

definition allocate_into_free :: "memmgr \<Rightarrow> nat \<Rightarrow> nat \<Rightarrow> nat \<Rightarrow> (nat \<times> memmgr) res" where
  "allocate_into_free s current n additional =
     (if \<not> free (links s current) then Inl (Fatal ''current->free'')
      else
        let s = set_link s current (\<lambda>k. k\<lparr>free := False\<rparr>); len = llen (links s current) in
        if len < n then Inl (Fatal ''current->length >= size'')
        else if sub64 len n < additional then Inl (Fatal ''current->length - size >= additional'')
        else
          let rem = sub64 (sub64 len n) additional in
          if rem \<noteq> 0 then
            rbind (create_link s) (\<lambda>(new, s).
            let s = set_link s current (\<lambda>k. k\<lparr>llen := n\<rparr>);
                s = set_link s new (\<lambda>k. k\<lparr>nxt := nxt (links s current), prv := Some current,
                                          llen := rem, free := True\<rparr>);
                s = (case nxt (links s current) of
                       None \<Rightarrow> s
                     | Some j \<Rightarrow> set_link s j (\<lambda>k. k\<lparr>prv := Some new\<rparr>));
                s = set_link s current (\<lambda>k. k\<lparr>nxt := Some new\<rparr>)
            in Inr (new, s))
          else Inr (current, s))"

text \<open>The end of both allocation routines: accounting, the two red zones, and the address behind the
  first of them.\<close>

definition finish_alloc :: "memmgr \<Rightarrow> nat \<Rightarrow> nat \<Rightarrow> nat \<times> memmgr" where
  "finish_alloc s address n =
     (add64 address VMM_REDZONE_SIZE,
      s\<lparr>usedmem := add64 (usedmem s) n, freemem := sub64 (freemem s) n,
        ram := memset (memset (ram s) address VMM_REDZONE_MAGIC VMM_REDZONE_SIZE)
                 (sub64 (add64 address n) VMM_REDZONE_SIZE) VMM_REDZONE_MAGIC VMM_REDZONE_SIZE\<rparr>)"

definition alloc_nomutex :: "memmgr \<Rightarrow> nat \<Rightarrow> string \<Rightarrow> nat \<Rightarrow> (nat \<times> memmgr) res" where
  "alloc_nomutex s bytes fname lno =
     (if bytes = 0 then Inr (0, s)
      else
        let n = add64 (align64 bytes VMM_MIN_ALLOC) (VMM_REDZONE_SIZE * 2) in
        rbind (link_walk s (\<lambda>i _. free (links s i) \<and> n \<le> llen (links s i))) (\<lambda>(l, address).
        case l of
          None \<Rightarrow> Inl Undefined
        | Some l \<Rightarrow>
            rbind (allocate_into_free s l n 0) (\<lambda>(_, s).
            let s = set_link s l (\<lambda>k. k\<lparr>lfile := Some fname, lline := lno\<rparr>)
            in Inr (finish_alloc s address n))))"

text \<open>\<open>locked s f\<close> runs \<open>f\<close> under \<^verbatim>\<open>LockguardSimple g(m)\<close>.\<close>

definition locked :: "memmgr \<Rightarrow> (memmgr \<Rightarrow> ('a \<times> memmgr) res) \<Rightarrow> ('a \<times> memmgr) res" where
  "locked s f =
     rbind (mutex_lock (mtx s)) (\<lambda>l.
     rbind (f (s\<lparr>mtx := l\<rparr>)) (\<lambda>(x, s). Inr (x, s\<lparr>mtx := mutex_unlock (mtx s)\<rparr>)))"

definition alloc :: "memmgr \<Rightarrow> nat \<Rightarrow> string \<Rightarrow> nat \<Rightarrow> (nat \<times> memmgr) res" where
  "alloc s bytes fname lno = locked s (\<lambda>s. alloc_nomutex s bytes fname lno)"

text \<open>
  In \<^verbatim>\<open>alloc_aligned\<close> the loop stops at a free block that is long enough and either starts aligned or
  is still long enough after the part before the next aligned address is cut off. A zero alignment
  divides by zero and a zero correction fails an assertion: both also stop the loop.
\<close>

definition alignfix :: "nat \<Rightarrow> nat \<Rightarrow> nat" where
  "alignfix address al =
     sub64 (align64 (add64 address VMM_REDZONE_SIZE) al) (add64 address VMM_REDZONE_SIZE)"

definition fits_aligned :: "memmgr \<Rightarrow> nat \<Rightarrow> nat \<Rightarrow> nat \<Rightarrow> nat \<Rightarrow> bool" where
  "fits_aligned s n al i address \<longleftrightarrow>
     free (links s i) \<and> n \<le> llen (links s i) \<and>
     (al = 0 \<or> isaligned (add64 address VMM_REDZONE_SIZE) al \<or>
      n < llen (links s i) \<and> (alignfix address al = 0 \<or> add64 n (alignfix address al) \<le> llen (links s i)))"

text \<open>The case of a block \<open>l\<close> that does not start aligned: it becomes up to three blocks, the free part
  cut off before it, the allocation, and the free remainder.\<close>

definition split_remaining :: "memmgr \<Rightarrow> nat \<Rightarrow> nat \<Rightarrow> string \<Rightarrow> nat \<Rightarrow> memmgr res" where
  "split_remaining s l n fname lno =
     (let remaining = sub64 (llen (links s l)) n in
      if 2 ^ 63 \<le> remaining then Inl (Fatal ''remaining >= 0ll'')
      else
        let s = set_link s l (\<lambda>k. k\<lparr>llen := sub64 (llen k) remaining, free := False,
                                    lfile := Some fname, lline := lno\<rparr>) in
        if remaining \<noteq> 0 then
          rbind (create_link s) (\<lambda>(r, s).
          let s = set_link s r (\<lambda>k. k\<lparr>lfile := Some ''util/mm.cc'', lline := 260, free := True, llen := remaining\<rparr>) in
          if \<not> isaligned remaining 16 then Inl (Fatal ''isaligned(remainingl->length, 16)'')
          else
            let s = (case nxt (links s l) of
                       None \<Rightarrow> s
                     | Some j \<Rightarrow> set_link s j (\<lambda>k. k\<lparr>prv := Some r\<rparr>));
                s = set_link s r (\<lambda>k. k\<lparr>nxt := nxt (links s l)\<rparr>);
                s = set_link s l (\<lambda>k. k\<lparr>nxt := Some r\<rparr>)
            in Inr (set_link s r (\<lambda>k. k\<lparr>prv := Some l\<rparr>)))
        else Inr s)"

definition split_aligned :: "memmgr \<Rightarrow> nat \<Rightarrow> nat \<Rightarrow> nat \<Rightarrow> string \<Rightarrow> nat \<Rightarrow> memmgr res" where
  "split_aligned s l n gap fname lno =
     rbind (create_link s) (\<lambda>(a, s).
     let s = set_link s a (\<lambda>k. k\<lparr>free := True, llen := gap\<rparr>);
         s = set_link s l (\<lambda>k. k\<lparr>llen := sub64 (llen k) gap\<rparr>) in
     if \<not> isaligned gap VMM_MIN_ALLOC then Inl (Fatal ''isaligned(alignfixl->length, VMM_MIN_ALLOC)'')
     else
       let s = set_link s a (\<lambda>k. k\<lparr>lfile := Some fname, lline := lno\<rparr>);
           s = (case prv (links s l) of
                  None \<Rightarrow> s
                | Some j \<Rightarrow> set_link s j (\<lambda>k. k\<lparr>nxt := Some a\<rparr>));
           s = set_link s a (\<lambda>k. k\<lparr>prv := prv (links s l), nxt := Some l\<rparr>);
           s = set_link s l (\<lambda>k. k\<lparr>prv := Some a\<rparr>);
           s = (if first s = Some l then s\<lparr>first := Some a\<rparr> else s)
       in split_remaining s l n fname lno)"

text \<open>When no block fits, the loop ends and the routine goes on with the address behind the heap.\<close>

definition alloc_aligned :: "memmgr \<Rightarrow> nat \<Rightarrow> nat \<Rightarrow> string \<Rightarrow> nat \<Rightarrow> (nat \<times> memmgr) res" where
  "alloc_aligned s bytes al fname lno =
     locked s (\<lambda>s.
       let n = add64 (align64 bytes VMM_MIN_ALLOC) (VMM_REDZONE_SIZE * 2);
           al = trunc32 (align64 al VMM_MIN_ALLOC) in
       rbind (link_walk s (fits_aligned s n al)) (\<lambda>(l, address).
       case l of
         None \<Rightarrow> Inr (finish_alloc s address n)
       | Some l \<Rightarrow>
           if al = 0 then Inl Undefined
           else if isaligned (add64 address VMM_REDZONE_SIZE) al then
             rbind (allocate_into_free s l n 0) (\<lambda>(_, s).
             Inr (finish_alloc (set_link s l (\<lambda>k. k\<lparr>lfile := Some fname, lline := lno\<rparr>)) address n))
           else if alignfix address al = 0 then Inl (Fatal ''alignfix'')
           else
             rbind (split_aligned s l n (alignfix address al) fname lno) (\<lambda>s.
             Inr (finish_alloc s (add64 address (alignfix address al)) n))))"

text \<open>The end of \<^verbatim>\<open>try_realloc\<close> at the label \<^verbatim>\<open>allocd\<close>: the block is labelled and its second red zone written.\<close>

definition realloc_done :: "memmgr \<Rightarrow> nat \<Rightarrow> nat \<Rightarrow> string \<Rightarrow> nat \<Rightarrow> bool \<times> memmgr" where
  "realloc_done s i ptr fname lno =
     (let s = set_link s i (\<lambda>k. k\<lparr>lfile := Some fname, lline := lno\<rparr>) in
      (True, s\<lparr>ram := memset (ram s) (sub64 (add64 ptr (llen (links s i))) VMM_REDZONE_SIZE)
                        VMM_REDZONE_MAGIC VMM_REDZONE_SIZE\<rparr>))"

definition realloc_at :: "memmgr \<Rightarrow> nat \<Rightarrow> nat \<Rightarrow> nat \<Rightarrow> string \<Rightarrow> nat \<Rightarrow> (bool \<times> memmgr) res" where
  "realloc_at s i ptr new fname lno =
     (let old = llen (links s i); more = sub64 new old in
      if new \<le> old then Inr (realloc_done s i ptr fname lno)
      else case nxt (links s i) of
        None \<Rightarrow> Inr (False, s)
      | Some j \<Rightarrow>
          if \<not> free (links s j) then Inr (False, s)
          else if llen (links s j) = more then
            let s = set_link s j (\<lambda>k. k\<lparr>llen := sub64 (llen k) more\<rparr>);
                s = set_link s i (\<lambda>k. k\<lparr>llen := add64 (llen k) more\<rparr>);
                s = s\<lparr>usedmem := add64 (usedmem s) more, freemem := sub64 (freemem s) more\<rparr>;
                s = set_link s i (\<lambda>k. k\<lparr>nxt := nxt (links s j)\<rparr>);
                s = (case nxt (links s j) of
                       None \<Rightarrow> s
                     | Some j' \<Rightarrow> set_link s j' (\<lambda>k. k\<lparr>prv := Some i\<rparr>))
            in rbind (delete_link s j) (\<lambda>s. Inr (realloc_done s i ptr fname lno))
          else if more < llen (links s j) then
            let s = set_link s j (\<lambda>k. k\<lparr>llen := sub64 (llen k) more\<rparr>);
                s = set_link s i (\<lambda>k. k\<lparr>llen := add64 (llen k) more\<rparr>);
                s = s\<lparr>usedmem := add64 (usedmem s) more, freemem := sub64 (freemem s) more\<rparr>
            in Inr (realloc_done s i ptr fname lno)
          else Inr (False, s))"

definition try_realloc :: "memmgr \<Rightarrow> nat \<Rightarrow> nat \<Rightarrow> string \<Rightarrow> nat \<Rightarrow> (bool \<times> memmgr) res" where
  "try_realloc s ptr new fname lno =
     locked s (\<lambda>s.
       if ptr = 0 then rbind (alloc_nomutex s new fname lno) (\<lambda>(p, s). Inr (p \<noteq> 0, s))
       else if ptr AND 15 \<noteq> 0 then Inl (Fatal ''((u64)ptr & 15) == 0'')
       else
         let new = add64 (align64 new VMM_MIN_ALLOC) (VMM_REDZONE_SIZE * 2);
             ptr = sub64 ptr VMM_REDZONE_SIZE in
         rbind (link_walk s (\<lambda>i addr. addr = ptr)) (\<lambda>(i, addr).
         case i of
           None \<Rightarrow> Inl (Fatal ''Elerhetetlen kod! ptr invalid? %p'')
         | Some i \<Rightarrow> realloc_at s i ptr new fname lno))"

definition get_size :: "memmgr \<Rightarrow> nat \<Rightarrow> nat res" where
  "get_size s p =
     rbind (link_walk s (\<lambda>i addr. addr = sub64 p VMM_REDZONE_SIZE)) (\<lambda>(i, addr).
     case i of
       None \<Rightarrow> Inl (Fatal ''Unreachable code in get_size!'')
     | Some i \<Rightarrow> Inr (sub64 (llen (links s i)) (VMM_REDZONE_SIZE * 2)))"

text \<open>\<^verbatim>\<open>dump\<close>, \<^verbatim>\<open>info\<close> and \<^verbatim>\<open>print_files\<close> print and are modelled by what they return and how they end.\<close>

definition dump :: "memmgr \<Rightarrow> (nat \<times> memmgr) res" where
  "dump s =
     locked s (\<lambda>s.
       rbind (link_walk s (\<lambda>_ _. False)) (\<lambda>(_, addr). Inr (sub64 addr (heap_base s), s)))"

definition info :: "memmgr \<Rightarrow> nat \<Rightarrow> (unit \<times> memmgr) res" where
  "info s p =
     locked s (\<lambda>s.
       rbind (link_walk s (\<lambda>i addr. addr = p)) (\<lambda>(i, addr).
       case i of
         None \<Rightarrow> Inl (Fatal ''Nincs allokacio ilyen cimen: %p'')
       | Some i \<Rightarrow> Inr ((), s)))"

definition print_files :: "memmgr \<Rightarrow> nat \<Rightarrow> (unit \<times> memmgr) res" where
  "print_files s around =
     locked s (\<lambda>s.
       rbind (link_walk s (\<lambda>i addr. addr = around)) (\<lambda>(i, addr).
       case i of None \<Rightarrow> Inl Undefined | Some i \<Rightarrow> Inr ((), s)))"

text \<open>The walk of \<^verbatim>\<open>check\<close> also keeps the node before the one it stops at, at the start the first.\<close>

fun walk_pair :: "(nat \<Rightarrow> link) \<Rightarrow> nat \<Rightarrow> nat \<Rightarrow> nat option \<Rightarrow> nat option \<Rightarrow> nat \<Rightarrow> (nat option \<times> nat option) res" where
  "walk_pair L p 0 i j a = Inl Hang"
| "walk_pair L p (Suc fuel) None j a = Inr (None, j)"
| "walk_pair L p (Suc fuel) (Some i) j a =
     (if a = p then Inr (Some i, j) else walk_pair L p fuel (nxt (L i)) (Some i) (add64 a (llen (L i))))"

text \<open>
  \<^verbatim>\<open>check\<close> returns only if the block is in use and both red zones are intact. A damaged red zone leads,
  through reports, an assertion and possibly a check of the neighbour, to \<^verbatim>\<open>pause\<close>. The fuel bounds the
  chain of neighbours.
\<close>

fun check :: "nat \<Rightarrow> memmgr \<Rightarrow> nat \<Rightarrow> bool \<Rightarrow> bool \<Rightarrow> unit res" where
  "check 0 s p checkbefore checkafter = Inl Hang"
| "check (Suc fuel) s p checkbefore checkafter =
     (let p = sub64 p VMM_REDZONE_SIZE in
      rbind (walk_pair (links s) p (Suc (capacity s)) (first s) (first s) (heap_base s)) (\<lambda>(i, j).
      let linksize = (case i of None \<Rightarrow> NPOS | Some i \<Rightarrow> llen (links s i)) in
      if linksize = NPOS then Inl (Fatal ''No such alloc: %p'')
      else case i of None \<Rightarrow> Inl Undefined
      | Some i \<Rightarrow>
        if free (links s i) then Inl (Fatal ''Tried to check a free sector?? %p'')
        else if llen (links s i) < VMM_MIN_ALLOC + VMM_REDZONE_SIZE * 2 then
          rbind (dump s) (\<lambda>_. Inl (Fatal ''%p is only 0x%llx bytes?? [%s:%d]''))
        else if memchk (ram s) p VMM_REDZONE_MAGIC VMM_REDZONE_SIZE then
          (case j of None \<Rightarrow> Inl Undefined
           | Some j \<Rightarrow>
               let p2 = sub64 p (llen (links s j)) in
               rbind (get_size s (add64 p2 64)) (\<lambda>g.
               if llen (links s j) \<noteq> add64 g (VMM_REDZONE_SIZE * 2)
               then Inl (Fatal ''j->length == get_size((void*)((u64)p2 + 64)) + VMM_REDZONE_SIZE * 2'')
               else if checkbefore
               then rbind (check fuel s (add64 p2 VMM_REDZONE_SIZE) True False) (\<lambda>_. Inl Hang)
               else Inl Hang))
        else
          let p = sub64 (add64 p linksize) VMM_REDZONE_SIZE in
          if memchk (ram s) p VMM_REDZONE_MAGIC VMM_REDZONE_SIZE then
            (case nxt (links s i) of None \<Rightarrow> Inl Undefined
             | Some j \<Rightarrow>
                 let p2 = add64 p (llen (links s i)) in
                 if checkafter
                 then rbind (check fuel s (add64 p2 VMM_REDZONE_SIZE) False True) (\<lambda>_. Inl Hang)
                 else Inl Hang)
          else Inr ()))"

definition check_fuel :: nat where
  "check_fuel = 128"

definition free_nomutex :: "memmgr \<Rightarrow> nat \<Rightarrow> memmgr res" where
  "free_nomutex s p =
     (if p = 0 then Inr s
      else
        rbind (check check_fuel s p True True) (\<lambda>_.
        let p = sub64 p VMM_REDZONE_SIZE in
        rbind (link_walk s (\<lambda>i addr. addr = p)) (\<lambda>(i, addr).
        let linksize = (case i of None \<Rightarrow> NPOS | Some i \<Rightarrow> llen (links s i)) in
        if linksize = NPOS then Inl (Fatal ''turi ipo ip'')
        else case i of None \<Rightarrow> Inl (Fatal ''Ervenytelen free!'')
        | Some i \<Rightarrow>
          let s = set_link s i (\<lambda>k. k\<lparr>lfile := None, lline := 0\<rparr>);
              s = s\<lparr>usedmem := sub64 (usedmem s) linksize, freemem := add64 (freemem s) linksize\<rparr>;
              s = set_link s i (\<lambda>k. k\<lparr>free := True\<rparr>)
          in merge s i)))"

definition mm_free :: "memmgr \<Rightarrow> nat \<Rightarrow> (unit \<times> memmgr) res" where
  "mm_free s p = locked s (\<lambda>s. rbind (free_nomutex s p) (\<lambda>s. Inr ((), s)))"

definition mm_realloc :: "memmgr \<Rightarrow> nat \<Rightarrow> nat \<Rightarrow> string \<Rightarrow> nat \<Rightarrow> (nat \<times> memmgr) res" where
  "mm_realloc s ptr new fname lno =
     rbind (try_realloc s ptr new fname lno) (\<lambda>(done, s).
     if done then Inr (ptr, s)
     else
       rbind (alloc s new fname lno) (\<lambda>(newmem, s).
       rbind (get_size s ptr) (\<lambda>oldsize.
       rbind (mm_free (s\<lparr>ram := memcpy (ram s) newmem ptr oldsize\<rparr>) ptr) (\<lambda>(_, s).
       Inr (newmem, s)))))"

fun check_links :: "memmgr \<Rightarrow> nat \<Rightarrow> nat option \<Rightarrow> nat \<Rightarrow> unit res" where
  "check_links s 0 l a = Inl Hang"
| "check_links s (Suc fuel) None a = Inr ()"
| "check_links s (Suc fuel) (Some l) a =
     rbind (if free (links s l) then Inr () else check check_fuel s (add64 a VMM_REDZONE_SIZE) True True) (\<lambda>_.
     check_links s fuel (nxt (links s l)) (add64 a (llen (links s l))))"

definition check_all :: "memmgr \<Rightarrow> unit res" where
  "check_all s = check_links s (Suc (capacity s)) (first s) (heap_base s)"

end
