(* ===== verification/Blocks.thy ===== *)
theory Blocks
  imports Prelude
begin

text \<open>
  The abstract heap: a list of blocks, each a length and a flag that says whether it is free. Here are
  first-fit allocation and release with coalescing as list functions, the invariant of such a list,
  and the proof that both keep it.
\<close>

type_synonym block = "nat \<times> bool"

definition total_len :: "block list \<Rightarrow> nat" where
  "total_len bs = sum_list (map fst bs)"

definition used_bytes :: "block list \<Rightarrow> nat" where
  "used_bytes bs = total_len (filter (\<lambda>b. \<not> snd b) bs)"

definition free_bytes :: "block list \<Rightarrow> nat" where
  "free_bytes bs = total_len (filter snd bs)"

lemma total_len_simps [simp]:
  "total_len [] = 0" "total_len (b # bs) = fst b + total_len bs" "total_len (as @ bs) = total_len as + total_len bs"
  by (simp_all add: total_len_def)

lemma bytes_simps [simp]:
  "used_bytes [] = 0" "free_bytes [] = 0"
  "used_bytes (b # bs) = (if snd b then 0 else fst b) + used_bytes bs"
  "free_bytes (b # bs) = (if snd b then fst b else 0) + free_bytes bs"
  "used_bytes (as @ bs) = used_bytes as + used_bytes bs"
  "free_bytes (as @ bs) = free_bytes as + free_bytes bs"
  by (simp_all add: used_bytes_def free_bytes_def)

lemma used_plus_free: "used_bytes bs + free_bytes bs = total_len bs"
  by (induction bs) auto

section \<open>Operations\<close>

fun first_fit :: "nat \<Rightarrow> block list \<Rightarrow> (nat \<times> block list) option" where
  "first_fit n [] = None"
| "first_fit n ((m, f) # bs) =
     (if f \<and> n \<le> m then Some (0, (n, False) # (if m = n then bs else (m - n, True) # bs))
      else map_option (\<lambda>(off, bs'). (m + off, (m, f) # bs')) (first_fit n bs))"

definition absorb_next :: "nat \<Rightarrow> block list \<Rightarrow> block list" where
  "absorb_next m bs = (case bs of (k, True) # bs' \<Rightarrow> (m + k, True) # bs' | _ \<Rightarrow> (m, True) # bs)"

definition release :: "block list \<Rightarrow> nat \<Rightarrow> block list \<Rightarrow> block list" where
  "release as m bs =
     (if as \<noteq> [] \<and> snd (last as)
      then butlast as @ (case absorb_next m bs of c # cs \<Rightarrow> (fst (last as) + fst c, True) # cs)
      else as @ absorb_next m bs)"

section \<open>Invariant\<close>

definition block_ok :: "block \<Rightarrow> bool" where
  "block_ok b \<longleftrightarrow> 0 < fst b \<and> 16 dvd fst b \<and> (\<not> snd b \<longrightarrow> 144 \<le> fst b)"

lemma block_ok_pair [simp]: "block_ok (n, f) \<longleftrightarrow> 0 < n \<and> 16 dvd n \<and> (\<not> f \<longrightarrow> 144 \<le> n)"
  by (simp add: block_ok_def)

fun separated :: "block list \<Rightarrow> bool" where
  "separated (a # b # bs) \<longleftrightarrow> \<not> (snd a \<and> snd b) \<and> separated (b # bs)"
| "separated bs \<longleftrightarrow> True"

definition blocks_ok :: "block list \<Rightarrow> bool" where
  "blocks_ok bs \<longleftrightarrow> (\<forall>b \<in> set bs. block_ok b) \<and> separated bs"

lemma separated_append:
  "separated (as @ b # bs) \<longleftrightarrow> separated as \<and> separated (b # bs) \<and> (as \<noteq> [] \<longrightarrow> \<not> (snd (last as) \<and> snd b))"
  by (induction as rule: separated.induct) auto

lemma separated_Cons: "separated (b # bs) \<longleftrightarrow> separated bs \<and> (bs \<noteq> [] \<longrightarrow> \<not> (snd b \<and> snd (hd bs)))"
  by (cases bs) auto

lemma first_fit_None_iff: "first_fit n bs = None \<longleftrightarrow> (\<forall>b \<in> set bs. \<not> (snd b \<and> n \<le> fst b))"
  by (induction n bs rule: first_fit.induct) auto

lemma first_fit_at:
  "\<forall>b \<in> set as. \<not> (snd b \<and> n \<le> fst b) \<Longrightarrow> n \<le> m \<Longrightarrow>
   first_fit n (as @ (m, True) # bs) =
     Some (total_len as, as @ (n, False) # (if m = n then bs else (m - n, True) # bs))"
  by (induction as) auto

lemma first_fit_cases:
  assumes "first_fit n bs = Some (off, bs')"
  obtains as m cs where "bs = as @ (m, True) # cs" and "n \<le> m" and "off = total_len as"
    and "\<forall>b \<in> set as. \<not> (snd b \<and> n \<le> fst b)"
    and "bs' = as @ (n, False) # (if m = n then cs else (m - n, True) # cs)"
proof -
  have "\<exists>b \<in> set bs. snd b \<and> n \<le> fst b"
    using assms first_fit_None_iff [of n bs] by auto
  then obtain as b cs where bs: "bs = as @ b # cs" and b: "snd b" "n \<le> fst b"
    and as: "\<forall>b \<in> set as. \<not> (snd b \<and> n \<le> fst b)"
    using split_list_first_prop [of bs "\<lambda>b. snd b \<and> n \<le> fst b"] by blast
  then have "bs = as @ (fst b, True) # cs" by (cases b) simp
  with first_fit_at [OF as b(2), of cs] assms as b(2) show thesis
    by (intro that [of as "fst b" cs]) auto
qed

lemma blocks_ok_split:
  assumes "blocks_ok (as @ (m, True) # cs)" and "16 dvd n" and "144 \<le> n" and "n \<le> m"
  shows "blocks_ok (as @ (n, False) # (if m = n then cs else (m - n, True) # cs))"
  using assms
  by (auto simp: blocks_ok_def separated_append separated_Cons intro: dvd_diff_nat)

lemma blocks_ok_split3:
  assumes "blocks_ok (as @ (m, True) # cs)" and "16 dvd n" and "144 \<le> n" and "16 dvd g" and "0 < g" and "g + n \<le> m"
  shows "blocks_ok (as @ (g, True) # (n, False) # (if m - g = n then cs else (m - g - n, True) # cs))"
  using assms
  by (auto simp: blocks_ok_def separated_append separated_Cons intro: dvd_diff_nat)

lemma first_fit_ok:
  assumes "blocks_ok bs" and "16 dvd n" and "144 \<le> n" and "first_fit n bs = Some (off, bs')"
  shows "blocks_ok bs'" and "total_len bs' = total_len bs" and "used_bytes bs' = used_bytes bs + n"
    and "free_bytes bs = free_bytes bs' + n"
proof -
  obtain as m cs where r: "bs = as @ (m, True) # cs" "n \<le> m"
    "bs' = as @ (n, False) # (if m = n then cs else (m - n, True) # cs)"
    using first_fit_cases [OF assms(4)] by metis
  show "blocks_ok bs'"
    unfolding r(3) by (rule blocks_ok_split) (use assms r in auto)
  show "total_len bs' = total_len bs" "used_bytes bs' = used_bytes bs + n" "free_bytes bs = free_bytes bs' + n"
    using r by simp_all
qed

lemma absorb_next_Cons: "\<exists>k bs'. absorb_next m bs = (k, True) # bs'"
  by (auto simp: absorb_next_def split: list.splits bool.splits)

lemma release_eq:
  "release as m bs =
     (if as \<noteq> [] \<and> snd (last as)
      then butlast as @ (fst (last as) + fst (hd (absorb_next m bs)), True) # tl (absorb_next m bs)
      else as @ absorb_next m bs)"
  using absorb_next_Cons [of m bs] by (auto simp: release_def)

lemma absorb_next_ok:
  assumes "blocks_ok ((m, f) # bs)"
  shows "blocks_ok (absorb_next m bs)" and "total_len (absorb_next m bs) = m + total_len bs"
    and "used_bytes (absorb_next m bs) = used_bytes bs" and "free_bytes (absorb_next m bs) = m + free_bytes bs"
proof -
  have all: "blocks_ok (absorb_next m bs) \<and> total_len (absorb_next m bs) = m + total_len bs \<and>
    used_bytes (absorb_next m bs) = used_bytes bs \<and> free_bytes (absorb_next m bs) = m + free_bytes bs"
  proof (cases "\<exists>k bs'. bs = (k, True) # bs'")
  case True
  then obtain k bs' where bs: "bs = (k, True) # bs'" by blast
  then show ?thesis
    using assms by (simp add: absorb_next_def blocks_ok_def separated_Cons bs)
next
  case False
  then have r: "absorb_next m bs = (m, True) # bs" and "bs = [] \<or> \<not> snd (hd bs)"
    by (cases bs; auto simp: absorb_next_def split: bool.splits)+
  then show ?thesis
    using assms unfolding r by (auto simp: blocks_ok_def separated_Cons)
qed
  then show "blocks_ok (absorb_next m bs)" and "total_len (absorb_next m bs) = m + total_len bs"
    and "used_bytes (absorb_next m bs) = used_bytes bs" and "free_bytes (absorb_next m bs) = m + free_bytes bs"
    by simp_all
qed

lemma release_ok:
  assumes ok: "blocks_ok (as @ (m, False) # bs)"
  shows "blocks_ok (release as m bs)" and "total_len (release as m bs) = total_len as + m + total_len bs"
    and "used_bytes (release as m bs) = used_bytes as + used_bytes bs"
    and "free_bytes (release as m bs) = free_bytes as + m + free_bytes bs"
proof -
  have a: "blocks_ok as" and b: "blocks_ok ((m, False) # bs)"
    using ok by (auto simp: blocks_ok_def separated_append)
  note n = absorb_next_ok [OF b]
  obtain k cs where k: "absorb_next m bs = (k, True) # cs"
    using absorb_next_Cons by metis
  have all: "blocks_ok (release as m bs) \<and> total_len (release as m bs) = total_len as + m + total_len bs \<and>
      used_bytes (release as m bs) = used_bytes as + used_bytes bs \<and>
      free_bytes (release as m bs) = free_bytes as + m + free_bytes bs"
  proof (cases "as \<noteq> [] \<and> snd (last as)")
    case True
    then obtain as' p where as: "as = as' @ [(p, True)]"
      by (metis append_butlast_last_id prod.collapse)
    have r: "release as m bs = as' @ (p + k, True) # cs"
      by (simp add: release_eq as k)
    have "blocks_ok (as' @ (p + k, True) # cs)"
      using a n(1) unfolding k as by (auto simp: blocks_ok_def separated_append separated_Cons)
    then have "blocks_ok (release as m bs)" unfolding r .
    then show ?thesis
      using n(2-4) unfolding k r by (simp add: as)
  next
    case False
    then have r: "release as m bs = as @ (k, True) # cs"
      by (auto simp: release_eq k)
    have "blocks_ok (as @ (k, True) # cs)"
      using a n(1) False unfolding k by (auto simp: blocks_ok_def separated_append)
    then have "blocks_ok (release as m bs)" unfolding r .
    then show ?thesis
      using n(2-4) unfolding k r by simp
  qed
  then show "blocks_ok (release as m bs)" and "total_len (release as m bs) = total_len as + m + total_len bs"
    and "used_bytes (release as m bs) = used_bytes as + used_bytes bs"
    and "free_bytes (release as m bs) = free_bytes as + m + free_bytes bs"
    by simp_all
qed

text \<open>Releasing what first fit handed out gives the list back.\<close>

lemma release_first_fit:
  assumes "blocks_ok (as @ (m, True) # cs)" and "n \<le> m"
  shows "release as n (if m = n then cs else (m - n, True) # cs) = as @ (m, True) # cs"
proof -
  have "\<not> (as \<noteq> [] \<and> snd (last as))" and "cs = [] \<or> \<not> snd (hd cs)"
    using assms(1) by (auto simp: blocks_ok_def separated_append separated_Cons)
  moreover have "absorb_next n (if m = n then cs else (m - n, True) # cs) = (m, True) # cs"
    using calculation(2) assms(2) by (cases cs) (auto simp: absorb_next_def split: bool.splits)
  ultimately show ?thesis by (auto simp: release_eq)
qed

end
