(* ===== verification/Heap.thy ===== *)
theory Heap
  imports MemMgr Blocks
begin

text \<open>
  The heap seen as a list of blocks. \<open>heap_rep s xs\<close> relates a \<^verbatim>\<open>MemoryMgr\<close> to the sequence \<open>xs\<close> of its
  links; each operation on the links is shown to implement an operation on the list of pairs of
  length and free flag, and what makes the heap right is proved about these lists.
\<close>

definition blk :: "memmgr \<Rightarrow> nat \<Rightarrow> block" where
  "blk s i = (llen (links s i), free (links s i))"

abbreviation blocks_of :: "memmgr \<Rightarrow> nat list \<Rightarrow> block list" where
  "blocks_of s xs \<equiv> map (blk s) xs"

definition heap_rep :: "memmgr \<Rightarrow> nat list \<Rightarrow> bool" where
  "heap_rep s xs \<longleftrightarrow>
     bitmap_wf (bm s) \<and> sz (bm s) = 64 \<and> 64 \<le> capacity s \<and>
     xs \<noteq> [] \<and> distinct xs \<and> (\<forall>i. i < 64 \<longrightarrow> (bits (bm s) i \<longleftrightarrow> i \<in> set xs)) \<and> set xs \<subseteq> {..<64} \<and>
     first s = first_of xs None \<and> chain (links s) None xs None"

text \<open>The part of the state that the list operations leave alone.\<close>

definition same_rest :: "memmgr \<Rightarrow> memmgr \<Rightarrow> bool" where
  "same_rest s s' \<longleftrightarrow> capacity s' = capacity s \<and> usedmem s' = usedmem s \<and> freemem s' = freemem s \<and>
     heap_base s' = heap_base s \<and> mtx s' = mtx s \<and> ram s' = ram s"

lemma same_rest_refl [simp]: "same_rest s s"
  by (simp add: same_rest_def)

lemma same_rest_trans: "same_rest s t \<Longrightarrow> same_rest t u \<Longrightarrow> same_rest s u"
  by (simp add: same_rest_def)

lemma set_link_sel [simp]:
  "links (set_link s i f) = (links s)(i := f (links s i))" "first (set_link s i f) = first s"
  "bm (set_link s i f) = bm s" "capacity (set_link s i f) = capacity s"
  "usedmem (set_link s i f) = usedmem s" "freemem (set_link s i f) = freemem s"
  "heap_base (set_link s i f) = heap_base s" "mtx (set_link s i f) = mtx s" "ram (set_link s i f) = ram s"
  by (simp_all add: set_link_def)

lemma same_rest_set_link [simp]: "same_rest s (set_link s' i f) \<longleftrightarrow> same_rest s s'"
  by (simp add: same_rest_def)

lemma heap_rep_length: "heap_rep s xs \<Longrightarrow> length xs \<le> 64"
  using card_mono [of "{..<64}" "set xs"] by (auto simp: heap_rep_def distinct_card)

text \<open>Writing a link's own fields keeps the list.\<close>

lemma heap_rep_set_link:
  assumes "heap_rep s xs" and "\<And>k. nxt (f k) = nxt k" and "\<And>k. prv (f k) = prv k"
  shows "heap_rep (set_link s i f) xs"
  using assms by (simp add: heap_rep_def chain_upd_same)

lemma link_walk_rep:
  assumes "heap_rep s xs"
  shows "link_walk s P = Inr (walk_list (\<lambda>i. llen (links s i)) P xs (heap_base s))"
proof -
  have "length xs < Suc (capacity s)"
    using heap_rep_length [OF assms] assms by (simp add: heap_rep_def)
  moreover have "chain (links s) None xs None" "first s = first_of xs None"
    using assms by (simp_all add: heap_rep_def)
  ultimately show ?thesis
    unfolding link_walk_def by (simp only: walk_chain)
qed

section \<open>Slots\<close>

lemma create_link_full:
  assumes "heap_rep s xs" and "length xs = 64"
  shows "create_link s = Inl (Fatal ''Kifogyott a vmm bitmap!'')"
proof -
  have "set xs = {..<64}"
    using assms by (intro card_subset_eq) (auto simp: heap_rep_def distinct_card)
  then have "slots.free_slots (bm s) = {}"
    using assms(1) by (auto simp: slots.free_slots_def heap_rep_def)
  then have "find_and_set (bm s) 0 = Inr (NPOS, bm s)"
    using assms(1) by (simp add: slots.take_none_iff heap_rep_def)
  then show ?thesis by (simp add: create_link_def)
qed

lemma create_link_ok:
  assumes "heap_rep s xs" and "length xs < 64"
  obtains n b where "create_link s = Inr (n, set_link (s\<lparr>bm := b\<rparr>) n (\<lambda>k. k\<lparr>lfile := None, lline := 0\<rparr>))"
    and "n \<notin> set xs" and "n < 64" and "bitmap_wf b" and "sz b = 64" and "bits b = (bits (bm s))(n := True)"
proof -
  have wf: "bitmap_wf (bm s)" and sz: "sz (bm s) = 64"
    and bits: "\<And>i. i < 64 \<Longrightarrow> bits (bm s) i \<longleftrightarrow> i \<in> set xs"
    using assms(1) by (auto simp: heap_rep_def)
  have "set xs \<noteq> {..<64}"
    using assms by (metis card_lessThan distinct_card heap_rep_def less_irrefl)
  then obtain i where "i < 64" "i \<notin> set xs"
    using assms(1) by (auto simp: heap_rep_def)
  then have "slots.free_slots (bm s) \<noteq> {}"
    using bits sz by (auto simp: slots.free_slots_def)
  from slots.take_some [OF wf this] obtain n b where
    n: "find_and_set (bm s) 0 = Inr (n, b)" "n \<in> slots.free_slots (bm s)" "bitmap_wf b"
      "sz b = sz (bm s)" "bits b = (bits (bm s))(n := True)"
    by metis
  have "n < 64" "n \<notin> set xs"
    using n(2) bits sz by (auto simp: slots.free_slots_def)
  moreover have "n \<noteq> NPOS"
    using \<open>n < 64\<close> by (simp add: NPOS_def)
  ultimately show thesis
    using n sz by (intro that [of n b]) (simp_all add: create_link_def)
qed

section \<open>Operations on the list of links\<close>

lemma blk_other [simp]:
  "blk (s\<lparr>usedmem := u\<rparr>) = blk s" "blk (s\<lparr>freemem := u\<rparr>) = blk s" "blk (s\<lparr>ram := m\<rparr>) = blk s"
  "blk (s\<lparr>mtx := x\<rparr>) = blk s" "blk (s\<lparr>first := p\<rparr>) = blk s" "blk (s\<lparr>bm := b\<rparr>) = blk s"
  by (simp_all add: blk_def fun_eq_iff)

lemma heap_rep_other [simp]:
  "heap_rep (s\<lparr>usedmem := u\<rparr>) xs = heap_rep s xs" "heap_rep (s\<lparr>freemem := u\<rparr>) xs = heap_rep s xs"
  "heap_rep (s\<lparr>ram := m\<rparr>) xs = heap_rep s xs" "heap_rep (s\<lparr>mtx := x\<rparr>) xs = heap_rep s xs"
  by (simp_all add: heap_rep_def)

lemma blk_set_link: "blk (set_link s i f) j = (if j = i then (llen (f (links s i)), free (f (links s i))) else blk s j)"
  by (simp add: blk_def)

lemma blocks_cong: "(\<And>i. i \<in> set xs \<Longrightarrow> blk s' i = blk s i) \<Longrightarrow> blocks_of s' xs = blocks_of s xs"
  by simp

lemma allocate_exact:
  assumes "heap_rep s (as @ l # bs)" and "free (links s l)" and "llen (links s l) = n" and "n < 2 ^ 64"
  shows "allocate_into_free s l n 0 = Inr (l, set_link s l (\<lambda>k. k\<lparr>free := False\<rparr>))"
  using assms by (simp add: allocate_into_free_def Let_def sub64_small)

text \<open>Linking the fresh node \<open>new\<close> in behind \<open>l\<close>.\<close>

lemma heap_rep_insert_after:
  assumes rep: "heap_rep s (as @ l # bs)" and new: "new \<notin> set (as @ l # bs)" "new < 64"
    and b: "bitmap_wf b" "sz b = 64" "bits b = (bits (bm s))(new := True)"
    and L: "\<And>i. i \<in> set as \<Longrightarrow> L i = links s i" "prv (L l) = prv (links s l)" "nxt (L l) = Some new"
      "prv (L new) = Some l" "nxt (L new) = nxt (links s l)"
      "\<And>j bs'. bs = j # bs' \<Longrightarrow> prv (L j) = Some new \<and> nxt (L j) = nxt (links s j) \<and> (\<forall>i \<in> set bs'. L i = links s i)"
    and s': "links s' = L" "first s' = first s" "bm s' = b" "capacity s' = capacity s"
  shows "heap_rep s' (as @ l # new # bs)"
proof -
  have "chain L None as (Some l)"
    using rep L(1) by (subst chain_cong [of _ _ "links s"]) (auto simp: heap_rep_def)
  moreover have "chain L (Some new) bs None"
  proof (cases bs)
    case (Cons j bs')
    moreover from this have "chain L (Some j) bs' None"
      using rep L(6) by (subst chain_cong [of _ _ "links s"]) (auto simp: heap_rep_def)
    ultimately show ?thesis using rep L(6) by (simp add: heap_rep_def)
  qed simp
  ultimately have "chain L None (as @ l # new # bs) None"
    using rep L(2-5) by (simp add: heap_rep_def)
  then show ?thesis
    using rep new b s' by (cases as) (auto simp: heap_rep_def)
qed

lemma allocate_split:
  assumes rep: "heap_rep s (as @ l # bs)" and fr: "free (links s l)" and n: "n < llen (links s l)"
    and len: "llen (links s l) < 2 ^ 64" and room: "length (as @ l # bs) < 64"
  obtains new s' where "allocate_into_free s l n 0 = Inr (new, s')" and "heap_rep s' (as @ l # new # bs)"
    and "same_rest s s'" and "blocks_of s' as = blocks_of s as" and "blocks_of s' bs = blocks_of s bs"
    and "blk s' l = (n, False)" and "blk s' new = (llen (links s l) - n, True)"
proof -
  let ?s0 = "set_link s l (\<lambda>k. k\<lparr>free := False\<rparr>)"
  have rep0: "heap_rep ?s0 (as @ l # bs)"
    using rep by (rule heap_rep_set_link) simp_all
  obtain new b where c: "create_link ?s0 = Inr (new, set_link (?s0\<lparr>bm := b\<rparr>) new (\<lambda>k. k\<lparr>lfile := None, lline := 0\<rparr>))"
    and new: "new \<notin> set (as @ l # bs)" "new < 64"
    and b: "bitmap_wf b" "sz b = 64" "bits b = (bits (bm ?s0))(new := True)"
    by (rule create_link_ok [OF rep0 room])
  have d: "distinct (as @ l # bs)" and nl: "nxt (links s l) = first_of bs None"
    using rep by (simp_all add: heap_rep_def)
  have rem: "sub64 (llen (links s l)) n = llen (links s l) - n" "sub64 (llen (links s l) - n) 0 = llen (links s l) - n"
    using n len by (simp_all add: sub64_small)
  let ?s1 = "set_link (?s0\<lparr>bm := b\<rparr>) new (\<lambda>k. k\<lparr>lfile := None, lline := 0\<rparr>)"
  let ?s2 = "set_link ?s1 l (\<lambda>k. k\<lparr>llen := n\<rparr>)"
  let ?s3 = "set_link ?s2 new (\<lambda>k. k\<lparr>nxt := nxt (links ?s2 l), prv := Some l,
    llen := llen (links s l) - n, free := True\<rparr>)"
  let ?s4 = "case nxt (links ?s3 l) of None \<Rightarrow> ?s3 | Some j \<Rightarrow> set_link ?s3 j (\<lambda>k. k\<lparr>prv := Some new\<rparr>)"
  let ?s' = "set_link ?s4 l (\<lambda>k. k\<lparr>nxt := Some new\<rparr>)"
  have "\<not> llen (links s l) < n" and "llen (links s l) - n \<noteq> 0"
    using n by simp_all
  then have run: "allocate_into_free s l n 0 = Inr (new, ?s')"
    using fr by (simp add: allocate_into_free_def Let_def rem c)
  have "heap_rep ?s' (as @ l # new # bs)"
    by (rule heap_rep_insert_after [OF rep new b(1,2) _ _ _ _ _ _ _ refl])
      (use new d nl b(3) in \<open>auto simp: first_of_eq_Some split: option.splits\<close>)
  then show thesis
    by (rule that [OF run])
      (use new d nl in \<open>auto simp: same_rest_def blk_def first_of_eq_Some split: option.splits\<close>)
qed

text \<open>Unlinking the node \<open>old\<close> behind \<open>l\<close> and giving its slot back.\<close>

lemma heap_rep_unlink:
  assumes rep: "heap_rep s (as @ l # old # bs)"
    and b: "bitmap_wf b" "sz b = 64" "bits b = (bits (bm s))(old := False)"
    and L: "\<And>i. i \<in> set as \<Longrightarrow> L i = links s i" "prv (L l) = prv (links s l)" "nxt (L l) = nxt (links s old)"
      "\<And>j bs'. bs = j # bs' \<Longrightarrow> prv (L j) = Some l \<and> nxt (L j) = nxt (links s j) \<and> (\<forall>i \<in> set bs'. L i = links s i)"
    and s': "links s' = L" "first s' = first s" "bm s' = b" "capacity s' = capacity s"
  shows "heap_rep s' (as @ l # bs)"
proof -
  have "chain L None as (Some l)"
    using rep L(1) by (subst chain_cong [of _ _ "links s"]) (auto simp: heap_rep_def)
  moreover have "chain L (Some l) bs None"
  proof (cases bs)
    case (Cons j bs')
    moreover from this have "chain L (Some j) bs' None"
      using rep L(4) by (subst chain_cong [of _ _ "links s"]) (auto simp: heap_rep_def)
    ultimately show ?thesis using rep L(4) by (simp add: heap_rep_def)
  qed simp
  ultimately have "chain L None (as @ l # bs) None"
    using rep L(2-3) by (simp add: heap_rep_def)
  then show ?thesis
    using rep b s' by (cases as) (auto simp: heap_rep_def)
qed

lemma delete_link_inner:
  assumes rep: "heap_rep s0 (as @ l # old # bs)" and s: "bm s = bm s0" "prv (links s old) = Some l"
  obtains b where "delete_link s old =
      Inr (set_link (s\<lparr>bm := b\<rparr>) old (\<lambda>k. k\<lparr>nxt := None, prv := None, lfile := None, lline := 0\<rparr>))"
    and "bitmap_wf b" and "sz b = 64" and "bits b = (bits (bm s0))(old := False)"
proof -
  have "bitmap_wf (bm s0)" "old < sz (bm s0)" "sz (bm s0) = 64"
    using rep by (auto simp: heap_rep_def)
  then obtain b where "bitmap_set (bm s0) old False = Inr b" "bitmap_wf b" "sz b = 64"
    "bits b = (bits (bm s0))(old := False)"
    using bitmap_set_ok by metis
  then show thesis
    using s by (intro that [of b]) (simp_all add: delete_link_def)
qed

lemma merge_next_join:
  assumes rep: "heap_rep s (as @ l # old # bs)" and fr: "free (links s l)" "free (links s old)"
    and len: "llen (links s l) + llen (links s old) < 2 ^ 64"
  obtains s' where "merge_next s l = Inr s'" and "heap_rep s' (as @ l # bs)" and "same_rest s s'"
    and "blocks_of s' as = blocks_of s as" and "blocks_of s' bs = blocks_of s bs"
    and "blk s' l = (llen (links s l) + llen (links s old), True)"
proof -
  have d: "distinct (as @ l # old # bs)" and nl: "nxt (links s l) = Some old" "prv (links s old) = Some l"
    and no: "nxt (links s old) = first_of bs None"
    using rep by (simp_all add: heap_rep_def)
  let ?s1 = "set_link s l (\<lambda>k. k\<lparr>llen := add64 (llen k) (llen (links s old))\<rparr>)"
  let ?s2 = "case nxt (links ?s1 old) of None \<Rightarrow> ?s1 | Some j \<Rightarrow> set_link ?s1 j (\<lambda>k. k\<lparr>prv := Some l\<rparr>)"
  let ?s3 = "set_link ?s2 l (\<lambda>k. k\<lparr>nxt := nxt (links ?s2 old)\<rparr>)"
  have "bm ?s3 = bm s" "prv (links ?s3 old) = Some l"
    using d nl no by (auto simp: first_of_eq_Some split: option.splits)
  then obtain b where del: "delete_link ?s3 old =
      Inr (set_link (?s3\<lparr>bm := b\<rparr>) old (\<lambda>k. k\<lparr>nxt := None, prv := None, lfile := None, lline := 0\<rparr>))"
    and b: "bitmap_wf b" "sz b = 64" "bits b = (bits (bm s))(old := False)"
    by (rule delete_link_inner [OF rep])
  let ?s' = "set_link (?s3\<lparr>bm := b\<rparr>) old (\<lambda>k. k\<lparr>nxt := None, prv := None, lfile := None, lline := 0\<rparr>)"
  have run: "merge_next s l = Inr ?s'"
    using fr nl del by (simp add: merge_next_def Let_def)
  have "heap_rep ?s' (as @ l # bs)"
    by (rule heap_rep_unlink [OF rep b(1,2) _ _ _ _ _ refl])
      (use d nl no b(3) in \<open>auto simp: first_of_eq_Some split: option.splits\<close>)
  moreover have "add64 (llen (links s l)) (llen (links s old)) = llen (links s l) + llen (links s old)"
    using len by (rule add64_small)
  ultimately show thesis
    by (intro that [OF run])
      (use d nl no fr in \<open>auto simp: same_rest_def blk_def first_of_eq_Some split: option.splits\<close>)
qed

lemma merge_prev_join:
  assumes rep: "heap_rep s (as @ p # l # bs)" and fr: "free (links s p)" "free (links s l)"
    and len: "llen (links s p) + llen (links s l) < 2 ^ 64"
  obtains s' where "merge_prev s l = Inr s'" and "heap_rep s' (as @ p # bs)" and "same_rest s s'"
    and "blocks_of s' as = blocks_of s as" and "blocks_of s' bs = blocks_of s bs"
    and "blk s' p = (llen (links s p) + llen (links s l), True)"
proof -
  have d: "distinct (as @ p # l # bs)" and nl: "nxt (links s p) = Some l" "prv (links s l) = Some p"
    and no: "nxt (links s l) = first_of bs None"
    using rep by (simp_all add: heap_rep_def)
  let ?s1 = "set_link s p (\<lambda>k. k\<lparr>llen := add64 (llen k) (llen (links s l))\<rparr>)"
  let ?s2 = "case nxt (links ?s1 l) of None \<Rightarrow> ?s1 | Some j \<Rightarrow> set_link ?s1 j (\<lambda>k. k\<lparr>prv := prv (links ?s1 l)\<rparr>)"
  let ?s3 = "set_link ?s2 p (\<lambda>k. k\<lparr>nxt := nxt (links ?s2 l)\<rparr>)"
  have "bm ?s3 = bm s" "prv (links ?s3 l) = Some p"
    using d nl no by (auto simp: first_of_eq_Some split: option.splits)
  then obtain b where del: "delete_link ?s3 l =
      Inr (set_link (?s3\<lparr>bm := b\<rparr>) l (\<lambda>k. k\<lparr>nxt := None, prv := None, lfile := None, lline := 0\<rparr>))"
    and b: "bitmap_wf b" "sz b = 64" "bits b = (bits (bm s))(l := False)"
    by (rule delete_link_inner [OF rep])
  let ?s' = "set_link (?s3\<lparr>bm := b\<rparr>) l (\<lambda>k. k\<lparr>nxt := None, prv := None, lfile := None, lline := 0\<rparr>)"
  have run: "merge_prev s l = Inr ?s'"
    using fr nl del by (simp add: merge_prev_def Let_def)
  have "heap_rep ?s' (as @ p # bs)"
    by (rule heap_rep_unlink [OF rep b(1,2) _ _ _ _ _ refl])
      (use d nl no b(3) in \<open>auto simp: first_of_eq_Some split: option.splits\<close>)
  moreover have "add64 (llen (links s p)) (llen (links s l)) = llen (links s p) + llen (links s l)"
    using len by (rule add64_small)
  ultimately show thesis
    by (intro that [OF run])
      (use d nl no fr in \<open>auto simp: same_rest_def blk_def first_of_eq_Some split: option.splits\<close>)
qed

section \<open>The invariant\<close>

definition heap_ok :: "memmgr \<Rightarrow> nat list \<Rightarrow> bool" where
  "heap_ok s xs \<longleftrightarrow> heap_rep s xs \<and> blocks_ok (blocks_of s xs) \<and>
     usedmem s = used_bytes (blocks_of s xs) \<and> freemem s = free_bytes (blocks_of s xs) \<and>
     16 dvd heap_base s \<and> 0 < heap_base s \<and> heap_base s + total_len (blocks_of s xs) < 2 ^ 64"

lemma offset_total: "offset (\<lambda>i. llen (links s i)) ys = total_len (blocks_of s ys)"
  by (induction ys) (simp_all add: blk_def)

lemma heap_ok_room:
  assumes "heap_ok s (ys @ l # zs)"
  shows "heap_base s + total_len (blocks_of s ys) + llen (links s l) < 2 ^ 64"
  using assms by (simp add: heap_ok_def blk_def)

text \<open>The length of the block for a request: rounded up to 16, and two red zones.\<close>

definition mm_size :: "nat \<Rightarrow> nat" where
  "mm_size bytes = align64 bytes 16 + 128"

lemma mm_size_props:
  assumes "bytes \<le> 2 ^ 63"
  shows "add64 (align64 bytes VMM_MIN_ALLOC) (VMM_REDZONE_SIZE * 2) = mm_size bytes"
    and "16 dvd mm_size bytes" and "bytes + 128 \<le> mm_size bytes" and "mm_size bytes < bytes + 144"
    and "0 < bytes \<Longrightarrow> 144 \<le> mm_size bytes"
proof -
  have b: "bytes \<le> align64 bytes 16" "align64 bytes 16 < bytes + 16" "16 dvd align64 bytes 16"
    using assms align64_ge [of 16 bytes] align64_less [of 16 bytes] align64_dvd [of 16 bytes] by simp_all
  then show "bytes + 128 \<le> mm_size bytes" "mm_size bytes < bytes + 144" "16 dvd mm_size bytes"
    by (simp_all add: mm_size_def)
  show "add64 (align64 bytes VMM_MIN_ALLOC) (VMM_REDZONE_SIZE * 2) = mm_size bytes"
    using assms b by (simp add: mm_size_def VMM_MIN_ALLOC_def VMM_REDZONE_SIZE_def add64_small)
  show "144 \<le> mm_size bytes" if "0 < bytes"
    using b that dvd_imp_le [OF b(3)] by (simp add: mm_size_def)
qed

text \<open>The memory with the red zones of a block of \<open>n\<close> bytes at \<open>a\<close> written.\<close>

definition framed :: "memory \<Rightarrow> nat \<Rightarrow> nat \<Rightarrow> memory" where
  "framed m a n = filled (filled m a VMM_REDZONE_MAGIC 64) (a + n - 64) VMM_REDZONE_MAGIC 64"

definition zones_intact :: "memory \<Rightarrow> nat \<Rightarrow> nat \<Rightarrow> bool" where
  "zones_intact m a n \<longleftrightarrow>
     (\<forall>k < 64. m (a + k) = VMM_REDZONE_MAGIC) \<and> (\<forall>k < 64. m (a + n - 64 + k) = VMM_REDZONE_MAGIC)"

lemma framed_intact: "64 \<le> n \<Longrightarrow> zones_intact (framed m a n) a n"
  by (auto simp: zones_intact_def framed_def filled_def)

lemma framed_outside: "128 \<le> n \<Longrightarrow> x < a \<or> a + n \<le> x \<Longrightarrow> framed m a n x = m x"
  by (auto simp: framed_def filled_def)

lemma framed_inside: "128 \<le> n \<Longrightarrow> a + 64 \<le> x \<Longrightarrow> x < a + n - 64 \<Longrightarrow> framed m a n x = m x"
  by (auto simp: framed_def filled_def)

lemma finish_alloc_eq:
  assumes "a + n < 2 ^ 64" and "64 \<le> n" and "usedmem s + n < 2 ^ 64" and "n \<le> freemem s" and "freemem s < 2 ^ 64"
  shows "finish_alloc s a n =
    (a + 64, s\<lparr>usedmem := usedmem s + n, freemem := freemem s - n, ram := framed (ram s) a n\<rparr>)"
proof -
  have "sub64 (add64 a n) 64 = a + n - 64"
    using assms(1,2) by (simp add: add64_small sub64_small)
  then show ?thesis
    using assms
    by (simp add: finish_alloc_def framed_def memset_eq VMM_REDZONE_SIZE_def add64_small sub64_small)
qed

lemma heap_ok_finish:
  assumes "heap_rep s xs" and "blocks_ok (blocks_of s xs)"
    and "u = used_bytes (blocks_of s xs)" and "f = free_bytes (blocks_of s xs)"
    and "16 dvd heap_base s" and "0 < heap_base s" and "heap_base s + total_len (blocks_of s xs) < 2 ^ 64"
  shows "heap_ok (s\<lparr>usedmem := u, freemem := f, ram := m\<rparr>) xs"
  using assms by (simp add: heap_ok_def)

section \<open>Allocation\<close>

lemma blk_set_label [simp]: "blk (set_link s i (\<lambda>k. k\<lparr>lfile := f, lline := l\<rparr>)) = blk s"
  by (rule ext) (simp add: blk_def)

lemma heap_rep_set_label [simp]:
  "heap_rep s xs \<Longrightarrow> heap_rep (set_link s i (\<lambda>k. k\<lparr>lfile := f, lline := l\<rparr>)) xs"
  by (rule heap_rep_set_link) simp_all

lemma allocate_full:
  assumes rep: "heap_rep s (ys @ l # zs)" and "free (links s l)" and n: "n < llen (links s l)"
    and len: "llen (links s l) < 2 ^ 64" and full: "length (ys @ l # zs) = 64"
  shows "allocate_into_free s l n 0 = Inl (Fatal ''Kifogyott a vmm bitmap!'')"
proof -
  have "heap_rep (set_link s l (\<lambda>k. k\<lparr>free := False\<rparr>)) (ys @ l # zs)"
    using rep by (rule heap_rep_set_link) simp_all
  then have "create_link (set_link s l (\<lambda>k. k\<lparr>free := False\<rparr>)) = Inl (Fatal ''Kifogyott a vmm bitmap!'')"
    using full by (rule create_link_full)
  moreover have "\<not> llen (links s l) < n" "sub64 (llen (links s l)) n = llen (links s l) - n"
    "sub64 (llen (links s l) - n) 0 = llen (links s l) - n" "llen (links s l) - n \<noteq> 0"
    using n len by (simp_all add: sub64_small)
  ultimately show ?thesis
    using assms(2) by (simp add: allocate_into_free_def Let_def)
qed

lemma allocate_step:
  assumes rep: "heap_rep s (ys @ l # zs)" and fr: "free (links s l)" and n: "n \<le> llen (links s l)"
    and len: "llen (links s l) < 2 ^ 64"
    and room: "llen (links s l) = n \<or> length (ys @ l # zs) < 64"
  obtains r s' xs' where "allocate_into_free s l n 0 = Inr (r, s')" and "heap_rep s' xs'" and "same_rest s s'"
    and "blocks_of s' xs' = blocks_of s ys @ (n, False) #
      (if llen (links s l) = n then blocks_of s zs else (llen (links s l) - n, True) # blocks_of s zs)"
proof (cases "llen (links s l) = n")
  case True
  let ?s' = "set_link s l (\<lambda>k. k\<lparr>free := False\<rparr>)"
  have d: "distinct (ys @ l # zs)" using rep by (simp add: heap_rep_def)
  have "allocate_into_free s l n 0 = Inr (l, ?s')"
    using rep fr True len by (intro allocate_exact) auto
  moreover have "heap_rep ?s' (ys @ l # zs)"
    using rep by (rule heap_rep_set_link) simp_all
  moreover have "blocks_of ?s' (ys @ l # zs) = blocks_of s ys @ (n, False) # blocks_of s zs"
    using d True by (auto simp: blk_set_link)
  ultimately show thesis using True by (intro that [of l ?s' "ys @ l # zs"]) simp_all
next
  case False
  then have "n < llen (links s l)" "length (ys @ l # zs) < 64" using n room by auto
  then obtain new s' where "allocate_into_free s l n 0 = Inr (new, s')" "heap_rep s' (ys @ l # new # zs)"
    "same_rest s s'" "blocks_of s' ys = blocks_of s ys" "blocks_of s' zs = blocks_of s zs"
    "blk s' l = (n, False)" "blk s' new = (llen (links s l) - n, True)"
    using allocate_split [OF rep fr _ len] by blast
  then show thesis
    using False by (intro that [of new s' "ys @ l # new # zs"]) simp_all
qed

text \<open>What an allocation of \<open>n\<close> bytes in the block at position \<open>ys\<close> comes to.\<close>

lemma alloc_placed:
  assumes ok: "heap_ok s (ys @ i # zs)" and P: "free (links s i)" "n \<le> llen (links s i)"
    and n: "16 dvd n" "144 \<le> n" and room: "llen (links s i) = n \<or> length (ys @ i # zs) < 64"
  obtains s' xs' where "rbind (allocate_into_free s i n 0) (\<lambda>(_, t).
        Inr (finish_alloc (set_link t i (\<lambda>k. k\<lparr>lfile := Some fname, lline := lno\<rparr>))
          (heap_base s + total_len (blocks_of s ys)) n)) =
      Inr (heap_base s + total_len (blocks_of s ys) + 64, s')"
    and "heap_ok s' xs'" and "heap_base s' = heap_base s" and "mtx s' = mtx s"
    and "blocks_of s' xs' = blocks_of s ys @ (n, False) #
      (if llen (links s i) = n then blocks_of s zs else (llen (links s i) - n, True) # blocks_of s zs)"
    and "ram s' = framed (ram s) (heap_base s + total_len (blocks_of s ys)) n"
proof -
  let ?rest = "if llen (links s i) = n then blocks_of s zs else (llen (links s i) - n, True) # blocks_of s zs"
  have rep: "heap_rep s (ys @ i # zs)" and bok: "blocks_ok (blocks_of s ys @ (llen (links s i), True) # blocks_of s zs)"
    and u: "usedmem s = used_bytes (blocks_of s (ys @ i # zs))" "freemem s = free_bytes (blocks_of s (ys @ i # zs))"
      "heap_base s + total_len (blocks_of s (ys @ i # zs)) < 2 ^ 64" "16 dvd heap_base s" "0 < heap_base s"
    using ok P(1) by (simp_all add: heap_ok_def blk_def)
  have len: "llen (links s i) < 2 ^ 64" using heap_ok_room [OF ok] by simp
  obtain r s1 xs' where al: "allocate_into_free s i n 0 = Inr (r, s1)" and rep1: "heap_rep s1 xs'"
    and same: "same_rest s s1" and bl: "blocks_of s1 xs' = blocks_of s ys @ (n, False) # ?rest"
    using allocate_step [OF rep P len room] by blast
  let ?s2 = "set_link s1 i (\<lambda>k. k\<lparr>lfile := Some fname, lline := lno\<rparr>)"
  let ?s' = "?s2\<lparr>usedmem := usedmem s + n, freemem := freemem s - n,
    ram := framed (ram s) (heap_base s + total_len (blocks_of s ys)) n\<rparr>"
  have uf: "usedmem s + freemem s < 2 ^ 64" "n \<le> freemem s"
    using u used_plus_free [of "blocks_of s (ys @ i # zs)"] P by (simp_all add: blk_def)
  have "finish_alloc ?s2 (heap_base s + total_len (blocks_of s ys)) n =
      (heap_base s + total_len (blocks_of s ys) + 64, ?s')"
    using same uf n heap_ok_room [OF ok] P(2) by (subst finish_alloc_eq) (simp_all add: same_rest_def)
  moreover have "heap_base s1 = heap_base s" using same by (simp add: same_rest_def)
  moreover have "heap_ok ?s' xs'"
  proof (rule heap_ok_finish)
    show "blocks_ok (blocks_of ?s2 xs')"
      using blocks_ok_split [OF bok n P(2)] bl by simp
  qed (use rep1 u P same bl in \<open>simp_all add: same_rest_def blk_def\<close>)
  ultimately show thesis
    using al bl same by (intro that [of ?s' xs']) (simp_all add: same_rest_def)
qed

lemma alloc_refines:
  assumes ok: "heap_ok s xs" and bytes: "0 < bytes" "bytes \<le> 2 ^ 63"
  shows "case first_fit (mm_size bytes) (blocks_of s xs) of
      None \<Rightarrow> alloc_nomutex s bytes fname lno = Inl Undefined
    | Some (off, bs') \<Rightarrow>
        if length bs' \<le> 64
        then \<exists>s' xs'. alloc_nomutex s bytes fname lno = Inr (heap_base s + off + 64, s') \<and> heap_ok s' xs' \<and>
          blocks_of s' xs' = bs' \<and> heap_base s' = heap_base s \<and> mtx s' = mtx s \<and>
          ram s' = framed (ram s) (heap_base s + off) (mm_size bytes)
        else alloc_nomutex s bytes fname lno = Inl (Fatal ''Kifogyott a vmm bitmap!'')"
proof -
  let ?n = "mm_size bytes" and ?P = "\<lambda>i (a :: nat). free (links s i) \<and> mm_size bytes \<le> llen (links s i)"
  note sz = mm_size_props [OF bytes(2)] and n = mm_size_props(5) [OF bytes(2,1)]
  have rep: "heap_rep s xs" and room: "heap_base s + offset (\<lambda>i. llen (links s i)) xs < 2 ^ 64"
    using ok by (simp_all add: heap_ok_def offset_total)
  obtain l a where w: "walk_list (\<lambda>i. llen (links s i)) ?P xs (heap_base s) = (l, a)" by fastforce
  then have lw: "link_walk s ?P = Inr (l, a)" using link_walk_rep [OF rep] by simp
  show ?thesis
  proof (cases l)
    case None
    have "\<not> ?P x 0" if "x \<in> set xs" for x
      using walk_list_None [OF w [unfolded None] room] split_list [OF that] by blast
    then have "first_fit ?n (blocks_of s xs) = None"
      by (auto simp: first_fit_None_iff blk_def)
    moreover have "alloc_nomutex s bytes fname lno = Inl Undefined"
      using bytes(1) lw None by (simp add: alloc_nomutex_def sz(1))
    ultimately show ?thesis by simp
  next
    case (Some i)
    obtain ys zs where xs: "xs = ys @ i # zs" and a: "a = heap_base s + total_len (blocks_of s ys)"
      and P: "free (links s i)" "?n \<le> llen (links s i)"
      and before: "\<And>us x vs. ys = us @ x # vs \<Longrightarrow> \<not> ?P x 0"
      using walk_list_Some [OF w [unfolded Some] room] by (metis offset_total)
    have b: "\<forall>b \<in> set (blocks_of s ys). \<not> (snd b \<and> ?n \<le> fst b)"
      using before by (auto simp: blk_def dest!: split_list)
    let ?bs = "blocks_of s ys @ (?n, False) #
      (if llen (links s i) = ?n then blocks_of s zs else (llen (links s i) - ?n, True) # blocks_of s zs)"
    have ff: "first_fit ?n (blocks_of s xs) = Some (total_len (blocks_of s ys), ?bs)"
      using first_fit_at [OF b P(2), of "blocks_of s zs"] P(1) by (simp add: xs blk_def)
    have run: "alloc_nomutex s bytes fname lno = rbind (allocate_into_free s i ?n 0) (\<lambda>(_, t).
        Inr (finish_alloc (set_link t i (\<lambda>k. k\<lparr>lfile := Some fname, lline := lno\<rparr>)) a ?n))"
      using bytes(1) lw Some by (simp add: alloc_nomutex_def sz(1) Let_def)
    show ?thesis
    proof (cases "llen (links s i) = ?n \<or> length xs < 64")
      case True
      then have "length ?bs \<le> 64"
        using heap_rep_length [OF rep] by (auto simp: xs)
      with alloc_placed [OF ok [unfolded xs] P sz(2) n True [unfolded xs], where fname = fname and lno = lno] show ?thesis
        unfolding ff run a by (simp only: option.case prod.case if_True) blast
    next
      case False
      then have full: "length xs = 64" "?n < llen (links s i)"
        using heap_rep_length [OF rep] P(2) by auto
      moreover have "llen (links s i) < 2 ^ 64" using heap_ok_room [OF ok [unfolded xs]] by simp
      ultimately have "alloc_nomutex s bytes fname lno = Inl (Fatal ''Kifogyott a vmm bitmap!'')"
        using run allocate_full [OF rep [unfolded xs] P(1)] by (simp add: xs)
      moreover have "\<not> length ?bs \<le> 64"
        using full by (simp add: xs)
      ultimately show ?thesis using ff by simp
    qed
  qed
qed

section \<open>Release\<close>

lemma merge_next_absorb:
  assumes rep: "heap_rep s (ys @ i # zs)" and i: "blk s i = (m, True)"
    and len: "m + total_len (blocks_of s zs) < 2 ^ 64"
  obtains s' zs' where "merge_next s i = Inr s'" and "heap_rep s' (ys @ i # zs')" and "same_rest s s'"
    and "blocks_of s' ys = blocks_of s ys" and "blocks_of s' (i # zs') = absorb_next m (blocks_of s zs)"
proof (cases "\<exists>j zs'. zs = j # zs' \<and> free (links s j)")
  case True
  then obtain j zs' where zs: "zs = j # zs'" and j: "free (links s j)" by blast
  have "free (links s i)" "llen (links s i) + llen (links s j) < 2 ^ 64"
    using i len by (simp_all add: zs blk_def)
  from merge_next_join [OF rep [unfolded zs] this(1) j this(2)] obtain s' where
    "merge_next s i = Inr s'" "heap_rep s' (ys @ i # zs')" "same_rest s s'"
    "blocks_of s' ys = blocks_of s ys" "blocks_of s' zs' = blocks_of s zs'"
    "blk s' i = (llen (links s i) + llen (links s j), True)"
    by blast
  then show thesis
    using i j by (intro that [of s' zs']) (simp_all add: zs absorb_next_def blk_def)
next
  case False
  have nl: "nxt (links s i) = first_of zs None"
    using rep by (simp add: heap_rep_def)
  have "merge_next s i = Inr s"
    using False nl by (cases zs) (simp_all add: merge_next_def)
  moreover have "blocks_of s (i # zs) = absorb_next m (blocks_of s zs)"
    using False i by (cases zs) (simp_all add: absorb_next_def blk_def)
  ultimately show thesis
    using rep by (intro that [of s zs]) simp_all
qed

lemma merge_prev_absorb:
  assumes rep: "heap_rep s (ys @ i # zs)" and i: "blk s i = (m, True)"
    and len: "total_len (blocks_of s ys) + m < 2 ^ 64"
  obtains s' xs' where "merge_prev s i = Inr s'" and "heap_rep s' xs'" and "same_rest s s'"
    and "blocks_of s' xs' = (if ys \<noteq> [] \<and> snd (last (blocks_of s ys))
      then butlast (blocks_of s ys) @ (fst (last (blocks_of s ys)) + m, True) # blocks_of s zs
      else blocks_of s ys @ (m, True) # blocks_of s zs)"
proof (cases "\<exists>ys' p. ys = ys' @ [p] \<and> free (links s p)")
  case True
  then obtain ys' p where ys: "ys = ys' @ [p]" and p: "free (links s p)" by blast
  have "free (links s i)" "llen (links s p) + llen (links s i) < 2 ^ 64"
    using i len by (simp_all add: ys blk_def)
  moreover have "heap_rep s (ys' @ p # i # zs)" using rep by (simp add: ys)
  ultimately obtain s' where
    "merge_prev s i = Inr s'" "heap_rep s' (ys' @ p # zs)" "same_rest s s'"
    "blocks_of s' ys' = blocks_of s ys'" "blocks_of s' zs = blocks_of s zs"
    "blk s' p = (llen (links s p) + llen (links s i), True)"
    using merge_prev_join [of s ys' p i zs] p by blast
  then show thesis
    using i p by (intro that [of s' "ys' @ p # zs"]) (simp_all add: ys blk_def)
next
  case False
  have pl: "prv (links s i) = last_of None ys"
    using rep by (simp add: heap_rep_def)
  have "merge_prev s i = Inr s"
    using False pl by (cases ys rule: rev_cases) (simp_all add: merge_prev_def)
  moreover have "\<not> (ys \<noteq> [] \<and> snd (last (blocks_of s ys)))"
    using False by (cases ys rule: rev_cases) (simp_all add: blk_def)
  ultimately show thesis
    using rep i by (intro that [of s "ys @ i # zs"]) auto
qed

lemma total_absorb: "total_len (absorb_next m bs) = m + total_len bs"
  by (auto simp: absorb_next_def split: list.splits bool.splits)

lemma merge_release:
  assumes rep: "heap_rep s (ys @ i # zs)" and i: "blk s i = (m, True)"
    and len: "total_len (blocks_of s ys) + m + total_len (blocks_of s zs) < 2 ^ 64"
  obtains s' xs' where "merge s i = Inr s'" and "heap_rep s' xs'" and "same_rest s s'"
    and "blocks_of s' xs' = release (blocks_of s ys) m (blocks_of s zs)"
proof -
  have "m + total_len (blocks_of s zs) < 2 ^ 64" using len by simp
  from merge_next_absorb [OF rep i this] obtain s1 zs1 where
    m1: "merge_next s i = Inr s1" "heap_rep s1 (ys @ i # zs1)" "same_rest s s1"
      "blocks_of s1 ys = blocks_of s ys" "blocks_of s1 (i # zs1) = absorb_next m (blocks_of s zs)"
    by blast
  obtain k cs where k: "absorb_next m (blocks_of s zs) = (k, True) # cs"
    using absorb_next_Cons by metis
  then have i1: "blk s1 i = (k, True)" and cs: "blocks_of s1 zs1 = cs"
    using m1(5) by simp_all
  have "total_len (blocks_of s1 ys) + k < 2 ^ 64"
    using len total_absorb [of m "blocks_of s zs"] unfolding k m1(4) by simp
  from merge_prev_absorb [OF m1(2) i1 this, unfolded m1(4) cs] obtain s2 xs2 where
    m2: "merge_prev s1 i = Inr s2" "heap_rep s2 xs2" "same_rest s1 s2"
    and b: "blocks_of s2 xs2 = (if ys \<noteq> [] \<and> snd (last (blocks_of s ys))
      then butlast (blocks_of s ys) @ (fst (last (blocks_of s ys)) + k, True) # cs
      else blocks_of s ys @ (k, True) # cs)"
    by blast
  show thesis
  proof (rule that [OF _ m2(2) same_rest_trans [OF m1(3) m2(3)]])
    show "merge s i = Inr s2" using m1(1) m2(1) by (simp add: merge_def)
    show "blocks_of s2 xs2 = release (blocks_of s ys) m (blocks_of s zs)"
      unfolding b release_eq k by simp
  qed
qed

section \<open>Finding a block by its address\<close>

lemma block_len_pos:
  assumes "heap_ok s xs" and "i \<in> set xs"
  shows "0 < llen (links s i)"
  using assms by (auto simp: heap_ok_def blocks_ok_def block_ok_def blk_def)

lemma walk_list_position:
  assumes ok: "heap_ok s (ys @ i # zs)"
  shows "walk_list (\<lambda>i. llen (links s i)) (\<lambda>i a. a = heap_base s + total_len (blocks_of s ys)) (ys @ i # zs)
      (heap_base s) = (Some i, heap_base s + total_len (blocks_of s ys))"
proof -
  have before: "\<not> (heap_base s + offset (\<lambda>i. llen (links s i)) us = heap_base s + total_len (blocks_of s ys))"
    if "ys = us @ u # vs" for us u vs
  proof -
    have "0 < llen (links s u)" using that by (intro block_len_pos [OF ok]) simp
    then show ?thesis by (simp add: that offset_total blk_def)
  qed
  have "walk_list (\<lambda>i. llen (links s i)) (\<lambda>i a. a = heap_base s + total_len (blocks_of s ys)) (ys @ i # zs)
      (heap_base s) = (Some i, heap_base s + offset (\<lambda>i. llen (links s i)) ys)"
  proof (rule walk_list_stop)
    show "heap_base s + offset (\<lambda>i. llen (links s i)) (ys @ i # zs) < 2 ^ 64"
      using ok by (simp only: heap_ok_def offset_total)
    show "heap_base s + offset (\<lambda>i. llen (links s i)) ys = heap_base s + total_len (blocks_of s ys)"
      by (simp only: offset_total)
  qed (fact before)
  then show ?thesis by (simp only: offset_total)
qed

lemma link_walk_position:
  assumes ok: "heap_ok s (ys @ i # zs)" and p: "p = heap_base s + total_len (blocks_of s ys)"
  shows "link_walk s (\<lambda>i a. a = p) = Inr (Some i, p)"
  using ok walk_list_position [OF ok] link_walk_rep [of s "ys @ i # zs"] by (simp add: heap_ok_def p)

lemma walk_pair_chain:
  "chain L q xs None \<Longrightarrow> length xs < fuel \<Longrightarrow>
   \<exists>j'. walk_pair L p fuel (first_of xs None) j a = Inr (fst (walk_list (\<lambda>i. llen (L i)) (\<lambda>i a. a = p) xs a), j')"
proof (induction xs arbitrary: q fuel a j)
  case Nil
  then show ?case by (cases fuel) simp_all
next
  case (Cons x xs)
  then obtain k where "fuel = Suc k" "length xs < k" by (cases fuel) auto
  with Cons.IH [of "Some x" k "Some x" "add64 a (llen (L x))"] Cons.prems(1) show ?case by auto
qed

lemma user_pointer:
  assumes ok: "heap_ok s (ys @ i # zs)" and p: "p = heap_base s + total_len (blocks_of s ys) + 64"
    and len: "64 \<le> llen (links s i)"
  shows "sub64 p VMM_REDZONE_SIZE = heap_base s + total_len (blocks_of s ys)" and "p \<noteq> 0"
proof -
  have "p < 2 ^ 64" using heap_ok_room [OF ok] p len by linarith
  then show "sub64 p VMM_REDZONE_SIZE = heap_base s + total_len (blocks_of s ys)"
    by (simp add: sub64_small p VMM_REDZONE_SIZE_def)
  show "p \<noteq> 0" using p by simp
qed

lemma walk_pair_position:
  assumes ok: "heap_ok s (ys @ i # zs)" and p: "p = heap_base s + total_len (blocks_of s ys)"
  obtains j where "walk_pair (links s) p (Suc (capacity s)) (first s) (first s) (heap_base s) = Inr (Some i, j)"
proof -
  have rep: "heap_rep s (ys @ i # zs)" using ok by (simp add: heap_ok_def)
  have "chain (links s) None (ys @ i # zs) None" "first s = first_of (ys @ i # zs) None"
    "length (ys @ i # zs) < Suc (capacity s)"
    using rep heap_rep_length [OF rep] unfolding heap_rep_def by linarith+
  then obtain j where "walk_pair (links s) p (Suc (capacity s)) (first s) (first s) (heap_base s) =
      Inr (fst (walk_list (\<lambda>i. llen (links s i)) (\<lambda>i a. a = p) (ys @ i # zs) (heap_base s)), j)"
    using walk_pair_chain by metis
  then show thesis
    using that walk_list_position [OF ok] p by simp
qed

lemma check_unfold:
  assumes ok: "heap_ok s (ys @ i # zs)" and p: "p = heap_base s + total_len (blocks_of s ys) + 64"
    and len: "64 \<le> llen (links s i)"
  obtains j where "walk_pair (links s) (sub64 p VMM_REDZONE_SIZE) (Suc (capacity s)) (first s) (first s) (heap_base s) =
      Inr (Some i, j)"
    and "sub64 p VMM_REDZONE_SIZE = heap_base s + total_len (blocks_of s ys)" and "llen (links s i) \<noteq> NPOS"
    and "sub64 (add64 (heap_base s + total_len (blocks_of s ys)) (llen (links s i))) VMM_REDZONE_SIZE =
      heap_base s + total_len (blocks_of s ys) + llen (links s i) - 64"
proof -
  note r = heap_ok_room [OF ok] and u = user_pointer [OF ok p len]
  have "llen (links s i) \<noteq> NPOS"
    using r ok by (simp add: heap_ok_def NPOS_def)
  moreover have "sub64 (add64 (heap_base s + total_len (blocks_of s ys)) (llen (links s i))) VMM_REDZONE_SIZE =
      heap_base s + total_len (blocks_of s ys) + llen (links s i) - 64"
    using r len by (simp add: add64_small sub64_small VMM_REDZONE_SIZE_def)
  ultimately show thesis
    using walk_pair_position [OF ok u(1)] u that by metis
qed

lemma check_intact:
  assumes ok: "heap_ok s (ys @ i # zs)" and p: "p = heap_base s + total_len (blocks_of s ys) + 64"
    and used: "\<not> free (links s i)"
    and intact: "zones_intact (ram s) (heap_base s + total_len (blocks_of s ys)) (llen (links s i))"
  shows "check (Suc fuel) s p cb ca = Inr ()"
proof -
  have len: "144 \<le> llen (links s i)"
    using ok used by (auto simp: heap_ok_def blocks_ok_def block_ok_def blk_def)
  then have "64 \<le> llen (links s i)" by simp
  moreover have "\<not> llen (links s i) < VMM_MIN_ALLOC + VMM_REDZONE_SIZE * 2"
    using len by (simp add: VMM_REDZONE_SIZE_def VMM_MIN_ALLOC_def)
  moreover have "\<not> memchk (ram s) (heap_base s + total_len (blocks_of s ys)) VMM_REDZONE_MAGIC VMM_REDZONE_SIZE"
    "\<not> memchk (ram s) (heap_base s + total_len (blocks_of s ys) + llen (links s i) - 64) VMM_REDZONE_MAGIC VMM_REDZONE_SIZE"
    using intact by (simp_all add: memchk_iff zones_intact_def VMM_REDZONE_SIZE_def)
  ultimately show ?thesis
    by (elim check_unfold [OF ok p]) (use used in \<open>simp add: Let_def\<close>)
qed

lemma check_damaged:
  assumes ok: "heap_ok s (ys @ i # zs)" and p: "p = heap_base s + total_len (blocks_of s ys) + 64"
    and used: "\<not> free (links s i)"
    and damaged: "\<not> zones_intact (ram s) (heap_base s + total_len (blocks_of s ys)) (llen (links s i))"
  shows "\<exists>h. check (Suc fuel) s p cb ca = Inl h"
proof -
  let ?a = "heap_base s + total_len (blocks_of s ys)"
  have len: "144 \<le> llen (links s i)"
    using ok used by (auto simp: heap_ok_def blocks_ok_def block_ok_def blk_def)
  then have "64 \<le> llen (links s i)" by simp
  from check_unfold [OF ok p this] obtain j where
    w: "walk_pair (links s) (sub64 p VMM_REDZONE_SIZE) (Suc (capacity s)) (first s) (first s) (heap_base s) =
      Inr (Some i, j)"
    and a: "sub64 p VMM_REDZONE_SIZE = ?a" and np: "llen (links s i) \<noteq> NPOS"
    and e: "sub64 (add64 ?a (llen (links s i))) VMM_REDZONE_SIZE = ?a + llen (links s i) - 64"
    by blast
  have "memchk (ram s) ?a VMM_REDZONE_MAGIC VMM_REDZONE_SIZE \<or>
      memchk (ram s) (?a + llen (links s i) - 64) VMM_REDZONE_MAGIC VMM_REDZONE_SIZE"
    using damaged by (auto simp: zones_intact_def memchk_iff VMM_REDZONE_SIZE_def)
  moreover have "\<not> llen (links s i) < VMM_MIN_ALLOC + VMM_REDZONE_SIZE * 2"
    using len by (simp add: VMM_REDZONE_SIZE_def VMM_MIN_ALLOC_def)
  moreover have stuck: "\<exists>h. rbind m (\<lambda>_. Inl Hang) = (Inl h :: unit res)" for m :: "unit res"
    by (cases m) simp_all
  moreover have "\<exists>h. rbind (m :: nat res) (\<lambda>g. if P g then Inl (H g) else if cb then rbind (f g :: unit res) (\<lambda>_. Inl Hang) else Inl Hang) =
      (Inl h :: unit res)" for m P H f
    using stuck by (cases m) auto
  ultimately show ?thesis
    using w a np e used by (auto simp: Let_def split: option.splits)
qed

lemma check_free_block:
  assumes ok: "heap_ok s (ys @ i # zs)" and p: "p = heap_base s + total_len (blocks_of s ys) + 64"
    and "free (links s i)" and "64 \<le> llen (links s i)"
  shows "check (Suc fuel) s p cb ca = Inl (Fatal ''Tried to check a free sector?? %p'')"
  by (rule check_unfold [OF ok p assms(4)]) (use assms(3) in \<open>simp add: Let_def\<close>)

lemma blocks_position:
  assumes "blocks_of s xs = as @ b # cs"
  obtains ys i zs where "xs = ys @ i # zs" and "blocks_of s ys = as" and "blk s i = b" and "blocks_of s zs = cs"
  using assms by (auto simp: map_eq_append_conv map_eq_Cons_conv)

lemma free_refines:
  assumes ok: "heap_ok s xs" and bs: "blocks_of s xs = as @ (m, False) # cs"
    and p: "p = heap_base s + total_len as + 64"
    and intact: "zones_intact (ram s) (heap_base s + total_len as) m"
  shows "\<exists>s' xs'. free_nomutex s p = Inr s' \<and> heap_ok s' xs' \<and> blocks_of s' xs' = release as m cs \<and>
    heap_base s' = heap_base s \<and> mtx s' = mtx s \<and> ram s' = ram s"
proof -
  obtain ys i zs where xs: "xs = ys @ i # zs" and ys: "blocks_of s ys = as" and i: "blk s i = (m, False)"
    and zs: "blocks_of s zs = cs"
    by (rule blocks_position [OF bs])
  note ok' = ok [unfolded xs]
  have li: "llen (links s i) = m" "\<not> free (links s i)" using i by (simp_all add: blk_def)
  have bok: "blocks_ok (as @ (m, False) # cs)" and u: "usedmem s = used_bytes (as @ (m, False) # cs)"
    "freemem s = free_bytes (as @ (m, False) # cs)" "heap_base s + total_len (as @ (m, False) # cs) < 2 ^ 64"
    "16 dvd heap_base s" "0 < heap_base s"
    using ok unfolding heap_ok_def bs by blast+
  have rep: "heap_rep s (ys @ i # zs)"
    using ok' by (simp only: heap_ok_def)
  have len: "64 \<le> m" using bok by (auto simp: blocks_ok_def)
  have p': "p = heap_base s + total_len (blocks_of s ys) + 64" using p ys by simp
  have q: "sub64 p VMM_REDZONE_SIZE = heap_base s + total_len (blocks_of s ys)" "p \<noteq> 0"
    using user_pointer [OF ok' p'] len li by simp_all
  have c: "check check_fuel s p True True = Inr ()"
    using check_intact [OF ok' p' li(2), of 127] intact ys li(1) by (simp add: check_fuel_def)
  have w: "link_walk s (\<lambda>i a. a = sub64 p VMM_REDZONE_SIZE) = Inr (Some i, sub64 p VMM_REDZONE_SIZE)"
    by (rule link_walk_position [OF ok' q(1)])
  have np: "m \<noteq> NPOS" using u by (simp add: NPOS_def)
  let ?s1 = "set_link s i (\<lambda>k. k\<lparr>lfile := None, lline := 0\<rparr>)"
  let ?s2 = "?s1\<lparr>usedmem := usedmem s - m, freemem := freemem s + m\<rparr>"
  let ?s3 = "set_link ?s2 i (\<lambda>k. k\<lparr>free := True\<rparr>)"
  have "sub64 (usedmem s) m = usedmem s - m" "add64 (freemem s) m = freemem s + m"
    using u used_plus_free [of "as @ cs"] by (simp_all add: sub64_small add64_small)
  then have run: "free_nomutex s p = merge ?s3 i"
    using c q(2) w np li by (simp add: free_nomutex_def Let_def)
  have d: "distinct (ys @ i # zs)" using rep by (simp add: heap_rep_def)
  have rep3: "heap_rep ?s3 (ys @ i # zs)"
    by (intro heap_rep_set_link) (use rep in simp_all)
  have b3: "blk ?s3 i = (m, True)" "blocks_of ?s3 ys = as" "blocks_of ?s3 zs = cs"
    using d li ys zs by (auto simp: blk_set_link)
  have "total_len (blocks_of ?s3 ys) + m + total_len (blocks_of ?s3 zs) < 2 ^ 64"
    unfolding b3 using u(3) by simp
  from merge_release [OF rep3 b3(1) this, unfolded b3] obtain s' xs' where
    m: "merge ?s3 i = Inr s'" "heap_rep s' xs'" "same_rest ?s3 s'" "blocks_of s' xs' = release as m cs"
    by blast
  have "heap_ok s' xs'"
    using m release_ok [OF bok] u by (simp add: heap_ok_def same_rest_def)
  with run m show ?thesis by (auto simp: same_rest_def)
qed

lemma locked_eq:
  assumes "mtx s = 0"
  shows "locked s f = rbind (f (s\<lparr>mtx := 1\<rparr>)) (\<lambda>(x, t). Inr (x, t\<lparr>mtx := 0\<rparr>))"
  using assms by (simp add: locked_def)

lemma links_mtx: "links (s\<lparr>mtx := l\<rparr>) = links s" and heap_base_mtx: "heap_base (s\<lparr>mtx := l\<rparr>) = heap_base s"
  and ram_mtx: "ram (s\<lparr>mtx := l\<rparr>) = ram s"
  by simp_all

lemma heap_ok_mtx [simp]: "heap_ok (s\<lparr>mtx := l\<rparr>) xs = heap_ok s xs"
  by (simp add: heap_ok_def)

end
