(* ===== verification/HeapProps.thy ===== *)
theory HeapProps
  imports Heap
begin

text \<open>
  What the kernel heap promises its callers: \<^verbatim>\<open>alloc\<close> is first fit, \<^verbatim>\<open>free\<close> undoes it, red zones are
  written and checked, and what goes wrong at the edges.
\<close>

section \<open>Shared facts\<close>

text \<open>A small heap for the examples: one free block of 4096 bytes at \<^verbatim>\<open>0x10000\<close>.\<close>

definition tiny_heap :: memmgr where
  "tiny_heap =
     \<lparr>links = (\<lambda>_. null_link)(0 := \<lparr>nxt = None, prv = None, lfile = None, lline = 0, llen = 4096, free = True\<rparr>),
      first = Some 0, bm = \<lparr>buffer = [1], sz = 64\<rparr>, capacity = 85, usedmem = 0, freemem = 4096,
      heap_base = 0x10000, mtx = 0, ram = (\<lambda>_. 0)\<rparr>"

lemma tiny_heap_ok: "heap_ok tiny_heap [0]" and tiny_heap_blocks: "blocks_of tiny_heap [0] = [(4096, True)]"
  and tiny_heap_mtx: "mtx tiny_heap = 0" and tiny_heap_base: "heap_base tiny_heap = 0x10000"
  by (auto simp: heap_ok_def heap_rep_def tiny_heap_def blk_def blocks_ok_def bitmap_wf_def bits_def bit_1_iff)

lemma alloc_eq:
  assumes "mtx s = 0"
  shows "alloc s bytes fname lno = rbind (alloc_nomutex (s\<lparr>mtx := 1\<rparr>) bytes fname lno) (\<lambda>(p, t). Inr (p, t\<lparr>mtx := 0\<rparr>))"
  by (simp add: alloc_def locked_eq [OF assms])

lemma mm_free_eq:
  assumes "mtx s = 0"
  shows "mm_free s p = rbind (free_nomutex (s\<lparr>mtx := 1\<rparr>) p) (\<lambda>t. Inr ((), t\<lparr>mtx := 0\<rparr>))"
  by (cases "free_nomutex (s\<lparr>mtx := 1\<rparr>) p") (simp_all add: mm_free_def locked_eq [OF assms])

lemma alloc_cases:
  assumes ok: "heap_ok s xs" and m: "mtx s = 0" and bytes: "0 < bytes" "bytes \<le> 2 ^ 63"
  shows "case first_fit (mm_size bytes) (blocks_of s xs) of
      None \<Rightarrow> alloc s bytes fname lno = Inl Undefined
    | Some (off, bs') \<Rightarrow>
        if length bs' \<le> 64
        then \<exists>s' xs'. alloc s bytes fname lno = Inr (heap_base s + off + 64, s') \<and> heap_ok s' xs' \<and>
          blocks_of s' xs' = bs' \<and> heap_base s' = heap_base s \<and> mtx s' = 0 \<and>
          ram s' = framed (ram s) (heap_base s + off) (mm_size bytes)
        else alloc s bytes fname lno = Inl (Fatal ''Kifogyott a vmm bitmap!'')"
proof -
  have "heap_ok (s\<lparr>mtx := 1\<rparr>) xs" using ok by simp
  note r = alloc_refines [OF this bytes, of fname lno]
  show ?thesis
  proof (cases "first_fit (mm_size bytes) (blocks_of s xs)")
    case None
    with r show ?thesis by (simp add: alloc_eq [OF m])
  next
    case (Some q)
    obtain off bs' where q: "q = (off, bs')" by (cases q)
    show ?thesis
    proof (cases "length bs' \<le> 64")
      case True
      with r Some q obtain t xs' where t: "alloc_nomutex (s\<lparr>mtx := 1\<rparr>) bytes fname lno = Inr (heap_base s + off + 64, t)"
        "heap_ok t xs'" "blocks_of t xs' = bs'" "heap_base t = heap_base s"
        "ram t = framed (ram s) (heap_base s + off) (mm_size bytes)"
        by auto
      then have "alloc s bytes fname lno = Inr (heap_base s + off + 64, t\<lparr>mtx := 0\<rparr>)"
        by (simp add: alloc_eq [OF m])
      with t True Some q show ?thesis
        by (simp, intro exI [of _ "t\<lparr>mtx := 0\<rparr>"] exI [of _ xs'], simp)
    next
      case False
      with r Some q show ?thesis by (simp add: alloc_eq [OF m])
    qed
  qed
qed

lemma free_cases:
  assumes ok: "heap_ok s xs" and m: "mtx s = 0" and bs: "blocks_of s xs = as @ (k, False) # cs"
    and p: "p = heap_base s + total_len as + 64"
    and intact: "zones_intact (ram s) (heap_base s + total_len as) k"
  shows "\<exists>s' xs'. mm_free s p = Inr ((), s') \<and> heap_ok s' xs' \<and> blocks_of s' xs' = release as k cs \<and>
    heap_base s' = heap_base s \<and> mtx s' = 0 \<and> ram s' = ram s"
proof -
  have "\<exists>t xs'. free_nomutex (s\<lparr>mtx := 1\<rparr>) p = Inr t \<and> heap_ok t xs' \<and> blocks_of t xs' = release as k cs \<and>
      heap_base t = heap_base (s\<lparr>mtx := 1\<rparr>) \<and> mtx t = mtx (s\<lparr>mtx := 1\<rparr>) \<and> ram t = ram (s\<lparr>mtx := 1\<rparr>)"
    using ok bs p intact by (intro free_refines) simp_all
  then obtain t xs' where "free_nomutex (s\<lparr>mtx := 1\<rparr>) p = Inr t" "heap_ok t xs'"
    "blocks_of t xs' = release as k cs" "heap_base t = heap_base s" "ram t = ram s"
    by auto
  then show ?thesis
    by (intro exI [of _ "t\<lparr>mtx := 0\<rparr>"] exI [of _ xs']) (simp add: mm_free_eq [OF m])
qed

section \<open>Properties\<close>

text \<open>C3: On a well-formed heap \<^verbatim>\<open>alloc\<close> behaves as first fit on the list of blocks: it returns the address
  behind the first red zone of the block that first fit picks, the heap is well-formed again with
  exactly that list and accounting, and memory changes only in the two red zones of the new block.
  It stops the kernel when the split would need a 65th block, and dereferences null when no block
  is large enough.\<close>

theorem alloc_first_fit:
  assumes "heap_ok s xs" and "mtx s = 0" and "0 < bytes" and "bytes \<le> 2 ^ 63"
  shows "case first_fit (mm_size bytes) (blocks_of s xs) of
      None \<Rightarrow> alloc s bytes fname lno = Inl Undefined
    | Some (off, bs') \<Rightarrow>
        if length bs' \<le> 64
        then \<exists>s' xs'. alloc s bytes fname lno = Inr (heap_base s + off + 64, s') \<and>
          heap_ok s' xs' \<and> mtx s' = 0 \<and> heap_base s' = heap_base s \<and> blocks_of s' xs' = bs' \<and>
          usedmem s' = usedmem s + mm_size bytes \<and> freemem s' = freemem s - mm_size bytes \<and>
          zones_intact (ram s') (heap_base s + off) (mm_size bytes) \<and>
          (\<forall>x. x < heap_base s + off \<or> heap_base s + off + 64 \<le> x \<and> x < heap_base s + off + mm_size bytes - 64 \<or>
             heap_base s + off + mm_size bytes \<le> x \<longrightarrow> ram s' x = ram s x)
        else alloc s bytes fname lno = Inl (Fatal ''Kifogyott a vmm bitmap!'')"
proof (cases "first_fit (mm_size bytes) (blocks_of s xs)")
  case None
  with alloc_cases [OF assms, of fname lno] show ?thesis by simp
next
  case (Some q)
  obtain off bs' where q: "q = (off, bs')" by (cases q)
  note n = mm_size_props(2,5) [OF assms(4)]
  have n': "128 \<le> mm_size bytes" using n(2) [OF assms(3)] by simp
  have bok: "blocks_ok (blocks_of s xs)" using assms(1) by (simp add: heap_ok_def)
  note ff = first_fit_ok [OF bok n(1) n(2) [OF assms(3)] Some [unfolded q]]
  have "usedmem s' = usedmem s + mm_size bytes \<and> freemem s' = freemem s - mm_size bytes"
    if "heap_ok s' xs'" "blocks_of s' xs' = bs'" for s' xs'
    using that assms(1) ff(3,4) by (simp add: heap_ok_def)
  note acc = this and zones = framed_intact [of "mm_size bytes"] framed_outside [OF n'] framed_inside [OF n']
  show ?thesis
  proof (cases "length bs' \<le> 64")
    case True
    with alloc_cases [OF assms, of fname lno] obtain s' xs' where
      "alloc s bytes fname lno = Inr (heap_base s + off + 64, s')" "heap_ok s' xs'" "blocks_of s' xs' = bs'"
      "heap_base s' = heap_base s" "mtx s' = 0" "ram s' = framed (ram s) (heap_base s + off) (mm_size bytes)"
      by (auto simp: Some q)
    with acc zones n' True show ?thesis
      unfolding Some q by (simp, intro exI [of _ s'] exI [of _ xs'], auto)
  next
    case False
    with alloc_cases [OF assms, of fname lno] show ?thesis by (simp add: Some q)
  qed
qed

theorem alloc_first_fit_witness:
  "\<exists>s' i j. alloc tiny_heap 100 ''main.cc'' 7 = Inr (0x10040, s') \<and> heap_ok s' [i, j] \<and>
     blk s' i = (240, False) \<and> blk s' j = (3856, True) \<and> usedmem s' = 240 \<and> zones_intact (ram s') 0x10000 240"
proof -
  have n: "mm_size 100 = 240"
    by (simp add: mm_size_def align64_def add64_def sub64_def mul64_def)
  have u: "usedmem tiny_heap = 0" by (simp add: tiny_heap_def)
  have "(0::nat) < 100" "(100::nat) \<le> 2 ^ 63" by simp_all
  from alloc_first_fit [OF tiny_heap_ok tiny_heap_mtx this, of "''main.cc''" 7] show ?thesis
    unfolding tiny_heap_blocks n tiny_heap_base u by auto
qed

text \<open>C4: Freeing an allocated block whose red zones are intact returns, marks the block free and joins
  it with free neighbours on both sides; the heap stays well-formed, in particular no two free
  blocks are adjacent, and memory does not change.\<close>

theorem free_coalesces:
  assumes "heap_ok s xs" and "mtx s = 0" and "blocks_of s xs = as @ (k, False) # cs"
    and "zones_intact (ram s) (heap_base s + total_len as) k"
  shows "\<exists>s' xs'. mm_free s (heap_base s + total_len as + 64) = Inr ((), s') \<and> heap_ok s' xs' \<and> mtx s' = 0 \<and>
    blocks_of s' xs' = release as k cs \<and> separated (blocks_of s' xs') \<and>
    usedmem s' = usedmem s - k \<and> freemem s' = freemem s + k \<and> ram s' = ram s"
proof -
  obtain s' xs' where r: "mm_free s (heap_base s + total_len as + 64) = Inr ((), s')" "heap_ok s' xs'"
    "blocks_of s' xs' = release as k cs" "mtx s' = 0" "ram s' = ram s"
    using free_cases [OF assms(1-3) refl assms(4)] by blast
  have "blocks_ok (as @ (k, False) # cs)" using assms(1,3) by (simp add: heap_ok_def)
  note f = release_ok [OF this]
  have "usedmem s = used_bytes (as @ (k, False) # cs)" "freemem s = free_bytes (as @ (k, False) # cs)"
    using assms(1) unfolding heap_ok_def assms(3) [symmetric] by blast+
  moreover have "usedmem s' = used_bytes (release as k cs)" "freemem s' = free_bytes (release as k cs)"
    using r(2) unfolding heap_ok_def r(3) by blast+
  moreover have "separated (blocks_of s' xs')"
    using f(1) r(3) by (simp add: blocks_ok_def)
  ultimately show ?thesis
    using r f(3,4) by (intro exI [of _ s'] exI [of _ xs']) simp
qed

text \<open>C5: Freeing what \<^verbatim>\<open>alloc\<close> returned, with the red zones untouched, gives back the very list of blocks
  and the accounting from before the allocation.\<close>

theorem alloc_free_roundtrip:
  assumes "heap_ok s xs" and "mtx s = 0" and "0 < bytes" and "bytes \<le> 2 ^ 63"
    and "alloc s bytes fname lno = Inr (p, s1)"
  shows "\<exists>s2 xs2. mm_free s1 p = Inr ((), s2) \<and> heap_ok s2 xs2 \<and> blocks_of s2 xs2 = blocks_of s xs \<and>
    usedmem s2 = usedmem s \<and> freemem s2 = freemem s"
proof -
  obtain off bs' where q: "first_fit (mm_size bytes) (blocks_of s xs) = Some (off, bs')"
    using alloc_cases [OF assms(1-4), of fname lno] assms(5) by (cases "first_fit (mm_size bytes) (blocks_of s xs)") auto
  then obtain xs1 where s1: "p = heap_base s + off + 64" "heap_ok s1 xs1" "blocks_of s1 xs1 = bs'"
    "heap_base s1 = heap_base s" "mtx s1 = 0" "ram s1 = framed (ram s) (heap_base s + off) (mm_size bytes)"
    using alloc_cases [OF assms(1-4), of fname lno] assms(5) by (auto split: if_splits)
  obtain as m cs where f: "blocks_of s xs = as @ (m, True) # cs" "mm_size bytes \<le> m" "off = total_len as"
    "bs' = as @ (mm_size bytes, False) # (if m = mm_size bytes then cs else (m - mm_size bytes, True) # cs)"
    by (rule first_fit_cases [OF q])
  have n: "64 \<le> mm_size bytes" using mm_size_props(5) [OF assms(4,3)] by simp
  have "zones_intact (ram s1) (heap_base s1 + total_len as) (mm_size bytes)"
    using framed_intact [OF n] s1 f(3) by simp
  then obtain s2 xs2 where r: "mm_free s1 p = Inr ((), s2)" "heap_ok s2 xs2"
    "blocks_of s2 xs2 = release as (mm_size bytes) (if m = mm_size bytes then cs else (m - mm_size bytes, True) # cs)"
    using free_cases [OF s1(2,5), of as "mm_size bytes" _ p] s1 f by auto
  have "blocks_ok (as @ (m, True) # cs)" using assms(1) unfolding heap_ok_def f(1) by blast
  then have b: "blocks_of s2 xs2 = blocks_of s xs"
    unfolding r(3) f(1) by (rule release_first_fit) (rule f(2))
  then have "usedmem s2 = usedmem s" "freemem s2 = freemem s"
    using r(2) assms(1) unfolding heap_ok_def by simp_all
  with r b show ?thesis by blast
qed

text \<open>The state after one allocation in the small heap.\<close>

lemma tiny_alloc:
  obtains s' i j where "alloc tiny_heap 100 ''main.cc'' 7 = Inr (0x10040, s')" and "heap_ok s' [i, j]"
    and "blk s' i = (240, False)" and "blk s' j = (3856, True)" and "heap_base s' = 0x10000" and "mtx s' = 0"
    and "ram s' = framed (ram tiny_heap) 0x10000 240"
proof -
  have n: "mm_size 100 = 240"
    by (simp add: mm_size_def align64_def add64_def sub64_def mul64_def)
  have "(0::nat) < 100" "(100::nat) \<le> 2 ^ 63" by simp_all
  from alloc_cases [OF tiny_heap_ok tiny_heap_mtx this, of "''main.cc''" 7] show thesis
    unfolding tiny_heap_blocks n tiny_heap_base by (auto intro: that)
qed

theorem free_coalesces_witness:
  "\<exists>s s' xs'. alloc tiny_heap 100 ''main.cc'' 7 = Inr (0x10040, s) \<and> mm_free s 0x10040 = Inr ((), s') \<and>
     heap_ok s' xs' \<and> blocks_of s' xs' = [(4096, True)]"
proof -
  obtain s i j where s: "alloc tiny_heap 100 ''main.cc'' 7 = Inr (0x10040, s)" "heap_ok s [i, j]"
    "blk s i = (240, False)" "blk s j = (3856, True)" "heap_base s = 0x10000" "mtx s = 0"
    "ram s = framed (ram tiny_heap) 0x10000 240"
    by (rule tiny_alloc)
  have b: "blocks_of s [i, j] = [] @ (240, False) # [(3856, True)]" using s by simp
  have z: "zones_intact (ram s) (heap_base s + total_len []) 240"
    using framed_intact [of 240] s by simp
  have r: "release [] 240 [(3856, True)] = [(4096, True)]"
    by (simp add: release_def absorb_next_def)
  have p: "heap_base s + total_len [] + 64 = 0x10040" using s(5) by simp
  obtain s' xs' where "mm_free s 0x10040 = Inr ((), s')" "heap_ok s' xs'" "blocks_of s' xs' = [(4096, True)]"
    using free_coalesces [OF s(2,6) b z] unfolding r p by (elim exE conjE) (rule that)
  with s(1) show ?thesis by (intro exI conjI)
qed

theorem alloc_free_roundtrip_witness:
  "\<exists>s1 s2 xs2. alloc tiny_heap 100 ''main.cc'' 7 = Inr (0x10040, s1) \<and> mm_free s1 0x10040 = Inr ((), s2) \<and>
     heap_ok s2 xs2 \<and> blocks_of s2 xs2 = blocks_of tiny_heap [0] \<and> usedmem s2 = 0"
proof -
  obtain s1 where s: "alloc tiny_heap 100 ''main.cc'' 7 = Inr (0x10040, s1)"
    using tiny_alloc by metis
  have u: "usedmem tiny_heap = 0" by (simp add: tiny_heap_def)
  have "(0::nat) < 100" "(100::nat) \<le> 2 ^ 63" by simp_all
  from alloc_free_roundtrip [OF tiny_heap_ok tiny_heap_mtx this s] obtain s2 xs2 where
    "mm_free s1 0x10040 = Inr ((), s2)" "heap_ok s2 xs2" "blocks_of s2 xs2 = blocks_of tiny_heap [0]" "usedmem s2 = 0"
    unfolding u by (elim exE conjE) (rule that)
  with s show ?thesis by (intro exI conjI)
qed

text \<open>The heap never frees a damaged or a free block: \<^verbatim>\<open>free\<close> on an allocated block with a changed byte in
  either red zone does not return, and on a block that is already free it stops with an error.\<close>

theorem free_detects_damage:
  assumes "heap_ok s xs" and "mtx s = 0" and "blocks_of s xs = as @ (k, f) # cs" and "64 \<le> k"
    and "f \<or> \<not> zones_intact (ram s) (heap_base s + total_len as) k"
  shows "\<exists>h. mm_free s (heap_base s + total_len as + 64) = Inl h \<and>
    (f \<longrightarrow> h = Fatal ''Tried to check a free sector?? %p'')"
proof -
  let ?s = "s\<lparr>mtx := 1\<rparr>" and ?p = "heap_base s + total_len as + 64"
  obtain ys i zs where xs: "xs = ys @ i # zs" and ys: "blocks_of s ys = as" and i: "blk s i = (k, f)"
    by (rule blocks_position [OF assms(3)])
  have ok: "heap_ok ?s (ys @ i # zs)" and p: "?p = heap_base ?s + total_len (blocks_of ?s ys) + 64"
    and len: "64 \<le> llen (links ?s i)"
    using assms(1,4) xs ys i by (simp_all add: blk_def)
  have "\<exists>h. check check_fuel ?s ?p True True = Inl h \<and> (f \<longrightarrow> h = Fatal ''Tried to check a free sector?? %p'')"
  proof (cases f)
    case True
    then show ?thesis
      using check_free_block [OF ok p _ len, of 127] i by (simp add: blk_def check_fuel_def)
  next
    case False
    then show ?thesis
      using check_damaged [OF ok p, of 127 True True] i ys assms(5) by (simp add: blk_def check_fuel_def)
  qed
  moreover have "?p \<noteq> 0" by simp
  ultimately show ?thesis
    by (auto simp: mm_free_eq [OF assms(2)] free_nomutex_def)
qed

theorem free_detects_damage_witness:
  "mm_free tiny_heap 0x10040 = Inl (Fatal ''Tried to check a free sector?? %p'')"
  using free_detects_damage [OF tiny_heap_ok tiny_heap_mtx, of "[]" 4096 True "[]"] tiny_heap_blocks tiny_heap_base
  by simp

text \<open>\<^verbatim>\<open>realloc\<close> of a null pointer does not do what \<^verbatim>\<open>realloc\<close> means: it allocates a block and then
  returns null, so that the caller never learns the address and the block stays allocated.\<close>

theorem realloc_null_leaks:
  assumes "heap_ok s xs" and "mtx s = 0" and "0 < bytes" and "bytes \<le> 2 ^ 63"
    and "alloc s bytes fname lno = Inr (p, s1)"
  shows "mm_realloc s 0 bytes fname lno = Inr (0, s1) \<and> p \<noteq> 0 \<and> usedmem s1 = usedmem s + mm_size bytes"
proof -
  obtain off bs' where q: "first_fit (mm_size bytes) (blocks_of s xs) = Some (off, bs')"
    using alloc_cases [OF assms(1-4), of fname lno] assms(5) by (cases "first_fit (mm_size bytes) (blocks_of s xs)") auto
  then obtain xs1 where s1: "p = heap_base s + off + 64" "heap_ok s1 xs1" "blocks_of s1 xs1 = bs'"
    using alloc_cases [OF assms(1-4), of fname lno] assms(5) by (auto split: if_splits)
  have "blocks_ok (blocks_of s xs)" "usedmem s = used_bytes (blocks_of s xs)" "usedmem s1 = used_bytes bs'"
    using assms(1) s1(2) unfolding heap_ok_def s1(3) by blast+
  moreover note first_fit_ok(3) [OF this(1) mm_size_props(2,5) [OF assms(4)] q]
  ultimately have "usedmem s1 = usedmem s + mm_size bytes" using assms(3) by simp
  moreover have "try_realloc s 0 bytes fname lno = Inr (True, s1)"
    using assms(2,5) s1(1)
    by (auto simp: try_realloc_def alloc_eq locked_eq rbind_assoc elim!: rbindE)
  ultimately show ?thesis using s1(1) by (simp add: mm_realloc_def)
qed

theorem realloc_null_leaks_witness:
  "\<exists>s1. mm_realloc tiny_heap 0 100 ''main.cc'' 7 = Inr (0, s1) \<and> usedmem s1 = mm_size 100"
proof -
  obtain s1 where s: "alloc tiny_heap 100 ''main.cc'' 7 = Inr (0x10040, s1)"
    using tiny_alloc by metis
  have "usedmem tiny_heap = 0" by (simp add: tiny_heap_def)
  with realloc_null_leaks [OF tiny_heap_ok tiny_heap_mtx _ _ s] show ?thesis by auto
qed

end
