(* ===== verification/HeapAligned.thy ===== *)
theory HeapAligned
  imports HeapProps
begin

text \<open>
  \<^verbatim>\<open>alloc_aligned\<close>: the block that is chosen, the split into up to three blocks, and what happens when
  none is found.
\<close>

section \<open>Splitting a block at both ends\<close>

lemma heap_rep_insert_before:
  assumes rep: "heap_rep s (as @ l # bs)" and new: "a \<notin> set (as @ l # bs)" "a < 64"
    and b: "bitmap_wf b" "sz b = 64" "bits b = (bits (bm s))(a := True)"
    and L: "\<And>as' j. as = as' @ [j] \<Longrightarrow> nxt (L j) = Some a \<and> prv (L j) = prv (links s j) \<and> (\<forall>i \<in> set as'. L i = links s i)"
      "prv (L a) = prv (links s l)" "nxt (L a) = Some l" "prv (L l) = Some a" "nxt (L l) = nxt (links s l)"
      "\<And>i. i \<in> set bs \<Longrightarrow> L i = links s i"
    and s': "links s' = L" "first s' = (if as = [] then Some a else first s)" "bm s' = b" "capacity s' = capacity s"
  shows "heap_rep s' (as @ a # l # bs)"
proof -
  have "chain L (Some l) bs None"
    using rep L(6) by (subst chain_cong [of _ _ "links s"]) (auto simp: heap_rep_def)
  moreover have "chain L None as (Some a)"
  proof (cases as rule: rev_cases)
    case (snoc as' j)
    moreover from this have "chain L None as' (Some j)"
      using rep L(1) by (subst chain_cong [of _ _ "links s"]) (auto simp: heap_rep_def)
    ultimately show ?thesis using rep L(1) by (simp add: heap_rep_def)
  qed simp
  ultimately have "chain L None (as @ a # l # bs) None"
    using rep L(2-5) by (simp add: heap_rep_def)
  then show ?thesis
    using rep new b s' by (cases as) (auto simp: heap_rep_def)
qed

lemma split_remaining_ok:
  assumes rep: "heap_rep s (as @ l # bs)" and n: "n \<le> llen (links s l)" "llen (links s l) < 2 ^ 63"
    and al: "16 dvd llen (links s l) - n" and room: "length (as @ l # bs) < 64"
  obtains s' xs' where "split_remaining s l n fname lno = Inr s'" and "heap_rep s' xs'" and "same_rest s s'"
    and "blocks_of s' xs' = blocks_of s as @ (n, False) #
      (if llen (links s l) = n then blocks_of s bs else (llen (links s l) - n, True) # blocks_of s bs)"
proof -
  let ?r = "llen (links s l) - n"
  have r: "sub64 (llen (links s l)) n = ?r" "sub64 (llen (links s l)) ?r = n"
    using n by (simp_all add: sub64_small)
  let ?s1 = "set_link s l (\<lambda>k. k\<lparr>llen := sub64 (llen k) ?r, free := False, lfile := Some fname, lline := lno\<rparr>)"
  have rep1: "heap_rep ?s1 (as @ l # bs)"
    using rep by (rule heap_rep_set_link) simp_all
  have d: "distinct (as @ l # bs)" and nl: "nxt (links s l) = first_of bs None"
    using rep by (simp_all add: heap_rep_def)
  show thesis
  proof (cases "?r = 0")
    case True
    then have "split_remaining s l n fname lno = Inr ?s1"
      using n r by (simp add: split_remaining_def Let_def)
    moreover have "blocks_of ?s1 (as @ l # bs) = blocks_of s as @ (n, False) # blocks_of s bs"
      using d r by (auto simp: blk_set_link)
    ultimately show thesis
      using rep1 True n by (intro that [of ?s1 "as @ l # bs"]) simp_all
  next
    case False
    obtain new b where c: "create_link ?s1 = Inr (new, set_link (?s1\<lparr>bm := b\<rparr>) new (\<lambda>k. k\<lparr>lfile := None, lline := 0\<rparr>))"
      and new: "new \<notin> set (as @ l # bs)" "new < 64"
      and b: "bitmap_wf b" "sz b = 64" "bits b = (bits (bm ?s1))(new := True)"
      by (rule create_link_ok [OF rep1 room])
    let ?s2 = "set_link (?s1\<lparr>bm := b\<rparr>) new (\<lambda>k. k\<lparr>lfile := None, lline := 0\<rparr>)"
    let ?s3 = "set_link ?s2 new (\<lambda>k. k\<lparr>lfile := Some ''util/mm.cc'', lline := 260, free := True, llen := ?r\<rparr>)"
    let ?s4 = "case nxt (links ?s3 l) of None \<Rightarrow> ?s3 | Some j \<Rightarrow> set_link ?s3 j (\<lambda>k. k\<lparr>prv := Some new\<rparr>)"
    let ?s5 = "set_link ?s4 new (\<lambda>k. k\<lparr>nxt := nxt (links ?s4 l)\<rparr>)"
    let ?s6 = "set_link ?s5 l (\<lambda>k. k\<lparr>nxt := Some new\<rparr>)"
    let ?s' = "set_link ?s6 new (\<lambda>k. k\<lparr>prv := Some l\<rparr>)"
    have run: "split_remaining s l n fname lno = Inr ?s'"
      using n r False al c by (simp add: split_remaining_def Let_def isaligned_iff_dvd)
    have "heap_rep ?s' (as @ l # new # bs)"
      by (rule heap_rep_insert_after [OF rep new b(1,2) _ _ _ _ _ _ _ refl])
        (use new d nl b(3) in \<open>auto simp: first_of_eq_Some split: option.splits\<close>)
    moreover have "blocks_of ?s' as = blocks_of s as" "blocks_of ?s' bs = blocks_of s bs"
      "blk ?s' l = (n, False)" "blk ?s' new = (?r, True)" "same_rest s ?s'"
      using new d nl r by (auto simp: same_rest_def blk_def first_of_eq_Some split: option.splits)
    ultimately show thesis
      using run False by (intro that [of ?s' "as @ l # new # bs"]) simp_all
  qed
qed

lemma split_aligned_ok:
  assumes rep: "heap_rep s (as @ l # bs)" and gap: "16 dvd gap" "gap + n \<le> llen (links s l)"
    and len: "llen (links s l) < 2 ^ 63" "16 dvd llen (links s l)" "16 dvd n"
    and room: "length (as @ l # bs) < 63"
  obtains s' xs' where "split_aligned s l n gap fname lno = Inr s'" and "heap_rep s' xs'" and "same_rest s s'"
    and "blocks_of s' xs' = blocks_of s as @ (gap, True) # (n, False) #
      (if llen (links s l) - gap = n then blocks_of s bs else (llen (links s l) - gap - n, True) # blocks_of s bs)"
proof -
  have "length (as @ l # bs) < 64" using room by simp
  then obtain a b where c: "create_link s = Inr (a, set_link (s\<lparr>bm := b\<rparr>) a (\<lambda>k. k\<lparr>lfile := None, lline := 0\<rparr>))"
    and new: "a \<notin> set (as @ l # bs)" "a < 64"
    and b: "bitmap_wf b" "sz b = 64" "bits b = (bits (bm s))(a := True)"
    by (rule create_link_ok [OF rep])
  have d: "distinct (as @ l # bs)" and nl: "prv (links s l) = last_of None as" "nxt (links s l) = first_of bs None"
    and fl: "first s = Some l \<longleftrightarrow> as = []"
    using rep by (cases as; auto simp: heap_rep_def)+
  let ?s1 = "set_link (s\<lparr>bm := b\<rparr>) a (\<lambda>k. k\<lparr>lfile := None, lline := 0\<rparr>)"
  let ?s2 = "set_link ?s1 a (\<lambda>k. k\<lparr>free := True, llen := gap\<rparr>)"
  let ?s3 = "set_link ?s2 l (\<lambda>k. k\<lparr>llen := sub64 (llen k) gap\<rparr>)"
  let ?s4 = "set_link ?s3 a (\<lambda>k. k\<lparr>lfile := Some fname, lline := lno\<rparr>)"
  let ?s5 = "case prv (links ?s4 l) of None \<Rightarrow> ?s4 | Some j \<Rightarrow> set_link ?s4 j (\<lambda>k. k\<lparr>nxt := Some a\<rparr>)"
  let ?s6 = "set_link ?s5 a (\<lambda>k. k\<lparr>prv := prv (links ?s5 l), nxt := Some l\<rparr>)"
  let ?s7 = "set_link ?s6 l (\<lambda>k. k\<lparr>prv := Some a\<rparr>)"
  let ?s8 = "if first ?s7 = Some l then ?s7\<lparr>first := Some a\<rparr> else ?s7"
  have run: "split_aligned s l n gap fname lno = split_remaining ?s8 l n fname lno"
    using c gap(1) by (simp add: split_aligned_def Let_def isaligned_iff_dvd VMM_MIN_ALLOC_def)
  have rep8: "heap_rep ?s8 (as @ a # l # bs)"
    by (rule heap_rep_insert_before [OF rep new b(1,2) _ _ _ _ _ _ _ refl])
      (use new d nl b(3) fl in \<open>auto simp: last_of_eq_Some split: option.splits\<close>)
  have g: "sub64 (llen (links s l)) gap = llen (links s l) - gap"
    using gap len by (simp add: sub64_small)
  have l8: "llen (links ?s8 l) = llen (links s l) - gap" "blk ?s8 a = (gap, True)" "same_rest s ?s8"
    "blocks_of ?s8 as = blocks_of s as" "blocks_of ?s8 bs = blocks_of s bs"
    using new d nl g by (auto simp: blk_def same_rest_def last_of_eq_Some split: option.splits)
  have e: "(as @ [a]) @ l # bs = as @ a # l # bs" by simp
  obtain s' xs' where s': "split_remaining ?s8 l n fname lno = Inr s'" "heap_rep s' xs'" "same_rest ?s8 s'"
    "blocks_of s' xs' = blocks_of ?s8 (as @ [a]) @ (n, False) #
      (if llen (links ?s8 l) = n then blocks_of ?s8 bs else (llen (links ?s8 l) - n, True) # blocks_of ?s8 bs)"
  proof (rule split_remaining_ok [OF rep8 [folded e]])
    show "n \<le> llen (links ?s8 l)" "llen (links ?s8 l) < 2 ^ 63" "16 dvd llen (links ?s8 l) - n"
      using gap len unfolding l8(1) by (auto intro: dvd_diff_nat)
    show "length ((as @ [a]) @ l # bs) < 64" using room by simp
  qed
  show thesis
    by (rule that [OF _ s'(2) same_rest_trans [OF l8(3) s'(3)]])
      (use run s'(1) in simp, simp only: s'(4) l8 map_append list.map append_assoc append.simps)
qed

section \<open>The choice of the block\<close>

lemma alignfix_props:
  assumes a: "16 dvd a" and al: "16 dvd al" "0 < al" and room: "a + 64 + al \<le> 2 ^ 64"
  shows "isaligned (add64 a VMM_REDZONE_SIZE) al \<longleftrightarrow> al dvd a + 64"
    and "a + 64 + alignfix a al = align64 (a + 64) al" and "alignfix a al < al" and "16 dvd alignfix a al"
    and "alignfix a al = 0 \<longleftrightarrow> al dvd a + 64" and "al dvd a + alignfix a al + 64"
proof -
  have lt: "a + 64 < 2 ^ 64" using room al(2) by linarith
  have add: "add64 a VMM_REDZONE_SIZE = a + 64"
    using lt by (simp add: VMM_REDZONE_SIZE_def add64_small)
  show "isaligned (add64 a VMM_REDZONE_SIZE) al \<longleftrightarrow> al dvd a + 64"
    by (simp add: add isaligned_iff_dvd)
  have ge: "a + 64 \<le> align64 (a + 64) al" and less: "align64 (a + 64) al < a + 64 + al"
    and dv: "al dvd align64 (a + 64) al"
    using align64_ge [OF al(2) room] align64_less [OF al(2) room] align64_dvd [OF al(2) room] by auto
  have "align64 (a + 64) al < 2 ^ 64" using less room by linarith
  then have fix_eq: "alignfix a al = align64 (a + 64) al - (a + 64)"
    unfolding alignfix_def add using ge by (rule sub64_small [rotated])
  then show eq: "a + 64 + alignfix a al = align64 (a + 64) al" using ge by simp
  show "alignfix a al < al" using fix_eq ge less by linarith
  have "16 dvd a + 64" using a by simp
  moreover have "16 dvd align64 (a + 64) al" using al(1) dv by (rule dvd_trans)
  ultimately show "16 dvd alignfix a al" unfolding fix_eq by (rule dvd_diff_nat [rotated])
  show "alignfix a al = 0 \<longleftrightarrow> al dvd a + 64"
    using eq dv align64_id [OF al(2) room] by auto
  have "a + alignfix a al + 64 = align64 (a + 64) al" using eq by linarith
  then show "al dvd a + alignfix a al + 64" using dv by simp
qed

text \<open>The alignment in use: rounded up to 16 and kept at 32 bits.\<close>

lemma rounded_alignment:
  assumes "0 < al" and "al \<le> 2 ^ 31"
  shows "trunc32 (align64 al VMM_MIN_ALLOC) = align64 al 16" and "16 dvd align64 al 16"
    and "0 < align64 al 16" and "align64 al 16 < 2 ^ 32" and "al \<le> align64 al 16"
proof -
  have b: "al \<le> align64 al 16" "align64 al 16 < al + 16" "16 dvd align64 al 16"
    using assms align64_ge [of 16 al] align64_less [of 16 al] align64_dvd [of 16 al] by simp_all
  then show "16 dvd align64 al 16" "0 < align64 al 16" "align64 al 16 < 2 ^ 32" "al \<le> align64 al 16"
    using assms by simp_all
  then show "trunc32 (align64 al VMM_MIN_ALLOC) = align64 al 16"
    by (simp add: VMM_MIN_ALLOC_def trunc32_small)
qed

lemma position_aligned:
  assumes "heap_ok s (ys @ i # zs)"
  shows "16 dvd heap_base s + total_len (blocks_of s ys)"
proof -
  have "\<forall>b \<in> set (blocks_of s ys). 16 dvd fst b"
    using assms by (auto simp: heap_ok_def blocks_ok_def block_ok_def)
  then have "16 dvd total_len (blocks_of s ys)"
    by (induction ys) auto
  then show ?thesis using assms by (simp add: heap_ok_def)
qed

lemma fits_aligned_iff:
  assumes ok: "heap_ok s (ys @ i # zs)" and A: "16 dvd A" "0 < A" "A < 2 ^ 32" and n: "n < 2 ^ 63"
    and room: "heap_base s + total_len (blocks_of s ys) + 2 ^ 33 \<le> 2 ^ 64"
  shows "fits_aligned s n A i (heap_base s + total_len (blocks_of s ys)) \<longleftrightarrow>
    free (links s i) \<and> n + alignfix (heap_base s + total_len (blocks_of s ys)) A \<le> llen (links s i)"
proof -
  let ?a = "heap_base s + total_len (blocks_of s ys)"
  have r: "?a + 64 + A \<le> 2 ^ 64" using room A(3) by simp
  note f = alignfix_props [OF position_aligned [OF ok] A(1,2) r]
  have add: "add64 n (alignfix ?a A) = n + alignfix ?a A"
    using n f(3) A(3) by (intro add64_small) simp
  have nz: "A \<noteq> 0" using A(2) by simp
  show ?thesis
  proof (cases "A dvd ?a + 64")
    case True
    then show ?thesis using f(1,5) nz by (simp add: fits_aligned_def)
  next
    case False
    then have "0 < alignfix ?a A" using f(5) by simp
    with False show ?thesis using f(1,5) nz add by (auto simp: fits_aligned_def)
  qed
qed

text \<open>The unaligned case put together: split, label, account.\<close>

lemma aligned_split_placed:
  assumes ok: "heap_ok s (ys @ i # zs)" and fr: "free (links s i)"
    and n: "16 dvd n" "144 \<le> n" and g: "16 dvd g" "0 < g" "g + n \<le> llen (links s i)"
    and len: "total_len (blocks_of s (ys @ i # zs)) < 2 ^ 63" and room: "length (ys @ i # zs) < 63"
  obtains s' xs' where "rbind (split_aligned s i n g fname lno) (\<lambda>t.
        Inr (finish_alloc t (heap_base s + total_len (blocks_of s ys) + g) n)) =
      Inr (heap_base s + total_len (blocks_of s ys) + g + 64, s')"
    and "heap_ok s' xs'" and "heap_base s' = heap_base s" and "mtx s' = mtx s"
    and "blocks_of s' xs' = blocks_of s ys @ (g, True) # (n, False) #
      (if llen (links s i) - g = n then blocks_of s zs else (llen (links s i) - g - n, True) # blocks_of s zs)"
    and "ram s' = framed (ram s) (heap_base s + total_len (blocks_of s ys) + g) n"
proof -
  have rep: "heap_rep s (ys @ i # zs)" and bok: "blocks_ok (blocks_of s ys @ (llen (links s i), True) # blocks_of s zs)"
    and u: "usedmem s = used_bytes (blocks_of s (ys @ i # zs))" "freemem s = free_bytes (blocks_of s (ys @ i # zs))"
      "heap_base s + total_len (blocks_of s (ys @ i # zs)) < 2 ^ 64" "16 dvd heap_base s" "0 < heap_base s"
    using ok fr by (simp_all add: heap_ok_def blk_def)
  have l: "llen (links s i) < 2 ^ 63" "16 dvd llen (links s i)"
    using len bok by (simp_all add: blk_def blocks_ok_def)
  obtain s1 xs1 where s1: "split_aligned s i n g fname lno = Inr s1" "heap_rep s1 xs1" "same_rest s s1"
    and b1: "blocks_of s1 xs1 = blocks_of s ys @ (g, True) # (n, False) #
      (if llen (links s i) - g = n then blocks_of s zs else (llen (links s i) - g - n, True) # blocks_of s zs)"
    by (rule split_aligned_ok [OF rep g(1,3) l n(1) room])
  let ?a = "heap_base s + total_len (blocks_of s ys) + g"
  let ?s' = "s1\<lparr>usedmem := usedmem s + n, freemem := freemem s - n, ram := framed (ram s) ?a n\<rparr>"
  have uf: "usedmem s + freemem s < 2 ^ 64" "n \<le> freemem s"
    using u used_plus_free [of "blocks_of s (ys @ i # zs)"] fr g(3) by (simp_all add: blk_def)
  have "finish_alloc s1 ?a n = (?a + 64, ?s')"
    using s1(3) uf n heap_ok_room [OF ok] g(3) by (subst finish_alloc_eq) (simp_all add: same_rest_def)
  moreover have "heap_ok ?s' xs1"
  proof (rule heap_ok_finish)
    show "blocks_ok (blocks_of s1 xs1)"
      unfolding b1 by (rule blocks_ok_split3 [OF bok n g])
  qed (use s1 u fr g(3) in \<open>auto simp: same_rest_def blk_def b1\<close>)
  ultimately show thesis
    using s1 b1 by (intro that [of ?s' xs1]) (simp_all add: same_rest_def)
qed

lemma alloc_aligned_found:
  assumes ok: "heap_ok s xs" and m: "mtx s = 0"
    and bytes: "0 < bytes" "bytes \<le> 2 ^ 62" and al: "0 < al" "al \<le> 2 ^ 31"
    and room: "length xs < 63" "total_len (blocks_of s xs) < 2 ^ 63" "heap_base s + total_len (blocks_of s xs) + 2 ^ 33 \<le> 2 ^ 64"
    and fit: "\<exists>b \<in> set (blocks_of s xs). snd b \<and> mm_size bytes + align64 al 16 \<le> fst b"
  obtains ys i zs where "xs = ys @ i # zs" and "free (links s i)"
    and "mm_size bytes + alignfix (heap_base s + total_len (blocks_of s ys)) (align64 al 16) \<le> llen (links s i)"
    and "link_walk (s\<lparr>mtx := 1\<rparr>) (fits_aligned (s\<lparr>mtx := 1\<rparr>) (mm_size bytes) (align64 al 16)) =
      Inr (Some i, heap_base s + total_len (blocks_of s ys))"
proof -
  let ?n = "mm_size bytes" and ?A = "align64 al 16" and ?s = "s\<lparr>mtx := 1\<rparr>"
  note A = rounded_alignment [OF al]
  have n: "?n < 2 ^ 63" using mm_size_props(4) [of bytes] bytes(2) by simp
  have fits: "fits_aligned ?s ?n ?A i (heap_base s + total_len (blocks_of s ys)) \<longleftrightarrow>
      free (links s i) \<and> ?n + alignfix (heap_base s + total_len (blocks_of s ys)) ?A \<le> llen (links s i)"
    if "xs = ys @ i # zs" for ys i zs
    using fits_aligned_iff [of ?s ys i zs ?A ?n] ok room(3) A(2-4) n that by simp
  have rep: "heap_rep ?s xs" and r: "heap_base ?s + offset (\<lambda>i. llen (links ?s i)) xs < 2 ^ 64"
    using ok offset_total [of s xs] by (simp_all add: heap_ok_def)
  obtain l a where w: "walk_list (\<lambda>i. llen (links ?s i)) (fits_aligned ?s ?n ?A) xs (heap_base ?s) = (l, a)" by fastforce
  have lw: "link_walk ?s (fits_aligned ?s ?n ?A) = Inr (l, a)" using link_walk_rep [OF rep] w by simp
  obtain i where l: "l = Some i"
  proof (cases l)
    case None
    obtain j where j: "j \<in> set xs" "free (links s j)" "?n + ?A \<le> llen (links s j)"
      using fit by (auto simp: blk_def)
    then obtain ys zs where xs: "xs = ys @ j # zs" by (meson split_list)
    then have "\<not> fits_aligned ?s ?n ?A j (heap_base ?s + offset (\<lambda>i. llen (links ?s i)) ys)"
      using walk_list_None [OF w [unfolded None] r] by blast
    then have "\<not> fits_aligned ?s ?n ?A j (heap_base s + total_len (blocks_of s ys))"
      using offset_total [of s ys] by simp
    moreover have "alignfix (heap_base s + total_len (blocks_of s ys)) ?A < ?A"
      using alignfix_props(3) [OF position_aligned A(2,3)] ok xs room(3) A(4) by simp
    ultimately show thesis using fits [OF xs] j by simp
  qed (use that in blast)
  obtain ys zs where xs: "xs = ys @ i # zs" and a: "a = heap_base s + total_len (blocks_of s ys)"
    and P: "fits_aligned ?s ?n ?A i a"
    using walk_list_Some [OF w [unfolded l] r] offset_total [of s] by (metis links_mtx heap_base_mtx)
  show thesis
    by (rule that [OF xs]) (use P fits [OF xs] a lw l in auto)
qed

lemma alloc_aligned_body:
  assumes m: "mtx s = 0" and bytes: "bytes \<le> 2 ^ 62" and al: "0 < al" "al \<le> 2 ^ 31"
    and w: "link_walk (s\<lparr>mtx := 1\<rparr>) (fits_aligned (s\<lparr>mtx := 1\<rparr>) (mm_size bytes) (align64 al 16)) = Inr (Some i, a)"
  shows "alloc_aligned s bytes al fname lno =
    rbind (if isaligned (add64 a VMM_REDZONE_SIZE) (align64 al 16) then
        rbind (allocate_into_free (s\<lparr>mtx := 1\<rparr>) i (mm_size bytes) 0) (\<lambda>(_, t).
        Inr (finish_alloc (set_link t i (\<lambda>k. k\<lparr>lfile := Some fname, lline := lno\<rparr>)) a (mm_size bytes)))
      else if alignfix a (align64 al 16) = 0 then Inl (Fatal ''alignfix'')
      else rbind (split_aligned (s\<lparr>mtx := 1\<rparr>) i (mm_size bytes) (alignfix a (align64 al 16)) fname lno) (\<lambda>t.
        Inr (finish_alloc t (add64 a (alignfix a (align64 al 16))) (mm_size bytes))))
    (\<lambda>(x, t). Inr (x, t\<lparr>mtx := 0\<rparr>))"
proof -
  note A = rounded_alignment [OF al]
  have "align64 al 16 \<noteq> 0" using A(3) by simp
  then show ?thesis
    using w mm_size_props(1) [of bytes] bytes A(1) by (simp add: alloc_aligned_def locked_eq [OF m] Let_def)
qed

section \<open>Properties\<close>

text \<open>C6: When some free block has room for the request and the alignment, \<^verbatim>\<open>alloc_aligned\<close> returns an
  address that is a multiple of the alignment rounded up to 16 and that starts the user part of an
  allocated block of the requested size; the heap stays well-formed, its blocks still cover the same
  range, and only the red zones of the new block are written.\<close>

theorem alloc_aligned_spec:
  assumes "heap_ok s xs" and "mtx s = 0" and "0 < bytes" and "bytes \<le> 2 ^ 62" and "0 < al" and "al \<le> 2 ^ 31"
    and "length xs < 63" and "total_len (blocks_of s xs) < 2 ^ 63"
    and "heap_base s + total_len (blocks_of s xs) + 2 ^ 33 \<le> 2 ^ 64"
    and "\<exists>b \<in> set (blocks_of s xs). snd b \<and> mm_size bytes + align64 al 16 \<le> fst b"
  shows "\<exists>p s' xs' as cs. alloc_aligned s bytes al fname lno = Inr (p, s') \<and> align64 al 16 dvd p \<and>
    p = heap_base s + total_len as + 64 \<and> heap_ok s' xs' \<and> mtx s' = 0 \<and>
    blocks_of s' xs' = as @ (mm_size bytes, False) # cs \<and>
    total_len (blocks_of s' xs') = total_len (blocks_of s xs) \<and>
    ram s' = framed (ram s) (heap_base s + total_len as) (mm_size bytes)"
proof -
  let ?n = "mm_size bytes" and ?A = "align64 al 16" and ?s = "s\<lparr>mtx := 1\<rparr>"
  note A = rounded_alignment [OF assms(5,6)]
  have b63: "bytes \<le> 2 ^ 63" using assms(4) by simp
  note n = mm_size_props(2,5) [OF b63]
  obtain ys i zs where xs: "xs = ys @ i # zs" and fr: "free (links s i)"
    and fit: "?n + alignfix (heap_base s + total_len (blocks_of s ys)) ?A \<le> llen (links s i)"
    and w: "link_walk ?s (fits_aligned ?s ?n ?A) = Inr (Some i, heap_base s + total_len (blocks_of s ys))"
    by (rule alloc_aligned_found [OF assms])
  let ?a = "heap_base s + total_len (blocks_of s ys)"
  have ok: "heap_ok ?s (ys @ i # zs)" using assms(1) xs by simp
  have "?a + 64 + ?A \<le> 2 ^ 64" using assms(9) A(4) by (simp add: xs)
  note f = alignfix_props [OF position_aligned [OF ok, simplified] A(2,3), simplified, OF this [simplified]]
  note body = alloc_aligned_body [OF assms(2,4-6) w, of fname lno]
  show ?thesis
  proof (cases "?A dvd ?a + 64")
    case True
    with f(5) have z: "alignfix ?a ?A = 0" by simp
    have "free (links ?s i)" "?n \<le> llen (links ?s i)" "llen (links ?s i) = ?n \<or> length (ys @ i # zs) < 64"
      using fr fit z assms(7) xs by simp_all
    then obtain s' xs' where
      r: "rbind (allocate_into_free ?s i ?n 0) (\<lambda>(_, t).
        Inr (finish_alloc (set_link t i (\<lambda>k. k\<lparr>lfile := Some fname, lline := lno\<rparr>))
          (heap_base ?s + total_len (blocks_of ?s ys)) ?n)) = Inr (heap_base ?s + total_len (blocks_of ?s ys) + 64, s')"
      and s0: "heap_ok s' xs'" "blocks_of s' xs' = blocks_of ?s ys @ (?n, False) #
        (if llen (links ?s i) = ?n then blocks_of ?s zs else (llen (links ?s i) - ?n, True) # blocks_of ?s zs)"
        "ram s' = framed (ram ?s) (heap_base ?s + total_len (blocks_of ?s ys)) ?n"
      by (rule alloc_placed [OF ok _ _ n(1) n(2) [OF assms(3)]])
    note s' = s0 [unfolded blk_other links_mtx heap_base_mtx ram_mtx]
    have "alloc_aligned s bytes al fname lno = Inr (?a + 64, s'\<lparr>mtx := 0\<rparr>)"
      using body r [unfolded blk_other heap_base_mtx] True f(1) by simp
    moreover have "total_len (blocks_of s' xs') = total_len (blocks_of s xs)"
      unfolding s'(2) xs using fit z by (simp add: blk_def)
    ultimately have "alloc_aligned s bytes al fname lno = Inr (?a + 64, s'\<lparr>mtx := 0\<rparr>) \<and> ?A dvd ?a + 64 \<and>
      ?a + 64 = heap_base s + total_len (blocks_of s ys) + 64 \<and> heap_ok (s'\<lparr>mtx := 0\<rparr>) xs' \<and> mtx (s'\<lparr>mtx := 0\<rparr>) = 0 \<and>
      blocks_of (s'\<lparr>mtx := 0\<rparr>) xs' = blocks_of s ys @ (?n, False) #
        (if llen (links s i) = ?n then blocks_of s zs else (llen (links s i) - ?n, True) # blocks_of s zs) \<and>
      total_len (blocks_of (s'\<lparr>mtx := 0\<rparr>) xs') = total_len (blocks_of s xs) \<and>
      ram (s'\<lparr>mtx := 0\<rparr>) = framed (ram s) ?a ?n"
      using s' True by simp
    then show ?thesis by (intro exI)
  next
    case False
    let ?g = "alignfix ?a ?A"
    have g: "0 < ?g" "16 dvd ?g" "?g + ?n \<le> llen (links ?s i)" using False f(4,5) fit by simp_all
    have "total_len (blocks_of ?s (ys @ i # zs)) < 2 ^ 63" "length (ys @ i # zs) < 63"
      using assms(7,8) xs by simp_all
    moreover have "free (links ?s i)" using fr by simp
    ultimately obtain s' xs' where
      r: "rbind (split_aligned ?s i ?n ?g fname lno) (\<lambda>t.
        Inr (finish_alloc t (heap_base ?s + total_len (blocks_of ?s ys) + ?g) ?n)) =
        Inr (heap_base ?s + total_len (blocks_of ?s ys) + ?g + 64, s')"
      and s0: "heap_ok s' xs'" "blocks_of s' xs' = blocks_of ?s ys @ (?g, True) # (?n, False) #
        (if llen (links ?s i) - ?g = ?n then blocks_of ?s zs else (llen (links ?s i) - ?g - ?n, True) # blocks_of ?s zs)"
        "ram s' = framed (ram ?s) (heap_base ?s + total_len (blocks_of ?s ys) + ?g) ?n"
      using aligned_split_placed [OF ok _ n(1) n(2) [OF assms(3)] g(2,1,3)] by metis
    note s' = s0 [unfolded blk_other links_mtx heap_base_mtx ram_mtx]
    have "add64 ?a ?g = ?a + ?g" using heap_ok_room [OF ok] g(3) by (intro add64_small) simp
    then have "alloc_aligned s bytes al fname lno = Inr (?a + ?g + 64, s'\<lparr>mtx := 0\<rparr>)"
      using body r [unfolded blk_other heap_base_mtx] False f(1) g(1) by simp
    moreover have "total_len (blocks_of s' xs') = total_len (blocks_of s xs)"
      unfolding s'(2) xs using g(3) by (auto simp: blk_def)
    ultimately have "alloc_aligned s bytes al fname lno = Inr (?a + ?g + 64, s'\<lparr>mtx := 0\<rparr>) \<and> ?A dvd ?a + ?g + 64 \<and>
      ?a + ?g + 64 = heap_base s + total_len (blocks_of s ys @ [(?g, True)]) + 64 \<and>
      heap_ok (s'\<lparr>mtx := 0\<rparr>) xs' \<and> mtx (s'\<lparr>mtx := 0\<rparr>) = 0 \<and>
      blocks_of (s'\<lparr>mtx := 0\<rparr>) xs' = (blocks_of s ys @ [(?g, True)]) @ (?n, False) #
        (if llen (links s i) - ?g = ?n then blocks_of s zs else (llen (links s i) - ?g - ?n, True) # blocks_of s zs) \<and>
      total_len (blocks_of (s'\<lparr>mtx := 0\<rparr>) xs') = total_len (blocks_of s xs) \<and>
      ram (s'\<lparr>mtx := 0\<rparr>) = framed (ram s) (heap_base s + total_len (blocks_of s ys @ [(?g, True)])) ?n"
      using s' f(6) by (simp add: add.assoc)
    then show ?thesis by (intro exI)
  qed
qed

theorem alloc_aligned_spec_witness:
  "\<exists>p s'. alloc_aligned tiny_heap 100 256 ''main.cc'' 7 = Inr (p, s') \<and> 256 dvd p"
proof -
  have a: "align64 256 16 = 256" by (simp add: align64_id)
  have n: "mm_size 100 = 240"
    by (simp add: mm_size_def align64_def add64_def sub64_def mul64_def)
  have p: "(0::nat) < 100" "(100::nat) \<le> 2 ^ 62" "(0::nat) < 256" "(256::nat) \<le> 2 ^ 31" "length [0::nat] < 63" by simp_all
  have q: "total_len (blocks_of tiny_heap [0]) < 2 ^ 63"
    "heap_base tiny_heap + total_len (blocks_of tiny_heap [0]) + 2 ^ 33 \<le> 2 ^ 64"
    "\<exists>b \<in> set (blocks_of tiny_heap [0]). snd b \<and> mm_size 100 + align64 256 16 \<le> fst b"
    unfolding tiny_heap_blocks tiny_heap_base n a by simp_all
  from alloc_aligned_spec [OF tiny_heap_ok tiny_heap_mtx p q, of "''main.cc''" 7] show ?thesis
    unfolding a by blast
qed

text \<open>When no free block is large enough, \<^verbatim>\<open>alloc_aligned\<close> does not fail: it returns an address behind
  the end of the heap, writes red zones there, and counts the bytes as used although no block was
  taken, so that the accounting no longer matches the blocks.\<close>

theorem alloc_aligned_exhausted:
  assumes "heap_ok s xs" and "mtx s = 0" and "0 < bytes" and "bytes \<le> 2 ^ 62"
    and "heap_base s + total_len (blocks_of s xs) + mm_size bytes < 2 ^ 64"
    and "\<forall>b \<in> set (blocks_of s xs). snd b \<longrightarrow> fst b < mm_size bytes"
  shows "\<exists>s'. alloc_aligned s bytes al fname lno = Inr (heap_base s + total_len (blocks_of s xs) + 64, s') \<and>
    links s' = links s \<and> first s' = first s \<and> bm s' = bm s \<and> usedmem s' = usedmem s + mm_size bytes \<and>
    (\<forall>ys. \<not> heap_ok s' ys) \<and>
    ram s' = framed (ram s) (heap_base s + total_len (blocks_of s xs)) (mm_size bytes)"
proof -
  let ?n = "mm_size bytes" and ?s = "s\<lparr>mtx := 1\<rparr>" and ?A = "trunc32 (align64 al VMM_MIN_ALLOC)"
  let ?a = "heap_base s + total_len (blocks_of s xs)"
  have b63: "bytes \<le> 2 ^ 63" using assms(4) by simp
  note sz = mm_size_props [OF b63]
  have rep: "heap_rep ?s xs" and r: "heap_base ?s + offset (\<lambda>i. llen (links ?s i)) xs < 2 ^ 64"
    using assms(1) offset_total [of s xs] by (simp_all add: heap_ok_def)
  obtain l a where w: "walk_list (\<lambda>i. llen (links ?s i)) (fits_aligned ?s ?n ?A) xs (heap_base ?s) = (l, a)" by fastforce
  have "l = None"
  proof (cases l)
    case (Some i)
    obtain ys zs where "xs = ys @ i # zs" and "fits_aligned ?s ?n ?A i a"
      using walk_list_Some [OF w [unfolded Some] r] by metis
    then show ?thesis using assms(6) by (auto simp: fits_aligned_def blk_def)
  qed simp
  then have a: "l = None" "a = ?a"
    using walk_list_None [of _ _ xs] w r offset_total [of s xs] by fastforce+
  then have lw: "link_walk ?s (fits_aligned ?s ?n ?A) = Inr (None, ?a)"
    using link_walk_rep [OF rep] w by simp
  let ?s' = "(snd (finish_alloc ?s ?a ?n))\<lparr>mtx := 0\<rparr>"
  have run: "alloc_aligned s bytes al fname lno = Inr (fst (finish_alloc ?s ?a ?n), ?s')"
    using lw sz(1) by (simp add: alloc_aligned_def locked_eq [OF assms(2)] Let_def split: prod.splits)
  have u: "usedmem s = used_bytes (blocks_of s xs)" and n: "144 \<le> ?n"
    using assms(1) sz(5) [OF assms(3)] by (simp_all add: heap_ok_def)
  have ub: "usedmem s + ?n < 2 ^ 64"
    using u assms(5) used_plus_free [of "blocks_of s xs"] by simp
  have e: "usedmem ?s' = usedmem s + ?n" "links ?s' = links s" "first ?s' = first s" "bm ?s' = bm s"
    using ub by (simp_all add: finish_alloc_def add64_small)
  have "\<not> heap_ok ?s' ys" for ys
  proof
    assume ok: "heap_ok ?s' ys"
    then have "ys = xs"
      using assms(1) e by (intro chain_unique [of "links s"]) (auto simp: heap_ok_def heap_rep_def)
    with ok have "usedmem ?s' = used_bytes (blocks_of s xs)"
      using e(2) by (simp add: heap_ok_def blk_def [abs_def])
    with e(1) u n show False by simp
  qed
  moreover have "ram ?s' = framed (ram s) ?a ?n" "fst (finish_alloc ?s ?a ?n) = ?a + 64"
    using assms(5) n by (simp_all add: finish_alloc_def framed_def memset_eq VMM_REDZONE_SIZE_def add64_small sub64_small)
  ultimately show ?thesis using run e by (intro exI [of _ ?s']) simp
qed

theorem alloc_aligned_exhausted_witness:
  "\<exists>s'. alloc_aligned tiny_heap 5000 16 ''main.cc'' 7 = Inr (0x11040, s') \<and> (\<forall>ys. \<not> heap_ok s' ys)"
proof -
  have n: "mm_size 5000 = 5136"
    by (simp add: mm_size_def align64_def add64_def sub64_def mul64_def)
  have p: "(0::nat) < 5000" "(5000::nat) \<le> 2 ^ 62" by simp_all
  have q: "heap_base tiny_heap + total_len (blocks_of tiny_heap [0]) + mm_size 5000 < 2 ^ 64"
    "\<forall>b \<in> set (blocks_of tiny_heap [0]). snd b \<longrightarrow> fst b < mm_size 5000"
    unfolding tiny_heap_blocks tiny_heap_base n by simp_all
  have e: "heap_base tiny_heap + total_len (blocks_of tiny_heap [0]) + 64 = 0x11040"
    unfolding tiny_heap_blocks tiny_heap_base by simp
  from alloc_aligned_exhausted [OF tiny_heap_ok tiny_heap_mtx p q, of 16 "''main.cc''" 7] show ?thesis
    unfolding e by blast
qed

text \<open>C11: If the physical allocator can give the two pages of bookkeeping, \<^verbatim>\<open>vmm_init\<close> produces a well-formed
  heap: one free block as large as the free physical memory, at \<^verbatim>\<open>0xffff900000000000\<close>. Only 64 of the 85
  links that fit into the page can ever be used.\<close>

theorem vmm_init_ok:
  assumes "pmm_alloc pm PMM_PAGESIZE = Inr (a1, pm1)" and "pmm_alloc pm1 PMM_PAGESIZE = Inr (a2, pm2)"
    and "0 < pmm_freemem pm" and "16 dvd pmm_freemem pm" and "VMM_HEAP_BASE + pmm_freemem pm < 2 ^ 64"
  shows "\<exists>s. vmm_init words mem pm = Inr (s, pm2) \<and> heap_ok s [0] \<and> mtx s = 0 \<and>
    blocks_of s [0] = [(pmm_freemem pm, True)] \<and> heap_base s = VMM_HEAP_BASE \<and>
    capacity s = 85 \<and> (\<forall>xs. heap_rep s xs \<longrightarrow> length xs \<le> 64)"
proof -
  have cap: "PMM_PAGESIZE div sizeof_link_t = 85" by (simp add: PMM_PAGESIZE_def sizeof_link_t_def)
  have "85 div 64 \<le> length (map words [0 ..< PMM_PAGESIZE div 8])" "(85::nat) < 2 ^ 64"
    by (simp_all add: PMM_PAGESIZE_def)
  then obtain b where b: "bitmap_init (map words [0 ..< PMM_PAGESIZE div 8]) 85 False = Inr b" "bitmap_wf b"
    "sz b = align_down 85 64" "\<forall>i < sz b. bits b i = False"
    by (rule bitmap_init_ok)
  then have sz: "sz b = 64" by (simp add: align_down_def)
  obtain b' where b': "bitmap_set b 0 True = Inr b'" "bitmap_wf b'" "sz b' = 64" "bits b' = (bits b)(0 := True)"
    using bitmap_set_ok [OF b(2), of 0 True] sz by auto
  let ?s = "\<lparr>links = (\<lambda>_. null_link)(0 := \<lparr>nxt = None, prv = None, lfile = Some ''util/mm.cc'', lline = 21,
              llen = pmm_freemem pm, free = True\<rparr>),
            first = Some 0, bm = b', capacity = 85, usedmem = 0, freemem = pmm_freemem pm, heap_base = VMM_HEAP_BASE,
            mtx = 0, ram = mem\<rparr>"
  have run: "vmm_init words mem pm = Inr (?s, pm2)"
    using assms(1,2) b(1) b'(1) by (simp add: vmm_init_def MemoryMgr_def cap)
  have ok: "heap_ok ?s [0]"
    using assms(3-5) b(4) b' sz
    by (simp add: heap_ok_def heap_rep_def blk_def blocks_ok_def VMM_HEAP_BASE_def)
  show ?thesis
    using run ok heap_rep_length [of ?s] by (intro exI [of _ ?s]) (simp add: blk_def)
qed

definition small_pmm :: "64 word \<Rightarrow> nat \<Rightarrow> pmm" where
  "small_pmm w used = \<lparr>pmm_freemem = 0x40000 - used, pmm_usedmem = used, pmm_reservedmem = 0,
     pmm_bm = \<lparr>buffer = [w], sz = 64\<rparr>, pmm_buffer = 0, pmm_mutex = 0\<rparr>"

lemma small_pmm_run:
  "pmm_alloc (small_pmm 3 0) PMM_PAGESIZE = Inr (HHDM + 0x2000, small_pmm 7 0x1000)"
  "pmm_alloc (small_pmm 7 0x1000) PMM_PAGESIZE = Inr (HHDM + 0x3000, small_pmm 15 0x2000)"
  by (simp_all add: pmm_alloc_def small_pmm_def PMM_PAGESIZE_def align64_id bitmap_run_simps NPOS_def gibs2bytes_def
      push_bit_eq_mult add64_def sub64_def mul64_def VIRTUAL_eq_add Let_def)

theorem vmm_init_ok_witness:
  "\<exists>s. vmm_init (\<lambda>_. 5) (\<lambda>_. 0) (small_pmm 3 0) = Inr (s, small_pmm 15 0x2000) \<and> heap_ok s [0] \<and>
     blocks_of s [0] = [(0x40000, True)]"
proof -
  have f: "pmm_freemem (small_pmm 3 0) = 0x40000" by (simp add: small_pmm_def)
  then have "0 < pmm_freemem (small_pmm 3 0)" "16 dvd pmm_freemem (small_pmm 3 0)"
    "VMM_HEAP_BASE + pmm_freemem (small_pmm 3 0) < 2 ^ 64"
    by (simp_all add: VMM_HEAP_BASE_def)
  from vmm_init_ok [OF small_pmm_run this, of "\<lambda>_. 5" "\<lambda>_. 0"] show ?thesis
    unfolding f by (elim exE conjE) (intro exI conjI)
qed

end
