(* ===== verification/CString.thy ===== *)
theory CString
  imports Mem "HOL-Library.Char_ord"
begin

text \<open>
  The C string routines of \<^verbatim>\<open>util/string.hh\<close> and \<^verbatim>\<open>util/string.cc\<close>. A pointer into a string that is only
  read is the list of the characters from there on; the terminator is at the end of the list. Routines
  that write work on the memory of \<^verbatim>\<open>Mem\<close>; the loops over it may leave the string and are partial.
\<close>

section \<open>Reading\<close>

abbreviation NUL :: char where
  "NUL \<equiv> CHR 0x00"

definition deref :: "string \<Rightarrow> char" where
  "deref s = (case s of [] \<Rightarrow> NUL | c # _ \<Rightarrow> c)"

definition ch :: "char \<Rightarrow> nat" where
  "ch c = of_char c"

definition ISDIGIT :: "char \<Rightarrow> bool" where
  "ISDIGIT c = (CHR ''0'' \<le> c \<and> c \<le> CHR ''9'')"

definition ISLOWERCASE :: "char \<Rightarrow> bool" where
  "ISLOWERCASE c = (CHR ''a'' \<le> c \<and> c \<le> CHR ''z'')"

definition ISUPPERCASE :: "char \<Rightarrow> bool" where
  "ISUPPERCASE c = (CHR ''A'' \<le> c \<and> c \<le> CHR ''Z'')"

definition ISLETTER :: "char \<Rightarrow> bool" where
  "ISLETTER c = (ISLOWERCASE c \<or> ISUPPERCASE c)"

text \<open>The result and the counter are 8 bits wide.\<close>

fun strlen_loop :: "string \<Rightarrow> 8 word \<Rightarrow> 8 word" where
  "strlen_loop [] len = len"
| "strlen_loop (c # s) len = (if c = NUL then len else strlen_loop s (len + 1))"

definition strlen :: "string \<Rightarrow> 8 word" where
  "strlen s = strlen_loop s 0"

fun wstrlen_loop :: "16 word list \<Rightarrow> 8 word \<Rightarrow> 8 word" where
  "wstrlen_loop [] len = len"
| "wstrlen_loop (c # s) len = (if c = 0 then len else wstrlen_loop s (len + 1))"

definition wstrlen :: "16 word list \<Rightarrow> 8 word" where
  "wstrlen s = wstrlen_loop s 0"

function strcmp :: "string \<Rightarrow> string \<Rightarrow> nat" where
  "strcmp s1 s2 =
     (if deref s1 \<noteq> NUL \<and> deref s2 \<noteq> NUL
      then if deref s1 \<noteq> deref s2 then 1 else strcmp (tl s1) (tl s2)
      else if deref s1 \<noteq> deref s2 then 1 else 0)"
  by pat_completeness auto
termination
  by (relation "measure (\<lambda>(s1, s2). length s1)") (auto simp: deref_def split: list.splits)

declare strcmp.simps [simp del]

fun strncmp_loop :: "string \<Rightarrow> string \<Rightarrow> nat \<Rightarrow> nat" where
  "strncmp_loop s1 s2 0 = 0"
| "strncmp_loop s1 s2 (Suc chars) =
     (if deref s1 \<noteq> NUL \<and> deref s2 \<noteq> NUL
      then if deref s1 \<noteq> deref s2 then 1 else strncmp_loop (tl s1) (tl s2) chars
      else 0)"

definition strncmp :: "string \<Rightarrow> string \<Rightarrow> nat \<Rightarrow> nat" where
  "strncmp s1 s2 chars =
     (if chars = 0 \<or> deref s1 \<noteq> deref s2 then 1 else strncmp_loop s1 s2 chars)"

section \<open>Numbers\<close>

text \<open>The digit loop that both conversions share. Digits are not compared with the base, and the
  additions and multiplications wrap around at 64 bits.\<close>

definition digit_value :: "char \<Rightarrow> nat" where
  "digit_value c =
     (if ISUPPERCASE c then ch c - ch CHR ''A'' + 10
      else if ISLOWERCASE c then ch c - ch CHR ''a'' + 10
      else ch c - ch CHR ''0'')"

definition is_digit_for :: "nat \<Rightarrow> char \<Rightarrow> bool" where
  "is_digit_for b c = (b \<le> 10 \<and> ISDIGIT c \<or> b > 10 \<and> (ISLETTER c \<or> ISDIGIT c))"

fun digits_loop :: "nat \<Rightarrow> string \<Rightarrow> nat \<Rightarrow> nat" where
  "digits_loop b [] ret = ret"
| "digits_loop b (c # s) ret =
     (if is_digit_for b c then digits_loop b s (add64 (mul64 ret b) (digit_value c)) else ret)"

definition str_to_uint :: "string \<Rightarrow> nat \<Rightarrow> nat res" where
  "str_to_uint s b =
     (if deref s = CHR ''-'' then Inl (Fatal ''str_to_uint on a negative'')
      else
        let (b, s) =
          (if deref s = CHR ''0''
           then if deref (tl s) = CHR ''x'' then (16, drop 2 s)
                else if deref (tl s) = CHR ''0'' then (8, drop 2 s)
                else if deref (tl s) = CHR ''b'' then (2, drop 2 s)
                else (b, s)
           else (b, s))
        in Inr (digits_loop b s 0))"

text \<open>The signed conversion works on a signed 64-bit number, whose overflow is undefined.\<close>

definition fits_i64 :: "int \<Rightarrow> bool" where
  "fits_i64 x = (- (2 ^ 63) \<le> x \<and> x < 2 ^ 63)"

fun signed_digits :: "nat \<Rightarrow> string \<Rightarrow> int \<Rightarrow> int res" where
  "signed_digits b [] ret = Inr ret"
| "signed_digits b (c # s) ret =
     (if is_digit_for b c
      then let r = ret * int b; r' = r + int (digit_value c) in
        if fits_i64 r \<and> fits_i64 r' then signed_digits b s r' else Inl Undefined
      else Inr ret)"

definition str_to_int :: "string \<Rightarrow> nat \<Rightarrow> int res" where
  "str_to_int s b =
     (let (neg, s) = (if deref s = CHR ''-'' then (True, tl s) else (False, s));
          (b, s) = (if deref s = CHR ''0'' \<and> deref (tl s) = CHR ''x'' then (16, drop 2 s) else (b, s))
      in rbind (signed_digits b s 0) (\<lambda>ret. Inr (if neg then - ret else ret)))"

section \<open>Writing\<close>

text \<open>Narrowing a UCS-2 character keeps its low byte.\<close>

partial_function (option) strcpy_loop :: "memory \<Rightarrow> nat \<Rightarrow> nat \<Rightarrow> nat \<Rightarrow> (nat \<times> memory) option" where
  "strcpy_loop m src dest len =
     (if m (src + len) \<noteq> 0
      then strcpy_loop (m(dest + len := m (src + len))) src dest (len + 1)
      else Some (trunc32 len, m(dest + len := 0)))"

definition strcpy :: "memory \<Rightarrow> nat \<Rightarrow> nat \<Rightarrow> (nat \<times> memory) option" where
  "strcpy m src dest = strcpy_loop m src dest 0"

partial_function (option) str_end :: "memory \<Rightarrow> nat \<Rightarrow> nat option" where
  "str_end m p = (if m p \<noteq> 0 then str_end m (p + 1) else Some p)"

partial_function (option) strcat_loop :: "memory \<Rightarrow> nat \<Rightarrow> nat \<Rightarrow> memory option" where
  "strcat_loop m dest src =
     (if m src \<noteq> 0 then strcat_loop (m(dest := m src)) (dest + 1) (src + 1) else Some (m(dest := 0)))"

definition strcat :: "memory \<Rightarrow> nat \<Rightarrow> nat \<Rightarrow> memory option" where
  "strcat m dest src = Option.bind (str_end m dest) (\<lambda>d. strcat_loop m d src)"

definition load16 :: "memory \<Rightarrow> nat \<Rightarrow> 16 word" where
  "load16 m p = ucast (m p) OR push_bit 8 (ucast (m (p + 1)))"

partial_function (option) ucs2_loop :: "memory \<Rightarrow> nat \<Rightarrow> nat \<Rightarrow> nat \<Rightarrow> (nat \<times> memory) option" where
  "ucs2_loop m src out count =
     (if load16 m (src + 2 * count) \<noteq> 0
      then ucs2_loop (m(out + count := ucast (load16 m (src + 2 * count)))) src out (count + 1)
      else Some (trunc32 count, m(out + count := 0)))"

definition ucs2_to_ascii :: "memory \<Rightarrow> nat \<Rightarrow> nat \<Rightarrow> (nat \<times> memory) option" where
  "ucs2_to_ascii m src out = ucs2_loop m src out 0"

primrec ucs2n_loop :: "nat \<Rightarrow> memory \<Rightarrow> nat \<Rightarrow> nat \<Rightarrow> memory" where
  "ucs2n_loop 0 m src out = m"
| "ucs2n_loop (Suc n) m src out = ucs2n_loop n (m(out := ucast (load16 m src))) (src + 2) (out + 1)"

definition ucs2_to_asciin :: "memory \<Rightarrow> nat \<Rightarrow> nat \<Rightarrow> nat \<Rightarrow> memory" where
  "ucs2_to_asciin m src out n = ucs2n_loop n (m(out + n := 0)) src out"

text \<open>The octal numbers of tar headers, from \<^verbatim>\<open>util/bits/useful.hh\<close>; every byte counts as a digit.\<close>

definition fits_i32 :: "int \<Rightarrow> bool" where
  "fits_i32 x = (- (2 ^ 31) \<le> x \<and> x < 2 ^ 31)"

primrec oct2bin_loop :: "string \<Rightarrow> int \<Rightarrow> int res" where
  "oct2bin_loop [] n = Inr n"
| "oct2bin_loop (c # s) n =
     (let n = n * 8; n' = n + (int (ch c) - int (ch CHR ''0'')) in
      if fits_i32 n \<and> fits_i32 n' then oct2bin_loop s n' else Inl Undefined)"

definition oct2bin :: "string \<Rightarrow> int res" where
  "oct2bin s = oct2bin_loop s 0"

section \<open>What the routines compute\<close>

definition cstr :: "string \<Rightarrow> string" where
  "cstr s = takeWhile (\<lambda>c. c \<noteq> NUL) s"

lemma cstr_simps [simp]:
  "cstr [] = []" "cstr (c # s) = (if c = NUL then [] else c # cstr s)"
  by (simp_all add: cstr_def)

lemma deref_simps [simp]: "deref [] = NUL" "deref (c # s) = c"
  by (simp_all add: deref_def)

lemma deref_NUL: "deref s = NUL \<longleftrightarrow> cstr s = []"
  by (cases s) auto

lemma cstr_Cons: "deref s \<noteq> NUL \<Longrightarrow> cstr s = deref s # cstr (tl s)"
  by (cases s) auto

lemma strlen_loop_eq: "strlen_loop s len = len + of_nat (length (cstr s))"
  by (induction s len rule: strlen_loop.induct) auto

lemma strcmp_zero: "strcmp s1 s2 = 0 \<longleftrightarrow> cstr s1 = cstr s2"
proof (induction s1 s2 rule: strcmp.induct)
  case (1 s1 s2)
  show ?case
  proof (cases "deref s1 \<noteq> NUL \<and> deref s2 \<noteq> NUL")
    case True
    then show ?thesis using 1 by (subst strcmp.simps) (auto simp: cstr_Cons)
  next
    case False
    then show ?thesis using deref_NUL [of s1] deref_NUL [of s2] by (subst strcmp.simps) auto
  qed
qed

lemma strncmp_loop_zero:
  "strncmp_loop s1 s2 n = 0 \<longleftrightarrow>
   (let k = min n (min (length (cstr s1)) (length (cstr s2))) in take k (cstr s1) = take k (cstr s2))"
proof (induction s1 s2 n rule: strncmp_loop.induct)
  case (2 s1 s2 n)
  show ?case
  proof (cases "deref s1 \<noteq> NUL \<and> deref s2 \<noteq> NUL")
    case True
    then show ?thesis using 2 by (auto simp: cstr_Cons Let_def)
  next
    case False
    then show ?thesis by (auto simp: deref_NUL Let_def)
  qed
qed simp

text \<open>A terminated string in memory.\<close>

definition str_at :: "memory \<Rightarrow> nat \<Rightarrow> 8 word list \<Rightarrow> bool" where
  "str_at m p s = (0 \<notin> set s \<and> (\<forall>i < length s. m (p + i) = s ! i) \<and> m (p + length s) = 0)"

definition put_str :: "memory \<Rightarrow> nat \<Rightarrow> 8 word list \<Rightarrow> memory" where
  "put_str m p s = (\<lambda>x. if p \<le> x \<and> x < p + length s then s ! (x - p) else if x = p + length s then 0 else m x)"

definition apart :: "nat \<Rightarrow> nat \<Rightarrow> nat \<Rightarrow> nat \<Rightarrow> bool" where
  "apart p m q n = (p + m \<le> q \<or> q + n \<le> p)"

lemma str_at_put_str: "0 \<notin> set s \<Longrightarrow> str_at (put_str m p s) p s"
  by (simp add: str_at_def put_str_def)

lemma str_at_Cons: "str_at m p (c # s) \<longleftrightarrow> c \<noteq> 0 \<and> m p = c \<and> str_at m (p + 1) s"
  by (auto simp: str_at_def nth_Cons split: nat.splits)

lemma put_str_Cons: "put_str m p (c # s) = put_str (m(p := c)) (p + 1) s"
  by (rule ext) (auto simp: put_str_def nth_Cons')

lemma str_at_frame:
  assumes "\<And>i. i \<le> length s \<Longrightarrow> m' (p + i) = m (p + i)"
  shows "str_at m' p s = str_at m p s"
  using assms by (simp add: str_at_def)

text \<open>The copying loop of \<^verbatim>\<open>strcat\<close>, and of \<^verbatim>\<open>strcpy\<close> with its index instead of two pointers.\<close>

lemma strcat_loop_eq:
  "str_at m src s \<Longrightarrow> apart dest (length s + 1) src (length s + 1) \<Longrightarrow>
   strcat_loop m dest src = Some (put_str m dest s)"
proof (induction s arbitrary: m dest src)
  case Nil
  then show ?case by (subst strcat_loop.simps) (auto simp: str_at_def put_str_def fun_eq_iff)
next
  case (Cons c s)
  have "str_at (m(dest := c)) (src + 1) s"
    using Cons.prems by (subst str_at_frame [of s _ _ m]) (auto simp: str_at_Cons apart_def)
  moreover have "apart (dest + 1) (length s + 1) (src + 1) (length s + 1)"
    using Cons.prems(2) by (auto simp: apart_def)
  ultimately show ?case
    using Cons by (subst strcat_loop.simps) (simp add: str_at_Cons put_str_Cons)
qed

lemma strcpy_loop_eq:
  "str_at m (src + len) s \<Longrightarrow> apart (dest + len) (length s + 1) (src + len) (length s + 1) \<Longrightarrow>
   strcpy_loop m src dest len = Some (trunc32 (len + length s), put_str m (dest + len) s)"
proof (induction s arbitrary: m len)
  case Nil
  then show ?case by (subst strcpy_loop.simps) (auto simp: str_at_def put_str_def fun_eq_iff)
next
  case (Cons c s)
  have "str_at (m(dest + len := c)) (src + (len + 1)) s"
    using Cons.prems by (subst str_at_frame [of s _ _ m]) (auto simp: str_at_Cons apart_def)
  moreover have "apart (dest + (len + 1)) (length s + 1) (src + (len + 1)) (length s + 1)"
    using Cons.prems(2) by (auto simp: apart_def)
  ultimately have "strcpy_loop (m(dest + len := c)) src dest (len + 1) =
      Some (trunc32 (len + 1 + length s), put_str (m(dest + len := c)) (dest + (len + 1)) s)"
    by (rule Cons.IH)
  then show ?case
    using Cons.prems(1) by (subst strcpy_loop.simps) (simp add: str_at_Cons put_str_Cons)
qed

lemma str_end_eq: "str_at m p s \<Longrightarrow> str_end m p = Some (p + length s)"
proof (induction s arbitrary: p)
  case Nil
  then show ?case by (subst str_end.simps) (simp add: str_at_def)
next
  case (Cons c s)
  then show ?case by (subst str_end.simps) (simp add: str_at_Cons)
qed

section \<open>Properties\<close>

text \<open>C16: \<^verbatim>\<open>strlen\<close> counts the characters before the terminator modulo 256; it is the length exactly for strings of
  fewer than 256 characters.\<close>

theorem strlen_bounds:
  "unat (strlen s) = length (cstr s) mod 256 \<and> (unat (strlen s) = length (cstr s) \<longleftrightarrow> length (cstr s) < 256)"
proof -
  have "unat (strlen s) = length (cstr s) mod 256"
    by (simp add: strlen_def strlen_loop_eq unat_of_nat take_bit_eq_mod)
  then show ?thesis by (metis mod_less mod_less_divisor zero_less_numeral)
qed

text \<open>\<^verbatim>\<open>strcmp\<close> returns zero exactly on equal strings. \<^verbatim>\<open>strncmp\<close> returns zero exactly when the bound is not zero,
  the first characters agree and the strings agree up to the bound or the end of the shorter string: a
  non-empty prefix of a string compares equal to it.\<close>

theorem strcmp_spec:
  "(strcmp s1 s2 = 0 \<longleftrightarrow> cstr s1 = cstr s2) \<and>
   (strncmp s1 s2 n = 0 \<longleftrightarrow>
      n \<noteq> 0 \<and> deref s1 = deref s2 \<and>
      (let k = min n (min (length (cstr s1)) (length (cstr s2))) in take k (cstr s1) = take k (cstr s2)))"
  by (simp add: strcmp_zero strncmp_def strncmp_loop_zero)



end
