(* ===== verification/Printf.thy ===== *)
theory Printf
  imports CString
begin

text \<open>
  The formatted output of \<^verbatim>\<open>util/printf.cc\<close>: the output functions, the conversion of integers, and
  \<^verbatim>\<open>_vsnprintf\<close> with its flags, widths, precisions and conversions. The two floating point conversions
  are parameters: what they print, as a function of the bits of the number, the precision, the width
  and the flags.
\<close>

section \<open>Output functions\<close>

datatype out_fct = Out_buffer | Out_null | Out_char | Out_char2 | Out_fct

text \<open>What output can change: the buffer, relative to its start, the characters given to \<^verbatim>\<open>_putchar\<close> and
  \<^verbatim>\<open>_putchar2\<close>, and those given to the function that \<^verbatim>\<open>fctprintf\<close> receives.\<close>

record sink =
  sbuf :: "nat \<Rightarrow> char"
  chars1 :: string
  chars2 :: string
  chars_fct :: string

definition out :: "out_fct \<Rightarrow> char \<Rightarrow> nat \<Rightarrow> nat \<Rightarrow> sink \<Rightarrow> sink" where
  "out f c i maxlen s =
     (case f of
        Out_buffer \<Rightarrow> if i < maxlen then s\<lparr>sbuf := (sbuf s)(i := c)\<rparr> else s
      | Out_null \<Rightarrow> s
      | Out_char \<Rightarrow> if c \<noteq> NUL then s\<lparr>chars1 := chars1 s @ [c]\<rparr> else s
      | Out_char2 \<Rightarrow> if c \<noteq> NUL then s\<lparr>chars2 := chars2 s @ [c]\<rparr> else s
      | Out_fct \<Rightarrow> if c \<noteq> NUL then s\<lparr>chars_fct := chars_fct s @ [c]\<rparr> else s)"

text \<open>The pair of the running index and the sink; every output advances the index.\<close>

type_synonym pst = "nat \<times> sink"

definition emit :: "out_fct \<Rightarrow> nat \<Rightarrow> char \<Rightarrow> pst \<Rightarrow> pst" where
  "emit f maxlen c st = (case st of (i, s) \<Rightarrow> (i + 1, out f c i maxlen s))"

section \<open>Flags\<close>

type_synonym flags = "32 word"

datatype pf_flag =
    FLAGS_ZEROPAD | FLAGS_LEFT | FLAGS_PLUS | FLAGS_SPACE | FLAGS_HASH | FLAGS_UPPERCASE | FLAGS_CHAR | FLAGS_SHORT | FLAGS_LONG | FLAGS_LONG_LONG | FLAGS_PRECISION | FLAGS_ADAPT_EXP

fun flag :: "pf_flag \<Rightarrow> flags" where
  "flag FLAGS_ZEROPAD = push_bit 0 1"
| "flag FLAGS_LEFT = push_bit 1 1"
| "flag FLAGS_PLUS = push_bit 2 1"
| "flag FLAGS_SPACE = push_bit 3 1"
| "flag FLAGS_HASH = push_bit 4 1"
| "flag FLAGS_UPPERCASE = push_bit 5 1"
| "flag FLAGS_CHAR = push_bit 6 1"
| "flag FLAGS_SHORT = push_bit 7 1"
| "flag FLAGS_LONG = push_bit 8 1"
| "flag FLAGS_LONG_LONG = push_bit 9 1"
| "flag FLAGS_PRECISION = push_bit 10 1"
| "flag FLAGS_ADAPT_EXP = push_bit 11 1"

declare flag.simps [simp del]

definition has :: "flags \<Rightarrow> flags \<Rightarrow> bool" where
  "has flags f = (flags AND f \<noteq> 0)"

definition NTOA_BUFFER_SIZE :: nat where
  "NTOA_BUFFER_SIZE = 32"

section \<open>Small helpers\<close>

fun strnlen_loop :: "string \<Rightarrow> nat \<Rightarrow> nat \<Rightarrow> nat" where
  "strnlen_loop [] maxsize n = n"
| "strnlen_loop (c # s) maxsize n =
     (if c \<noteq> NUL \<and> maxsize \<noteq> 0 then strnlen_loop s (maxsize - 1) (n + 1) else n)"

definition strnlen_s :: "string \<Rightarrow> nat \<Rightarrow> nat" where
  "strnlen_s s maxsize = trunc32 (strnlen_loop s maxsize 0)"

definition is_digit :: "char \<Rightarrow> bool" where
  "is_digit c = (CHR ''0'' \<le> c \<and> c \<le> CHR ''9'')"

fun atoi :: "string \<Rightarrow> nat \<Rightarrow> nat \<times> string" where
  "atoi [] i = (i, [])"
| "atoi (c # s) i = (if is_digit c then atoi s (trunc32 (i * 10 + (ch c - ch CHR ''0''))) else (i, c # s))"

text \<open>The loops that pad with spaces while a counter is below the width.\<close>

function pad_loop :: "out_fct \<Rightarrow> nat \<Rightarrow> nat \<Rightarrow> nat \<Rightarrow> pst \<Rightarrow> pst" where
  "pad_loop f maxlen i width st =
     (if i < width then pad_loop f maxlen (i + 1) width (emit f maxlen CHR '' '' st) else st)"
  by pat_completeness auto
termination
  by (relation "measure (\<lambda>(f, maxlen, i, width, st). width - i)") auto

declare pad_loop.simps [simp del]

section \<open>Integers\<close>

primrec rev_loop :: "out_fct \<Rightarrow> nat \<Rightarrow> string \<Rightarrow> nat \<Rightarrow> pst \<Rightarrow> pst" where
  "rev_loop f maxlen b 0 st = st"
| "rev_loop f maxlen b (Suc len) st = rev_loop f maxlen b len (emit f maxlen (b ! len) st)"

definition out_rev :: "out_fct \<Rightarrow> nat \<Rightarrow> string \<Rightarrow> nat \<Rightarrow> flags \<Rightarrow> pst \<Rightarrow> pst" where
  "out_rev f maxlen b width flags st =
     (let start_idx = fst st;
          st = (if \<not> has flags (flag FLAGS_LEFT) \<and> \<not> has flags (flag FLAGS_ZEROPAD)
                then pad_loop f maxlen (length b) width st else st);
          st = rev_loop f maxlen b (length b) st
      in if has flags (flag FLAGS_LEFT) then pad_loop f maxlen (fst st - start_idx) width st else st)"

text \<open>The buffer is the list of the characters stored so far, \<^verbatim>\<open>len\<close> its length.\<close>

function pad_zeros :: "string \<Rightarrow> nat \<Rightarrow> string" where
  "pad_zeros b limit =
     (if length b < limit \<and> length b < NTOA_BUFFER_SIZE then pad_zeros (b @ [CHR ''0'']) limit else b)"
  by pat_completeness auto
termination
  by (relation "measure (\<lambda>(b, limit). limit - length b)") auto

declare pad_zeros.simps [simp del]

definition put_if_room :: "string \<Rightarrow> char \<Rightarrow> string" where
  "put_if_room b c = (if length b < NTOA_BUFFER_SIZE then b @ [c] else b)"

definition ntoa_hash :: "string \<Rightarrow> nat \<Rightarrow> nat \<Rightarrow> nat \<Rightarrow> flags \<Rightarrow> string" where
  "ntoa_hash b base prec width flags =
     (let b = (if \<not> has flags (flag FLAGS_PRECISION) \<and> b \<noteq> [] \<and> (length b = prec \<or> length b = width)
               then let b = butlast b in if b \<noteq> [] \<and> base = 16 then butlast b else b
               else b);
          b = (if base = 16 \<and> \<not> has flags (flag FLAGS_UPPERCASE) \<and> length b < NTOA_BUFFER_SIZE then b @ [CHR ''x'']
               else if base = 16 \<and> has flags (flag FLAGS_UPPERCASE) \<and> length b < NTOA_BUFFER_SIZE then b @ [CHR ''X'']
               else if base = 2 \<and> length b < NTOA_BUFFER_SIZE then b @ [CHR ''b'']
               else b)
      in put_if_room b CHR ''0'')"

definition ntoa_buf :: "string \<Rightarrow> bool \<Rightarrow> nat \<Rightarrow> nat \<Rightarrow> nat \<Rightarrow> flags \<Rightarrow> string \<times> nat" where
  "ntoa_buf b negative base prec width flags =
     (let (b, width) =
        (if \<not> has flags (flag FLAGS_LEFT)
         then let width = (if width \<noteq> 0 \<and> has flags (flag FLAGS_ZEROPAD) \<and> (negative \<or> has flags ((flag FLAGS_PLUS) OR (flag FLAGS_SPACE)))
                           then width - 1 else width);
                  b = pad_zeros b prec
              in (if has flags (flag FLAGS_ZEROPAD) then pad_zeros b width else b, width)
         else (b, width));
        b = (if has flags (flag FLAGS_HASH) then ntoa_hash b base prec width flags else b)
      in (if length b < NTOA_BUFFER_SIZE
          then if negative then b @ [CHR ''-'']
               else if has flags (flag FLAGS_PLUS) then b @ [CHR ''+'']
               else if has flags (flag FLAGS_SPACE) then b @ [CHR '' '']
               else b
          else b, width))"

definition ntoa_format :: "out_fct \<Rightarrow> nat \<Rightarrow> string \<Rightarrow> bool \<Rightarrow> nat \<Rightarrow> nat \<Rightarrow> nat \<Rightarrow> flags \<Rightarrow> pst \<Rightarrow> pst" where
  "ntoa_format f maxlen b negative base prec width flags st =
     (let (b, width) = ntoa_buf b negative base prec width flags in out_rev f maxlen b width flags st)"

definition digit_char :: "nat \<Rightarrow> flags \<Rightarrow> char" where
  "digit_char d flags =
     (if d < 10 then char_of (ch CHR ''0'' + d)
      else char_of (ch (if has flags (flag FLAGS_UPPERCASE) then CHR ''A'' else CHR ''a'') + d - 10))"

function ntoa_digits :: "nat \<Rightarrow> nat \<Rightarrow> flags \<Rightarrow> string \<Rightarrow> string" where
  "ntoa_digits v base flags b =
     (let b = b @ [digit_char (v mod base) flags]; v = v div base in
      if v \<noteq> 0 \<and> length b < NTOA_BUFFER_SIZE then ntoa_digits v base flags b else b)"
  by pat_completeness auto
termination
  by (relation "measure (\<lambda>(v, base, flags, b). NTOA_BUFFER_SIZE - length b)") auto

declare ntoa_digits.simps [simp del]

text \<open>\<^verbatim>\<open>long\<close> and \<^verbatim>\<open>long long\<close> have the same width, so the two conversions do the same.\<close>

definition ntoa_long :: "out_fct \<Rightarrow> nat \<Rightarrow> nat \<Rightarrow> bool \<Rightarrow> nat \<Rightarrow> nat \<Rightarrow> nat \<Rightarrow> flags \<Rightarrow> pst \<Rightarrow> pst" where
  "ntoa_long f maxlen v negative base prec width flags st =
     (let flags = (if v = 0 then flags AND NOT (flag FLAGS_HASH) else flags);
          b = (if \<not> has flags (flag FLAGS_PRECISION) \<or> v \<noteq> 0 then ntoa_digits v base flags [] else [])
      in ntoa_format f maxlen b negative base prec width flags st)"

definition ntoa_long_long :: "out_fct \<Rightarrow> nat \<Rightarrow> nat \<Rightarrow> bool \<Rightarrow> nat \<Rightarrow> nat \<Rightarrow> nat \<Rightarrow> flags \<Rightarrow> pst \<Rightarrow> pst" where
  "ntoa_long_long f maxlen v negative base prec width flags st =
     (let flags = (if v = 0 then flags AND NOT (flag FLAGS_HASH) else flags);
          b = (if \<not> has flags (flag FLAGS_PRECISION) \<or> v \<noteq> 0 then ntoa_digits v base flags [] else [])
      in ntoa_format f maxlen b negative base prec width flags st)"

lemma ntoa_long_long_eq: "ntoa_long_long = ntoa_long"
  by (intro ext) (simp add: ntoa_long_long_def ntoa_long_def)

section \<open>Arguments\<close>

text \<open>The variable arguments: integers and pointers as 64-bit words of which \<^verbatim>\<open>int\<close> uses the low half,
  strings (or a null pointer), and floating point numbers by their bits. Reading an argument that is
  missing or of another kind is undefined.\<close>

datatype arg = AWord "64 word" | AStr "string option" | ADouble "64 word"

fun va_word :: "arg list \<Rightarrow> (64 word \<times> arg list) res" where
  "va_word (AWord w # va) = Inr (w, va)"
| "va_word _ = Inl Undefined"

fun va_str :: "arg list \<Rightarrow> (string option \<times> arg list) res" where
  "va_str (AStr s # va) = Inr (s, va)"
| "va_str _ = Inl Undefined"

fun va_double :: "arg list \<Rightarrow> (64 word \<times> arg list) res" where
  "va_double (ADouble d # va) = Inr (d, va)"
| "va_double _ = Inl Undefined"

definition va_int :: "arg list \<Rightarrow> (int \<times> arg list) res" where
  "va_int va = rbind (va_word va) (\<lambda>(w, va). Inr (sint (ucast w :: 32 word), va))"

section \<open>Format specifiers\<close>

fun eval_flags :: "string \<Rightarrow> flags \<Rightarrow> flags \<times> string" where
  "eval_flags [] flags = (flags, [])"
| "eval_flags (c # fmt) flags =
     (if c = CHR ''0'' then eval_flags fmt (flags OR (flag FLAGS_ZEROPAD))
      else if c = CHR ''-'' then eval_flags fmt (flags OR (flag FLAGS_LEFT))
      else if c = CHR ''+'' then eval_flags fmt (flags OR (flag FLAGS_PLUS))
      else if c = CHR '' '' then eval_flags fmt (flags OR (flag FLAGS_SPACE))
      else if c = CHR ''#'' then eval_flags fmt (flags OR (flag FLAGS_HASH))
      else (flags, c # fmt))"

text \<open>Negating the smallest \<^verbatim>\<open>int\<close> is undefined.\<close>

definition eval_width :: "string \<Rightarrow> flags \<Rightarrow> arg list \<Rightarrow> (nat \<times> flags \<times> string \<times> arg list) res" where
  "eval_width fmt flags va =
     (if is_digit (deref fmt) then let (width, fmt) = atoi fmt 0 in Inr (width, flags, fmt, va)
      else if deref fmt = CHR ''*'' then
        rbind (va_int va) (\<lambda>(w, va).
        if w = - (2 ^ 31) then Inl Undefined
        else if w < 0 then Inr (nat (- w), flags OR (flag FLAGS_LEFT), tl fmt, va)
        else Inr (nat w, flags, tl fmt, va))
      else Inr (0, flags, fmt, va))"

definition eval_precision :: "string \<Rightarrow> flags \<Rightarrow> arg list \<Rightarrow> (nat \<times> flags \<times> string \<times> arg list) res" where
  "eval_precision fmt flags va =
     (if deref fmt = CHR ''.'' then
        let flags = flags OR (flag FLAGS_PRECISION); fmt = tl fmt in
        if is_digit (deref fmt) then let (prec, fmt) = atoi fmt 0 in Inr (prec, flags, fmt, va)
        else if deref fmt = CHR ''*'' then
          rbind (va_int va) (\<lambda>(prec, va). Inr (if prec > 0 then nat prec else 0, flags, tl fmt, va))
        else Inr (0, flags, fmt, va)
      else Inr (0, flags, fmt, va))"

definition eval_length :: "string \<Rightarrow> flags \<Rightarrow> flags \<times> string" where
  "eval_length fmt flags =
     (if deref fmt = CHR ''l'' then
        let flags = flags OR (flag FLAGS_LONG); fmt = tl fmt in
        if deref fmt = CHR ''l'' then (flags OR (flag FLAGS_LONG_LONG), tl fmt) else (flags, fmt)
      else if deref fmt = CHR ''h'' then
        let flags = flags OR (flag FLAGS_SHORT); fmt = tl fmt in
        if deref fmt = CHR ''h'' then (flags OR (flag FLAGS_CHAR), tl fmt) else (flags, fmt)
      else if deref fmt = CHR ''t'' \<or> deref fmt = CHR ''j'' \<or> deref fmt = CHR ''z'' then (flags OR (flag FLAGS_LONG), tl fmt)
      else (flags, fmt))"

section \<open>Conversions\<close>

text \<open>The magnitude of a signed argument; the negation overflows for the smallest value of its type.\<close>

definition magnitude :: "int \<Rightarrow> nat \<Rightarrow> nat res" where
  "magnitude v w = (if v = - (2 ^ (w - 1)) then Inl Undefined else Inr (nat (if v > 0 then v else 0 - v)))"

definition int_base :: "char \<Rightarrow> nat" where
  "int_base c = (if c = CHR ''x'' \<or> c = CHR ''X'' then 16 else if c = CHR ''o'' then 8 else if c = CHR ''b'' then 2 else 10)"

definition int_flags :: "char \<Rightarrow> flags \<Rightarrow> flags" where
  "int_flags c flags =
     (let flags = (if int_base c = 10 then flags AND NOT (flag FLAGS_HASH) else flags);
          flags = (if c = CHR ''X'' then flags OR (flag FLAGS_UPPERCASE) else flags);
          flags = (if c \<noteq> CHR ''i'' \<and> c \<noteq> CHR ''d'' then flags AND NOT ((flag FLAGS_PLUS) OR (flag FLAGS_SPACE)) else flags)
      in if has flags (flag FLAGS_PRECISION) then flags AND NOT (flag FLAGS_ZEROPAD) else flags)"

definition signed_arg :: "flags \<Rightarrow> 64 word \<Rightarrow> (bool \<times> nat) res" where
  "signed_arg flags w =
     (if has flags (flag FLAGS_LONG_LONG) \<or> has flags (flag FLAGS_LONG)
      then rbind (magnitude (sint w) 64) (\<lambda>v. Inr (sint w < 0, v))
      else
        let v = (if has flags (flag FLAGS_CHAR) then sint (ucast w :: 8 word)
                 else if has flags (flag FLAGS_SHORT) then sint (ucast w :: 16 word)
                 else sint (ucast w :: 32 word))
        in rbind (magnitude v 32) (\<lambda>u. Inr (v < 0, u)))"

definition unsigned_arg :: "flags \<Rightarrow> 64 word \<Rightarrow> nat" where
  "unsigned_arg flags w =
     (if has flags (flag FLAGS_LONG_LONG) \<or> has flags (flag FLAGS_LONG) then unat w
      else if has flags (flag FLAGS_CHAR) then unat (ucast w :: 8 word)
      else if has flags (flag FLAGS_SHORT) then unat (ucast w :: 16 word)
      else unat (ucast w :: 32 word))"

definition conv_int :: "out_fct \<Rightarrow> nat \<Rightarrow> char \<Rightarrow> flags \<Rightarrow> nat \<Rightarrow> nat \<Rightarrow> arg list \<Rightarrow> pst \<Rightarrow> (arg list \<times> pst) res" where
  "conv_int f maxlen c flags width prec va st =
     (let base = int_base c; flags = int_flags c flags in
      rbind (va_word va) (\<lambda>(w, va).
      if c = CHR ''i'' \<or> c = CHR ''d''
      then rbind (signed_arg flags w) (\<lambda>(negative, v).
           Inr (va, (if has flags (flag FLAGS_LONG_LONG) then ntoa_long_long else ntoa_long)
             f maxlen v negative base prec width flags st))
      else Inr (va, (if has flags (flag FLAGS_LONG_LONG) then ntoa_long_long else ntoa_long)
             f maxlen (unsigned_arg flags w) False base prec width flags st)))"

definition conv_char :: "out_fct \<Rightarrow> nat \<Rightarrow> flags \<Rightarrow> nat \<Rightarrow> arg list \<Rightarrow> pst \<Rightarrow> (arg list \<times> pst) res" where
  "conv_char f maxlen flags width va st =
     (let st = (if \<not> has flags (flag FLAGS_LEFT) then pad_loop f maxlen 1 width st else st) in
      rbind (va_word va) (\<lambda>(w, va).
      let st = emit f maxlen (char_of (unat (ucast w :: 8 word))) st
      in Inr (va, if has flags (flag FLAGS_LEFT) then pad_loop f maxlen 1 width st else st)))"

fun str_loop :: "out_fct \<Rightarrow> nat \<Rightarrow> flags \<Rightarrow> nat \<Rightarrow> string \<Rightarrow> pst \<Rightarrow> pst" where
  "str_loop f maxlen flags prec [] st = st"
| "str_loop f maxlen flags prec (c # p) st =
     (if c \<noteq> NUL \<and> (\<not> has flags (flag FLAGS_PRECISION) \<or> prec \<noteq> 0)
      then str_loop f maxlen flags (prec - 1) p (emit f maxlen c st) else st)"

definition conv_str :: "out_fct \<Rightarrow> nat \<Rightarrow> flags \<Rightarrow> nat \<Rightarrow> nat \<Rightarrow> arg list \<Rightarrow> pst \<Rightarrow> (arg list \<times> pst) res" where
  "conv_str f maxlen flags width prec va st =
     rbind (va_str va) (\<lambda>(p, va).
     let p = (case p of None \<Rightarrow> ''(null)'' | Some p \<Rightarrow> p);
         l = strnlen_s p (if prec \<noteq> 0 then prec else NPOS);
         l = (if has flags (flag FLAGS_PRECISION) then if l < prec then l else prec else l);
         st = (if \<not> has flags (flag FLAGS_LEFT) then pad_loop f maxlen l width st else st);
         st = str_loop f maxlen flags prec p st
     in Inr (va, if has flags (flag FLAGS_LEFT) then pad_loop f maxlen l width st else st))"

text \<open>The floating point parameters give the characters printed for the bits of a number, a precision, a
  width and the flags.\<close>

type_synonym float_conv = "64 word \<Rightarrow> nat \<Rightarrow> nat \<Rightarrow> flags \<Rightarrow> string"

definition conv_float :: "float_conv \<Rightarrow> out_fct \<Rightarrow> nat \<Rightarrow> flags \<Rightarrow> nat \<Rightarrow> nat \<Rightarrow> arg list \<Rightarrow> pst \<Rightarrow> (arg list \<times> pst) res" where
  "conv_float conv f maxlen flags width prec va st =
     rbind (va_double va) (\<lambda>(d, va). Inr (va, fold (emit f maxlen) (conv d prec width flags) st))"

definition conv_ptr :: "out_fct \<Rightarrow> nat \<Rightarrow> flags \<Rightarrow> nat \<Rightarrow> arg list \<Rightarrow> pst \<Rightarrow> (arg list \<times> pst) res" where
  "conv_ptr f maxlen flags prec va st =
     (let width = 8 * 2; flags = flags OR (flag FLAGS_ZEROPAD) OR (flag FLAGS_UPPERCASE) in
      rbind (va_word va) (\<lambda>(w, va). Inr (va, ntoa_long_long f maxlen (unat w) False 16 prec width flags st)))"

text \<open>The conversion character. A format that ends after the percent sign has the terminator printed and
  is then read behind its end.\<close>

definition eval_specifier :: "float_conv \<Rightarrow> float_conv \<Rightarrow> out_fct \<Rightarrow> nat \<Rightarrow> char \<Rightarrow> flags \<Rightarrow> nat \<Rightarrow> nat \<Rightarrow> arg list \<Rightarrow> pst \<Rightarrow> (arg list \<times> pst) res" where
  "eval_specifier ftoa etoa f maxlen c flags width prec va st =
     (if c \<in> {CHR ''d'', CHR ''i'', CHR ''u'', CHR ''x'', CHR ''X'', CHR ''o'', CHR ''b''}
      then conv_int f maxlen c flags width prec va st
      else if c = CHR ''f'' \<or> c = CHR ''F''
      then conv_float ftoa f maxlen (if c = CHR ''F'' then flags OR (flag FLAGS_UPPERCASE) else flags) width prec va st
      else if c \<in> {CHR ''e'', CHR ''E'', CHR ''g'', CHR ''G''}
      then let flags = (if c = CHR ''g'' \<or> c = CHR ''G'' then flags OR (flag FLAGS_ADAPT_EXP) else flags);
               flags = (if c = CHR ''E'' \<or> c = CHR ''G'' then flags OR (flag FLAGS_UPPERCASE) else flags)
           in conv_float etoa f maxlen flags width prec va st
      else if c = CHR ''c'' then conv_char f maxlen flags width va st
      else if c = CHR ''s'' then conv_str f maxlen flags width prec va st
      else if c = CHR ''p''
      then conv_ptr f maxlen flags prec va st
      else if c = NUL then Inl Undefined
      else Inr (va, emit f maxlen c st))"

definition eval_format :: "float_conv \<Rightarrow> float_conv \<Rightarrow> out_fct \<Rightarrow> nat \<Rightarrow> string \<Rightarrow> arg list \<Rightarrow> pst \<Rightarrow> (string \<times> arg list \<times> pst) res" where
  "eval_format ftoa etoa f maxlen fmt va st =
     (let (flags, fmt) = eval_flags fmt 0 in
      rbind (eval_width fmt flags va) (\<lambda>(width, flags, fmt, va).
      rbind (eval_precision fmt flags va) (\<lambda>(prec, flags, fmt, va).
      let (flags, fmt) = eval_length fmt flags in
      rbind (eval_specifier ftoa etoa f maxlen (deref fmt) flags width prec va st) (\<lambda>(va, st).
      Inr (tl fmt, va, st)))))"

lemma eval_flags_length: "length (snd (eval_flags fmt flags)) \<le> length fmt"
  by (induction fmt arbitrary: flags) (simp_all add: le_SucI)

lemma atoi_length: "length (snd (atoi s i)) \<le> length s"
  by (induction s arbitrary: i) (simp_all add: le_SucI)

lemma eval_width_length:
  assumes "eval_width fmt flags va = Inr (w, flags', fmt', va')"
  shows "length fmt' \<le> length fmt"
proof -
  have "length (snd (atoi fmt 0)) \<le> length fmt" "length (tl fmt) \<le> length fmt"
    by (rule atoi_length) simp
  then show ?thesis
    using assms unfolding eval_width_def
    by (simp add: rbind_eq_Inr split: if_split_asm prod.split_asm) force+
qed

lemma eval_precision_length:
  assumes "eval_precision fmt flags va = Inr (w, flags', fmt', va')"
  shows "length fmt' \<le> length fmt"
proof -
  have "length (snd (atoi (tl fmt) 0)) \<le> length fmt" "length (tl (tl fmt)) \<le> length fmt" "length (tl fmt) \<le> length fmt"
    using atoi_length [of "tl fmt" 0] by simp_all
  then show ?thesis
    using assms unfolding eval_precision_def Let_def
    by (simp add: rbind_eq_Inr split: if_split_asm prod.split_asm) force+
qed

lemma eval_length_length: "length (snd (eval_length fmt flags)) \<le> length fmt"
  by (simp add: eval_length_def Let_def)

lemma eval_format_length:
  assumes "eval_format ftoa etoa f maxlen fmt va st = Inr (fmt', va', st')"
  shows "length fmt' \<le> length fmt"
proof -
  obtain fl1 f1 where 1: "eval_flags fmt 0 = (fl1, f1)" by (cases "eval_flags fmt 0")
  obtain w fl2 f2 va2 where 2: "eval_width f1 fl1 va = Inr (w, fl2, f2, va2)"
    using assms 1 by (auto simp: eval_format_def rbind_eq_Inr)
  obtain p fl3 f3 va3 where 3: "eval_precision f2 fl2 va2 = Inr (p, fl3, f3, va3)"
    using assms 1 2 by (auto simp: eval_format_def rbind_eq_Inr)
  obtain fl4 f4 where 4: "eval_length f3 fl3 = (fl4, f4)" by (cases "eval_length f3 fl3")
  have "fmt' = tl f4"
    using assms 1 2 3 4 by (auto simp: eval_format_def rbind_eq_Inr)
  then show ?thesis
    using eval_flags_length [of fmt 0] eval_width_length [OF 2] eval_precision_length [OF 3]
      eval_length_length [of f3 fl3] 1 4 by simp
qed

function vsn_loop :: "float_conv \<Rightarrow> float_conv \<Rightarrow> out_fct \<Rightarrow> nat \<Rightarrow> string \<Rightarrow> arg list \<Rightarrow> pst \<Rightarrow> pst res" where
  "vsn_loop ftoa etoa f maxlen fmt va st =
     (if deref fmt = NUL then Inr st
      else if deref fmt \<noteq> CHR ''%'' then vsn_loop ftoa etoa f maxlen (tl fmt) va (emit f maxlen (deref fmt) st)
      else rbind (eval_format ftoa etoa f maxlen (tl fmt) va st) (\<lambda>(fmt, va, st).
           vsn_loop ftoa etoa f maxlen fmt va st))"
  by pat_completeness auto
termination
proof (relation "measure (\<lambda>(ftoa, etoa, f, maxlen, fmt, va, st). length fmt)", goal_cases)
  case (2 ftoa etoa f maxlen fmt va st)
  then show ?case by (cases fmt) auto
next
  case (3 ftoa etoa f maxlen fmt va st)
  then show ?case by (cases fmt) (auto dest!: eval_format_length)
qed simp

declare vsn_loop.simps [simp del]

text \<open>The terminator goes behind the text or to the last byte of the buffer; the subtraction wraps around for
  a buffer of size 0.\<close>

definition vsn_end :: "out_fct \<Rightarrow> nat \<Rightarrow> pst \<Rightarrow> nat \<times> sink" where
  "vsn_end f maxlen st =
     (case st of (i, s) \<Rightarrow> (trunc32 i, out f NUL (if i < maxlen then i else sub64 maxlen 1) maxlen s))"

text \<open>Output to a null buffer is dropped.\<close>

definition vsnprintf_out :: "float_conv \<Rightarrow> float_conv \<Rightarrow> out_fct \<Rightarrow> bool \<Rightarrow> nat \<Rightarrow> string \<Rightarrow> arg list \<Rightarrow> sink \<Rightarrow> (nat \<times> sink) res" where
  "vsnprintf_out ftoa etoa f isnull maxlen fmt va s =
     (let f = (if isnull then Out_null else f) in
      rbind (vsn_loop ftoa etoa f maxlen fmt va (0, s)) (\<lambda>st. Inr (vsn_end f maxlen st)))"

definition printf where "printf ftoa etoa = vsnprintf_out ftoa etoa Out_char False NPOS"
definition sprintf where "sprintf ftoa etoa isnull = vsnprintf_out ftoa etoa Out_buffer isnull NPOS"
definition snprintf where "snprintf ftoa etoa isnull count = vsnprintf_out ftoa etoa Out_buffer isnull count"
definition vprintf where "vprintf ftoa etoa = vsnprintf_out ftoa etoa Out_char False NPOS"
definition vprintf2 where "vprintf2 ftoa etoa = vsnprintf_out ftoa etoa Out_char2 False NPOS"
definition vsnprintf where "vsnprintf ftoa etoa isnull count = vsnprintf_out ftoa etoa Out_buffer isnull count"
definition fctprintf where "fctprintf ftoa etoa = vsnprintf_out ftoa etoa Out_fct False NPOS"
definition vfctprintf where "vfctprintf ftoa etoa = vsnprintf_out ftoa etoa Out_fct False NPOS"

section \<open>What is printed\<close>

abbreviation emits :: "out_fct \<Rightarrow> nat \<Rightarrow> string \<Rightarrow> pst \<Rightarrow> pst" where
  "emits f maxlen cs \<equiv> fold (emit f maxlen) cs"

lemma fst_emit [simp]: "fst (emit f m c st) = fst st + 1"
  by (simp add: emit_def split: prod.splits)

lemma fst_emits [simp]: "fst (emits f m cs st) = fst st + length cs"
  by (induction cs arbitrary: st) simp_all

lemma pad_loop_eq: "pad_loop f m i width st = emits f m (replicate (width - i) CHR '' '') st"
proof (induction f m i width st rule: pad_loop.induct)
  case (1 f m i width st)
  show ?case
  proof (cases "i < width")
    case True
    then have "width - i = Suc (width - (i + 1))" by simp
    then show ?thesis using 1 True by (subst pad_loop.simps) (simp del: fold_replicate)
  qed (simp add: pad_loop.simps)
qed

lemma rev_loop_eq: "len \<le> length b \<Longrightarrow> rev_loop f m b len st = emits f m (rev (take len b)) st"
  by (induction len arbitrary: st) (simp_all add: take_Suc_conv_app_nth)

definition out_rev_text :: "string \<Rightarrow> nat \<Rightarrow> flags \<Rightarrow> string" where
  "out_rev_text b width flags =
     (let pad = replicate (width - length b) CHR '' '' in
      (if \<not> has flags (flag FLAGS_LEFT) \<and> \<not> has flags (flag FLAGS_ZEROPAD) then pad else []) @ rev b @
      (if has flags (flag FLAGS_LEFT) then pad else []))"

lemma out_rev_eq: "out_rev f m b width flags st = emits f m (out_rev_text b width flags) st"
  by (simp add: out_rev_def out_rev_text_def pad_loop_eq rev_loop_eq Let_def)

definition ntoa_text :: "nat \<Rightarrow> bool \<Rightarrow> nat \<Rightarrow> nat \<Rightarrow> nat \<Rightarrow> flags \<Rightarrow> string" where
  "ntoa_text v negative base prec width flags =
     (let flags = (if v = 0 then flags AND NOT (flag FLAGS_HASH) else flags);
          b = (if \<not> has flags (flag FLAGS_PRECISION) \<or> v \<noteq> 0 then ntoa_digits v base flags [] else []);
          (b, width) = ntoa_buf b negative base prec width flags
      in out_rev_text b width flags)"

lemma ntoa_long_eq:
  "ntoa_long f m v negative base prec width flags st = emits f m (ntoa_text v negative base prec width flags) st"
  by (simp add: ntoa_long_def ntoa_format_def ntoa_text_def out_rev_eq Let_def split: prod.splits)

lemma str_loop_eq:
  "str_loop f m flags prec p st =
   emits f m (if has flags (flag FLAGS_PRECISION) then take prec (cstr p) else cstr p) st"
  by (induction f m flags prec p st rule: str_loop.induct) (auto simp: take_Cons')

text \<open>A printing step produces the same characters for every output function and every buffer size.\<close>

definition prints :: "(out_fct \<Rightarrow> nat \<Rightarrow> pst \<Rightarrow> ('x \<times> pst) res) \<Rightarrow> bool" where
  "prints g = (\<exists>r. \<forall>f m st. g f m st = rbind r (\<lambda>(x, cs). Inr (x, emits f m cs st)))"

lemma printsI: "(\<And>f m st. g f m st = rbind r (\<lambda>(x, cs). Inr (x, emits f m cs st))) \<Longrightarrow> prints g"
  by (auto simp: prints_def)

lemma prints_emits: "prints (\<lambda>f m st. Inr (x, emits f m cs st))"
  by (rule printsI [where r = "Inr (x, cs)"]) simp

lemma prints_emit: "prints (\<lambda>f m st. Inr (x, emit f m c st))"
  using prints_emits [of x "[c]"] by simp

lemma prints_Inl: "prints (\<lambda>f m st. Inl e)"
  by (rule printsI [where r = "Inl e"]) simp

lemma prints_rbind: "(\<And>x. m = Inr x \<Longrightarrow> prints (\<lambda>f k st. g x f k st)) \<Longrightarrow> prints (\<lambda>f k st. rbind m (\<lambda>x. g x f k st))"
  by (cases m) (simp_all add: prints_Inl)

lemma prints_if: "prints g \<Longrightarrow> prints h \<Longrightarrow> prints (\<lambda>f m st. if b then g f m st else h f m st)"
  by (cases b) simp_all

lemma prints_conv_int: "prints (\<lambda>f m st. conv_int f m c flags width prec va st)"
  unfolding conv_int_def Let_def case_prod_unfold ntoa_long_long_eq if_cancel ntoa_long_eq
  by (intro prints_rbind prints_if prints_emits)

lemma prints_conv_float: "prints (\<lambda>f m st. conv_float conv f m flags width prec va st)"
  unfolding conv_float_def Let_def case_prod_unfold
  by (intro prints_rbind prints_if prints_emits)

lemma emits_emit_emits: "emits f m ds (emit f m c (emits f m cs st)) = emits f m (cs @ c # ds) st"
  by simp

lemma prints_conv_char: "prints (\<lambda>f m st. conv_char f m flags width va st)"
proof (cases "va_word va")
  case (Inl e)
  then show ?thesis by (simp add: conv_char_def prints_Inl)
next
  case (Inr p)
  let ?pad = "replicate (width - 1) CHR '' ''"
  let ?c = "char_of (unat (ucast (fst p) :: 8 word))"
  show ?thesis
    by (rule printsI [where r = "Inr (snd p, if has flags (flag FLAGS_LEFT) then ?c # ?pad else ?pad @ [?c])"])
      (simp add: conv_char_def Inr pad_loop_eq Let_def case_prod_unfold)
qed

lemma prints_conv_str: "prints (\<lambda>f m st. conv_str f m flags width prec va st)"
proof (cases "va_str va")
  case (Inl e)
  then show ?thesis by (simp add: conv_str_def prints_Inl)
next
  case (Inr q)
  let ?p = "case fst q of None \<Rightarrow> ''(null)'' | Some p \<Rightarrow> p"
  let ?l = "let l = strnlen_s ?p (if prec \<noteq> 0 then prec else NPOS) in
    if has flags (flag FLAGS_PRECISION) then if l < prec then l else prec else l"
  let ?pad = "replicate (width - ?l) CHR '' ''"
  let ?s = "if has flags (flag FLAGS_PRECISION) then take prec (cstr ?p) else cstr ?p"
  show ?thesis
  proof (rule printsI [where r = "Inr (snd q, if has flags (flag FLAGS_LEFT) then ?s @ ?pad else ?pad @ ?s)"])
    fix f m and st :: pst
    show "conv_str f m flags width prec va st =
        rbind (Inr (snd q, if has flags (flag FLAGS_LEFT) then ?s @ ?pad else ?pad @ ?s)) (\<lambda>(x, cs). Inr (x, emits f m cs st))"
      by (cases "has flags (flag FLAGS_LEFT)")
        (simp_all only: conv_str_def Inr pad_loop_eq str_loop_eq Let_def case_prod_unfold rbind_Inr fst_conv snd_conv
          fold_append comp_apply simp_thms if_True if_False)
  qed
qed

lemma prints_specifier: "prints (\<lambda>f m st. eval_specifier ftoa etoa f m c flags width prec va st)"
  unfolding eval_specifier_def conv_ptr_def Let_def case_prod_unfold ntoa_long_long_eq if_cancel ntoa_long_eq
  by (intro prints_if prints_rbind prints_conv_int prints_conv_float prints_conv_char prints_conv_str prints_emits prints_emit prints_Inl)


lemma prints_format: "prints (\<lambda>f m st. rbind (eval_format ftoa etoa f m fmt va st) (\<lambda>(fmt, va, st). Inr ((fmt, va), st)))"
proof -
  have "prints (\<lambda>f m st. rbind (eval_specifier ftoa etoa f m c flags width prec va st) (\<lambda>(va, st). Inr ((fmt, va), st)))"
    for c flags width prec va fmt
  proof -
    obtain r where r: "\<And>f m st. eval_specifier ftoa etoa f m c flags width prec va st = rbind r (\<lambda>(x, cs). Inr (x, emits f m cs st))"
      using prints_specifier [of ftoa etoa c flags width prec va] by (auto simp: prints_def)
    show ?thesis
      by (rule printsI [where r = "rbind r (\<lambda>(x, cs). Inr ((fmt, x), cs))"]) (cases r, auto simp: r)
  qed
  then show ?thesis
    unfolding eval_format_def Let_def case_prod_unfold rbind_assoc rbind_Inr fst_conv snd_conv
    by (intro prints_rbind)
qed

lemma prints_loop:
  "\<exists>r. \<forall>f m st. vsn_loop ftoa etoa f m fmt va st = rbind r (\<lambda>cs. Inr (emits f m cs st))"
proof (induction "length fmt" arbitrary: fmt va rule: less_induct)
  case less
  consider "deref fmt = NUL" | "deref fmt \<noteq> NUL" "deref fmt \<noteq> CHR ''%''" | "deref fmt = CHR ''%''"
    by blast
  then show ?case
  proof cases
    case 1
    then show ?thesis by (intro exI [of _ "Inr []"]) (simp add: vsn_loop.simps)
  next
    case 2
    then have "length (tl fmt) < length fmt" by (cases fmt) auto
    from less [OF this] obtain r where
      r: "\<And>f m st. vsn_loop ftoa etoa f m (tl fmt) va st = rbind r (\<lambda>cs. Inr (emits f m cs st))" by blast
    have "vsn_loop ftoa etoa f m fmt va st =
        rbind (rbind r (\<lambda>cs. Inr (deref fmt # cs))) (\<lambda>cs. Inr (emits f m cs st))" for f m st
      using 2 by (subst vsn_loop.simps) (cases r, simp_all add: r)
    then show ?thesis by blast
  next
    case 3
    obtain r where r: "\<And>f m st. rbind (eval_format ftoa etoa f m (tl fmt) va st) (\<lambda>(fmt, va, st). Inr ((fmt, va), st)) =
        rbind r (\<lambda>(x, cs). Inr (x, emits f m cs st))"
      using prints_format [of ftoa etoa "tl fmt" va] by (auto simp: prints_def)
    have step: "vsn_loop ftoa etoa f m fmt va st =
        rbind r (\<lambda>(x, cs). vsn_loop ftoa etoa f m (fst x) (snd x) (emits f m cs st))" for f m st
      using 3 r [of f m st]
      by (subst vsn_loop.simps) (cases "eval_format ftoa etoa f m (tl fmt) va st"; cases r; auto)
    show ?thesis
    proof (cases r)
      case (Inl e)
      then show ?thesis by (intro exI [of _ "Inl e"]) (simp add: step)
    next
      case (Inr y)
      obtain fmt' va' cs where y: "y = ((fmt', va'), cs)" by (cases y) auto
      from r [of Out_null 0 "(0, undefined)"] Inr y
      have "length fmt' \<le> length (tl fmt)"
        by (auto simp: rbind_eq_Inr dest!: eval_format_length)
      moreover have "length (tl fmt) < length fmt" using 3 by (cases fmt) auto
      ultimately obtain r2 where
        r2: "\<And>f m st. vsn_loop ftoa etoa f m fmt' va' st = rbind r2 (\<lambda>cs. Inr (emits f m cs st))"
        using less [of fmt' va'] by auto
      have "vsn_loop ftoa etoa f m fmt va st =
          rbind (rbind r2 (\<lambda>ds. Inr (cs @ ds))) (\<lambda>cs. Inr (emits f m cs st))" for f m st
        by (cases r2) (simp_all add: step Inr y r2)
      then show ?thesis by blast
    qed
  qed
qed

lemma emit_buffer: "emit Out_buffer m c (i, s) = (i + 1, s\<lparr>sbuf := if i < m then (sbuf s)(i := c) else sbuf s\<rparr>)"
  by (simp add: emit_def out_def)

lemma emits_buffer:
  "emits Out_buffer m cs (i, s) =
   (i + length cs, s\<lparr>sbuf := \<lambda>k. if i \<le> k \<and> k < i + length cs \<and> k < m then cs ! (k - i) else sbuf s k\<rparr>)"
proof (induction cs arbitrary: i s)
  case Nil
  show ?case by (auto intro!: sink.equality ext)
next
  case (Cons c cs)
  show ?case by (auto intro!: sink.equality ext simp: emit_buffer Cons nth_Cons')
qed

definition snprintf_result :: "nat \<Rightarrow> string \<Rightarrow> sink \<Rightarrow> sink" where
  "snprintf_result count cs s =
     (let n = min (length cs) (count - 1) in
      s\<lparr>sbuf := \<lambda>k. if count = 0 then sbuf s k else if k < n then cs ! k else if k = n then NUL else sbuf s k\<rparr>)"

lemma vsnprintf_buffer:
  assumes "\<And>f m st. vsn_loop ftoa etoa f m fmt va st = Inr (emits f m cs st)" and "count < 2 ^ 64"
  shows "snprintf ftoa etoa False count fmt va s = Inr (trunc32 (length cs), snprintf_result count cs s)"
proof -
  have "\<not> sub64 0 1 < (0 :: nat)" by simp
  moreover have "sub64 count 1 = count - 1" if "0 < count" using that assms(2) by (simp add: sub64_small)
  ultimately show ?thesis
    by (auto simp: snprintf_def vsnprintf_out_def vsn_end_def assms(1) emits_buffer out_def snprintf_result_def Let_def
        intro!: sink.equality ext)
qed

section \<open>Digits\<close>

lemma class_ch:
  "ISDIGIT c \<longleftrightarrow> 48 \<le> ch c \<and> ch c \<le> 57" "ISUPPERCASE c \<longleftrightarrow> 65 \<le> ch c \<and> ch c \<le> 90"
  "ISLOWERCASE c \<longleftrightarrow> 97 \<le> ch c \<and> ch c \<le> 122"
  by (simp_all add: ISDIGIT_def ISUPPERCASE_def ISLOWERCASE_def ch_def less_eq_char_def)

lemma ch_inj: "c = d \<longleftrightarrow> ch c = ch d"
  by (simp add: ch_def)

lemma ch_digit_char:
  assumes "d < 16"
  shows "ch (digit_char d flags) = (if d < 10 then 48 + d else (if has flags (flag FLAGS_UPPERCASE) then 55 else 87) + d)"
  using assms by (simp add: digit_char_def ch_def)

lemma digit_value_char:
  assumes "d < 16"
  shows "digit_value (digit_char d flags) = d" "d < base \<Longrightarrow> is_digit_for base (digit_char d flags)"
proof -
  have k: "ch CHR ''A'' = 65" "ch CHR ''a'' = 97" "ch CHR ''0'' = 48" by (simp_all add: ch_def)
  show "digit_value (digit_char d flags) = d"
    using assms by (simp add: digit_value_def class_ch ch_digit_char k)
  show "is_digit_for base (digit_char d flags)" if "d < base"
    using assms that by (auto simp: is_digit_for_def ISLETTER_def class_ch ch_digit_char)
qed

lemma ntoa_digits_eq:
  assumes "2 \<le> base" "length b < NTOA_BUFFER_SIZE"
  shows "\<exists>ds. ntoa_digits v base flags b = b @ map (\<lambda>d. digit_char d flags) ds \<and> ds \<noteq> [] \<and>
    (\<forall>d \<in> set ds. d < base) \<and> length b + length ds \<le> NTOA_BUFFER_SIZE \<and>
    foldr (\<lambda>d n. d + base * n) ds 0 = v mod base ^ (NTOA_BUFFER_SIZE - length b) \<and>
    (v < base ^ (NTOA_BUFFER_SIZE - length b) \<longrightarrow> last ds \<noteq> 0 \<or> ds = [0])"
  using assms(2)
proof (induction "NTOA_BUFFER_SIZE - length b" arbitrary: b v rule: less_induct)
  case less
  let ?c = "digit_char (v mod base) flags"
  have k: "base ^ (NTOA_BUFFER_SIZE - length b) = base * base ^ (NTOA_BUFFER_SIZE - Suc (length b))"
    using less.prems by (simp add: Suc_diff_Suc flip: power_Suc)
  have m: "v mod base ^ (NTOA_BUFFER_SIZE - length b) =
      v mod base + base * (v div base mod base ^ (NTOA_BUFFER_SIZE - Suc (length b)))"
    unfolding k by (simp add: mod_mult2_eq)
  show ?case
  proof (cases "v div base \<noteq> 0 \<and> length b + 1 < NTOA_BUFFER_SIZE")
    case True
    then have "NTOA_BUFFER_SIZE - length (b @ [?c]) < NTOA_BUFFER_SIZE - length b"
      by (intro diff_less_mono2) auto
    with True obtain ds where ds: "ntoa_digits (v div base) base flags (b @ [?c]) = (b @ [?c]) @ map (\<lambda>d. digit_char d flags) ds"
      "\<forall>d \<in> set ds. d < base" "length (b @ [?c]) + length ds \<le> NTOA_BUFFER_SIZE"
      "foldr (\<lambda>d n. d + base * n) ds 0 = v div base mod base ^ (NTOA_BUFFER_SIZE - length (b @ [?c]))"
      "ds \<noteq> []" "v div base < base ^ (NTOA_BUFFER_SIZE - length (b @ [?c])) \<longrightarrow> last ds \<noteq> 0 \<or> ds = [0]"
      using less.hyps [of "b @ [?c]" "v div base"] by auto
    have "ntoa_digits v base flags b = b @ map (\<lambda>d. digit_char d flags) (v mod base # ds)"
      using True ds(1) by (subst ntoa_digits.simps) simp
    moreover have "last (v mod base # ds) \<noteq> 0" if "v < base ^ (NTOA_BUFFER_SIZE - length b)"
    proof -
      have "v div base < base ^ (NTOA_BUFFER_SIZE - Suc (length b))"
        using that assms(1) unfolding k by (simp add: less_mult_imp_div_less mult.commute)
      with ds(4,5,6) True show ?thesis by auto
    qed
    ultimately show ?thesis
      using ds(2-5) assms(1) m by (intro exI [of _ "v mod base # ds"]) auto
  next
    case False
    have "ntoa_digits v base flags b = b @ map (\<lambda>d. digit_char d flags) [v mod base]"
      using False by (subst ntoa_digits.simps) auto
    moreover have "v div base mod base ^ (NTOA_BUFFER_SIZE - Suc (length b)) = 0"
      using False less.prems by auto
    ultimately show ?thesis
      using less.prems assms(1) m by (intro exI [of _ "[v mod base]"]) auto
  qed
qed

lemma digits_loop_append:
  assumes "\<forall>c \<in> set s. is_digit_for base c"
  shows "digits_loop base (s @ t) n = digits_loop base t (digits_loop base s n)"
  using assms by (induction s arbitrary: n) auto

lemma digits_loop_rev:
  assumes "\<forall>d \<in> set ds. d < base" "base \<le> 16"
  shows "digits_loop base (rev (map (\<lambda>d. digit_char d flags) ds)) 0 = foldr (\<lambda>d n. d + base * n) ds 0 mod 2 ^ 64"
  using assms(1)
proof (induction ds)
  case (Cons d ds)
  let ?s = "rev (map (\<lambda>d. digit_char d flags) ds)"
  have "\<forall>c \<in> set ?s. is_digit_for base c"
    using Cons.prems assms(2) by (auto intro!: digit_value_char(2))
  moreover have "digit_value (digit_char d flags) = d" "is_digit_for base (digit_char d flags)"
    using Cons.prems assms(2) by (auto intro!: digit_value_char)
  ultimately show ?case
    using Cons by (simp add: digits_loop_append add64_def mul64_def mod_simps algebra_simps)
qed simp


lemma parse_digits:
  assumes "4 \<le> base" "base \<le> 16" "v < 2 ^ 64"
  shows "str_to_uint (rev (ntoa_digits v base flags [])) base = Inr v"
proof -
  have "(2::nat) ^ 64 \<le> base ^ NTOA_BUFFER_SIZE"
    using power_mono [OF assms(1), of NTOA_BUFFER_SIZE] by (simp add: NTOA_BUFFER_SIZE_def)
  with assms(3) have v: "v < base ^ NTOA_BUFFER_SIZE" by simp
  obtain ds where ds: "ntoa_digits v base flags [] = map (\<lambda>d. digit_char d flags) ds" "ds \<noteq> []"
    "\<forall>d \<in> set ds. d < base" "foldr (\<lambda>d n. d + base * n) ds 0 = v" "last ds \<noteq> 0 \<or> ds = [0]"
    using ntoa_digits_eq [of base "[]" v flags] assms(1) v by (auto simp: NTOA_BUFFER_SIZE_def)
  let ?s = "rev (map (\<lambda>d. digit_char d flags) ds)"
  have l: "last ds < 16" using ds(2,3) assms(2) by (auto intro: order.strict_trans2)
  have s: "deref ?s = digit_char (last ds) flags"
    using ds(2) by (cases ds rule: rev_cases) simp_all
  have "deref ?s \<noteq> CHR ''-''" and z: "deref ?s = CHR ''0'' \<longleftrightarrow> last ds = 0"
    unfolding s ch_inj [of "digit_char (last ds) flags"] ch_digit_char [OF l] by (simp_all add: ch_def)
  moreover have "tl ?s = []" if "last ds = 0"
    using ds(5) that by auto
  ultimately show ?thesis
    using digits_loop_rev [OF ds(3) assms(2), of flags] assms(3)
    by (simp add: str_to_uint_def ds(1,4))
qed

lemma loop_unsigned:
  assumes "c = CHR ''u'' \<or> c = CHR ''x''"
  shows "\<exists>flags. \<forall>f m st. vsn_loop ftoa etoa f m [CHR ''%'', CHR ''l'', c] [AWord w] st =
    Inr (emits f m (rev (ntoa_digits (unat w) (int_base c) flags [])) st)"
proof -
  have p: "pad_zeros b 0 = b" for b by (simp add: pad_zeros.simps)
  have d: "deref [c] = c" "tl [c] = []" by simp_all
  show ?thesis
    using assms
    by (elim disjE) (rule exI [of _ "flag FLAGS_LONG"];
      simp add: vsn_loop.simps eval_format_def eval_width_def eval_precision_def eval_length_def is_digit_def
        eval_specifier_def conv_int_def int_base_def int_flags_def unsigned_arg_def ntoa_long_long_eq ntoa_long_eq ntoa_text_def
        ntoa_buf_def out_rev_text_def has_def flag.simps
        flag.simps p Let_def)+
qed

section \<open>Properties\<close>



text \<open>C19: What \<^verbatim>\<open>snprintf\<close> prints for a 64-bit number with \<^verbatim>\<open>%lu\<close> or \<^verbatim>\<open>%lx\<close>, \<^verbatim>\<open>str_to_uint\<close> reads back as that number.\<close>

theorem print_parse_roundtrip:
  assumes "c = CHR ''u'' \<or> c = CHR ''x''" and "NTOA_BUFFER_SIZE < count" and "count < 2 ^ 64"
  shows "\<exists>n s'. snprintf ftoa etoa False count [CHR ''%'', CHR ''l'', c] [AWord w] s = Inr (n, s') \<and>
    str_to_uint (map (sbuf s') [0..<n]) (int_base c) = Inr (unat w)"
proof -
  obtain flags where l: "\<And>f m st. vsn_loop ftoa etoa f m [CHR ''%'', CHR ''l'', c] [AWord w] st =
      Inr (emits f m (rev (ntoa_digits (unat w) (int_base c) flags [])) st)"
    using loop_unsigned [OF assms(1)] by blast
  let ?cs = "rev (ntoa_digits (unat w) (int_base c) flags [])"
  have b: "4 \<le> int_base c" "int_base c \<le> 16" using assms(1) by (auto simp: int_base_def)
  have len: "length ?cs \<le> NTOA_BUFFER_SIZE"
    using ntoa_digits_eq [of "int_base c" "[]" "unat w" flags] b by (auto simp: NTOA_BUFFER_SIZE_def)
  have "snprintf ftoa etoa False count [CHR ''%'', CHR ''l'', c] [AWord w] s =
      Inr (length ?cs, snprintf_result count ?cs s)"
    using vsnprintf_buffer [OF l assms(3)] len by (simp add: trunc32_def NTOA_BUFFER_SIZE_def)
  moreover have "map (sbuf (snprintf_result count ?cs s)) [0..<length ?cs] = ?cs"
    using len assms(2) by (intro nth_equalityI) (simp_all add: snprintf_result_def Let_def)
  ultimately show ?thesis
    using parse_digits [OF b, of "unat w" flags] unsigned_less [of w] by auto
qed

theorem print_parse_roundtrip_witness:
  "\<forall>s. \<exists>n s'. snprintf (\<lambda>_ _ _ _. []) (\<lambda>_ _ _ _. []) False 64 ''%lx'' [AWord 48879] s = Inr (n, s') \<and>
    str_to_uint (map (sbuf s') [0..<n]) 16 = Inr 48879"
  using print_parse_roundtrip [of "CHR ''x''" 64 "\<lambda>_ _ _ _. []" "\<lambda>_ _ _ _. []" 48879]
  by (simp add: NTOA_BUFFER_SIZE_def int_base_def)

text \<open>In binary only the lowest 32 digits of a number are converted, whatever the width of its type.\<close>

theorem binary_truncated: "digits_loop 2 (rev (ntoa_digits v 2 flags [])) 0 = v mod 2 ^ 32"
proof -
  obtain ds where "ntoa_digits v 2 flags [] = map (\<lambda>d. digit_char d flags) ds" "\<forall>d \<in> set ds. d < 2"
    "foldr (\<lambda>d n. d + 2 * n) ds 0 = v mod 2 ^ NTOA_BUFFER_SIZE"
    using ntoa_digits_eq [of 2 "[]" v flags] by (auto simp: NTOA_BUFFER_SIZE_def)
  then show ?thesis using digits_loop_rev [of ds 2 flags] by (simp add: NTOA_BUFFER_SIZE_def)
qed

end
