(* ===== verification/Paging.thy ===== *)
theory Paging
  imports Watermark
begin

text \<open>
  The four-level page tables of \<^verbatim>\<open>arch/amd64/paging.cc\<close>. Tables are only reached through page-aligned
  pointers, so the memory that holds them maps the address of a table and an index to an entry.
  New tables come from the watermark allocator. \<open>translate\<close> is the walk of the hardware;
  \<^verbatim>\<open>map_page\<close> and \<^verbatim>\<open>paging_lookup\<close> are related to it.
\<close>

section \<open>Entries and indices\<close>

definition NX :: "64 word" where
  "NX = push_bit 63 1"

definition HH :: "64 word" where
  "HH = 0xffff800000000000"

datatype MFLAGS =
    MF_s1G | MF_s2M | MF_s4K | MF_EXE | MF_HUGE | MF_USER | MF_RW | MF_PRESENT | MF_KDATA | MF_UDATA | MF_KCODE | MF_UCODE

fun mflag :: "MFLAGS \<Rightarrow> 64 word" where
  "mflag MF_s1G = push_bit 31 1"
| "mflag MF_s2M = push_bit 30 1"
| "mflag MF_s4K = push_bit 29 1"
| "mflag MF_EXE = push_bit 32 1"
| "mflag MF_HUGE = 0x80"
| "mflag MF_USER = 4"
| "mflag MF_RW = 2"
| "mflag MF_PRESENT = 1"
| "mflag MF_KDATA = 2 OR 1"
| "mflag MF_UDATA = 4 OR (2 OR 1)"
| "mflag MF_KCODE = push_bit 32 1 OR 1"
| "mflag MF_UCODE = 4 OR (push_bit 32 1 OR 1)"

declare mflag.simps [simp del]

datatype MCACHE = WB | WT | UC_WC | UC | WP | WC

fun cache_code :: "MCACHE \<Rightarrow> 64 word" where
  "cache_code WB = 0" | "cache_code WT = 1" | "cache_code UC_WC = 2"
| "cache_code UC = 3" | "cache_code WP = 4" | "cache_code WC = 5"

definition ADDR_PTI :: "64 word \<Rightarrow> 64 word" where "ADDR_PTI a = drop_bit 12 a AND 511"
definition ADDR_PDI :: "64 word \<Rightarrow> 64 word" where "ADDR_PDI a = drop_bit 21 a AND 511"
definition ADDR_PDPI :: "64 word \<Rightarrow> 64 word" where "ADDR_PDPI a = drop_bit 30 a AND 511"
definition ADDR_PML4I :: "64 word \<Rightarrow> 64 word" where "ADDR_PML4I a = drop_bit 39 a AND 511"

text \<open>The union \<^verbatim>\<open>page_table_entry_t\<close>: the low twelve bits read and written as \<^verbatim>\<open>flags\<close>, and the address.\<close>

definition eflags :: "64 word \<Rightarrow> 64 word" where
  "eflags e = e AND 0xfff"

definition set_eflags :: "64 word \<Rightarrow> 64 word \<Rightarrow> 64 word" where
  "set_eflags e f = (e AND NOT 0xfff) OR (f AND 0xfff)"

definition getaddr :: "64 word \<Rightarrow> 64 word" where
  "getaddr e = e AND NOT (0xfff OR NX)"

definition getvaddr :: "64 word \<Rightarrow> 64 word" where
  "getvaddr e = getaddr e OR HH"

type_synonym tables = "64 word \<Rightarrow> 64 word \<Rightarrow> 64 word"

text \<open>\<open>cr3reg\<close> is the hardware register that \<^verbatim>\<open>pml4\<close> is read from on first use.\<close>

record vm =
  tables :: tables
  wmst :: wm
  pml4 :: "64 word"
  cr3reg :: "64 word"

section \<open>Lookup\<close>

definition page_virt :: "64 word \<Rightarrow> 64 word" where
  "page_virt e = (e AND NOT 0xfff) OR HH"

definition no_bit63 :: "64 word \<Rightarrow> 64 word" where
  "no_bit63 a = a AND NOT (NX)"

text \<open>The lookup tests the entry that it takes for a page directory entry before it tests whether the
  level above is a 1 GiB page, and then returns the address in the direct map.\<close>

definition paging_lookup :: "tables \<Rightarrow> 64 word \<Rightarrow> 64 word \<Rightarrow> 64 word" where
  "paging_lookup t cr3 virt =
     (let e4 = t cr3 (ADDR_PML4I virt) in
      if eflags e4 AND 1 = 0 then -1
      else
        let pdp = page_virt e4; e3 = t pdp (ADDR_PDPI virt) in
        if eflags e3 AND 1 = 0 then -1
        else
          let pd = page_virt e3; e2 = t pd (ADDR_PDI virt) in
          if eflags e2 AND 1 = 0 then -1
          else if eflags e3 AND (mflag MF_HUGE) \<noteq> 0 then no_bit63 (pd + (virt AND (push_bit 30 1 - 1)))
          else
            let pt = page_virt e2 in
            if eflags e2 AND (mflag MF_HUGE) \<noteq> 0 then no_bit63 ((pt + (virt AND 0x1fffff)) AND NOT HH)
            else
              let e1 = t pt (ADDR_PTI virt) in
              if eflags e1 AND 1 = 0 then -1
              else no_bit63 ((e1 AND NOT 0xfff) + (virt AND 0xfff)))"

definition init_pml4 :: "vm \<Rightarrow> vm" where
  "init_pml4 st = (if pml4 st = 0 then st\<lparr>pml4 := cr3reg st OR HH\<rparr> else st)"

definition paging_lookup_current :: "vm \<Rightarrow> 64 word \<Rightarrow> 64 word \<times> vm" where
  "paging_lookup_current st virt = (let st = init_pml4 st in (paging_lookup (tables st) (pml4 st) virt, st))"

text \<open>What \<^verbatim>\<open>paging_track\<close> reports: the entries on the path, each with its address. It does not test the
  present bits.\<close>

definition paging_track :: "vm \<Rightarrow> 64 word \<Rightarrow> (64 word \<times> 64 word) list \<times> vm" where
  "paging_track st virt =
     (let st = init_pml4 st; t = tables st;
          T4 = pml4 st; e4 = t T4 (ADDR_PML4I virt);
          T3 = getvaddr e4; e3 = t T3 (ADDR_PDPI virt);
          T2 = getvaddr e3; e2 = t T2 (ADDR_PDI virt);
          T1 = getvaddr e2; e1 = t T1 (ADDR_PTI virt);
          r4 = (e4, T4 + 8 * ADDR_PML4I virt); r3 = (e3, T3 + 8 * ADDR_PDPI virt);
          r2 = (e2, T2 + 8 * ADDR_PDI virt); r1 = (e1, T1 + 8 * ADDR_PTI virt)
      in (if eflags e3 AND (mflag MF_HUGE) \<noteq> 0 then [r4, r3]
          else if eflags e2 AND (mflag MF_HUGE) \<noteq> 0 then [r4, r3, r2] else [r4, r3, r2, r1], st))"

section \<open>Mapping\<close>

definition allocpage :: "vm \<Rightarrow> (64 word \<times> vm) res" where
  "allocpage st = rbind (wm_alloc (wmst st) 0x1000 0x1000) (\<lambda>(p, w). Inr (of_nat p, st\<lparr>wmst := w\<rparr>))"

definition set_entry :: "vm \<Rightarrow> 64 word \<Rightarrow> 64 word \<Rightarrow> 64 word \<Rightarrow> vm" where
  "set_entry st T i e = st\<lparr>tables := (tables st)(T := (tables st T)(i := e))\<rparr>"

definition clear_nx :: "vm \<Rightarrow> 64 word \<Rightarrow> 64 word \<Rightarrow> vm" where
  "clear_nx st T i = set_entry st T i (tables st T i AND NOT (NX))"

text \<open>One level down, as the code does it three times: follow a present entry, passing the user flag on,
  or install a zeroed table.\<close>

definition next_table :: "vm \<Rightarrow> 64 word \<Rightarrow> 64 word \<Rightarrow> 64 word \<Rightarrow> 64 word \<Rightarrow> (64 word \<times> vm) res" where
  "next_table st T i flags exemask =
     (let e = tables st T i in
      if eflags e AND (mflag MF_PRESENT) \<noteq> 0 then
        Inr (page_virt e,
             if flags AND (mflag MF_USER) \<noteq> 0 then set_entry st T i (set_eflags e (eflags e OR (mflag MF_USER))) else st)
      else
        rbind (allocpage st) (\<lambda>(p, st).
        let st = st\<lparr>tables := (tables st)(p := (\<lambda>_. 0))\<rparr>;
            st = set_entry st T i ((p AND NOT HH) OR exemask)
        in Inr (p, set_entry st T i (set_eflags (tables st T i) flags))))"

text \<open>The final entry, written the same way for every page size: the address, then, for an executable page,
  the no-execute bits of all levels are cleared, then the flags.\<close>

definition write_page :: "vm \<Rightarrow> (64 word \<times> 64 word) list \<Rightarrow> 64 word \<Rightarrow> 64 word \<Rightarrow> 64 word \<Rightarrow> 64 word \<Rightarrow> 64 word \<Rightarrow> vm" where
  "write_page st path T i phys exemask flags =
     (let st = set_entry st T i (phys OR exemask);
          st = (if exemask = 0 then fold (\<lambda>(T, i) st. clear_nx st T i) (path @ [(T, i)]) st else st)
      in set_entry st T i (set_eflags (tables st T i) flags))"

definition map_page_at :: "vm \<Rightarrow> 64 word \<Rightarrow> 64 word \<Rightarrow> 64 word \<Rightarrow> 64 word \<Rightarrow> 64 word \<Rightarrow> vm res" where
  "map_page_at st cr3 virt phys flags cache =
     (let patbits4k = push_bit 3 (cache AND 1) OR push_bit 4 (drop_bit 1 cache AND 1) OR push_bit 7 (drop_bit 2 cache AND 1);
          patbits2m = push_bit 3 (cache AND 1) OR push_bit 4 (drop_bit 1 cache AND 1) OR push_bit 12 (drop_bit 2 cache AND 1);
          exemask = (if flags AND (mflag MF_EXE) \<noteq> 0 then 0 else NX);
          shift = (if flags AND (mflag MF_s2M) \<noteq> 0 then 21 else if flags AND (mflag MF_s1G) \<noteq> 0 then 30 else 12);
          phys = phys AND NOT (push_bit shift 1 - 1);
          virt = virt AND NOT (push_bit shift 1 - 1);
          flags = flags AND (push_bit 13 1 - 1);
          i4 = ADDR_PML4I virt; i3 = ADDR_PDPI virt; i2 = ADDR_PDI virt; i1 = ADDR_PTI virt in
      rbind (next_table st cr3 i4 flags exemask) (\<lambda>(pdp, st).
      if shift = 30 then Inr (write_page st [(cr3, i4)] pdp i3 phys exemask (flags OR (mflag MF_HUGE) OR patbits2m))
      else
      rbind (next_table st pdp i3 flags exemask) (\<lambda>(pd, st).
      if shift = 21 then Inr (write_page st [(cr3, i4), (pdp, i3)] pd i2 phys exemask (flags OR (mflag MF_HUGE) OR patbits2m))
      else
      rbind (next_table st pd i2 flags exemask) (\<lambda>(pt, st).
      Inr (write_page st [(cr3, i4), (pdp, i3), (pd, i2)] pt i1 phys exemask (flags OR patbits4k))))))"

text \<open>Mapping in the current address space. The TLB entry is invalidated afterwards.\<close>

definition map_page :: "vm \<Rightarrow> 64 word \<Rightarrow> 64 word \<Rightarrow> 64 word \<Rightarrow> 64 word \<Rightarrow> vm res" where
  "map_page st virt phys flags cache =
     (let st = init_pml4 st in map_page_at st (pml4 st) virt phys flags cache)"

definition check_page :: "vm \<Rightarrow> 64 word \<Rightarrow> 64 word \<Rightarrow> vm res" where
  "check_page st addr cache =
     (let (r, st) = paging_lookup_current st addr in
      if r = -1 then map_page st addr (addr AND NOT HH) 3 cache else Inr st)"

text \<open>The loop advances by bytes and multiplies the byte count by the page size once more.\<close>

function check_pages_loop :: "vm \<Rightarrow> 64 word \<Rightarrow> nat \<Rightarrow> nat \<Rightarrow> vm res" where
  "check_pages_loop st addr i n =
     (if i < n
      then rbind (check_page st (addr + of_nat (i * 0x1000)) (cache_code WB)) (\<lambda>st. check_pages_loop st addr (i + 0x1000) n)
      else Inr st)"
  by pat_completeness auto
termination
  by (relation "measure (\<lambda>(st, addr, i, n). n - i)") auto

declare check_pages_loop.simps [simp del]

definition check_pages :: "vm \<Rightarrow> 64 word \<Rightarrow> nat \<Rightarrow> vm res" where
  "check_pages st addr bytes = check_pages_loop st addr 0 (align64 bytes 0x1000)"

end
