(* ===== verification/PageWalk.thy ===== *)
theory PageWalk
  imports Paging
begin

text \<open>
  Correctness of the page tables: the walk of the hardware over a tree of tables, the effect on it of
  writing one entry, of installing an empty table and of writing a page entry, and from these the
  specification of \<^verbatim>\<open>map_page\<close> and its relation to \<^verbatim>\<open>paging_lookup\<close>.
\<close>

section \<open>The walk of the hardware\<close>

definition idx :: "nat \<Rightarrow> 64 word \<Rightarrow> 64 word" where
  "idx d v = drop_bit (39 - 9 * d) v AND 511"

definition present :: "64 word \<Rightarrow> bool" where
  "present e = bit e 0"

definition huge :: "64 word \<Rightarrow> bool" where
  "huge e = bit e 7"

text \<open>The table that the walk for an address uses at each level, and the resulting physical address.\<close>

primrec tab :: "tables \<Rightarrow> 64 word \<Rightarrow> nat \<Rightarrow> 64 word \<Rightarrow> 64 word option" where
  "tab t r 0 v = Some r"
| "tab t r (Suc d) v =
     (case tab t r d v of
        None \<Rightarrow> None
      | Some T \<Rightarrow> if present (t T (idx d v)) \<and> (d = 0 \<or> \<not> huge (t T (idx d v)))
                  then Some (getvaddr (t T (idx d v))) else None)"

definition page_at :: "64 word \<Rightarrow> nat \<Rightarrow> 64 word \<Rightarrow> 64 word" where
  "page_at e n v = getaddr e + (v AND mask n)"

definition translate :: "tables \<Rightarrow> 64 word \<Rightarrow> 64 word \<Rightarrow> 64 word option" where
  "translate t r v =
     (case tab t r 1 v of
        None \<Rightarrow> None
      | Some T3 \<Rightarrow> let e3 = t T3 (idx 1 v) in
          if \<not> present e3 then None
          else if huge e3 then Some (page_at e3 30 v)
          else case tab t r 2 v of
            None \<Rightarrow> None
          | Some T2 \<Rightarrow> let e2 = t T2 (idx 2 v) in
              if \<not> present e2 then None
              else if huge e2 then Some (page_at e2 21 v)
              else case tab t r 3 v of
                None \<Rightarrow> None
              | Some T1 \<Rightarrow> let e1 = t T1 (idx 3 v) in
                  if present e1 then Some (page_at e1 12 v) else None)"

text \<open>What the walk sees of an entry.\<close>

definition view :: "64 word \<Rightarrow> bool \<times> bool \<times> 64 word" where
  "view e = (present e, huge e, getaddr e)"

lemma view_eq:
  assumes "view e = view e'"
  shows "present e = present e'" "huge e = huge e'" "getaddr e = getaddr e'" "getvaddr e = getvaddr e'"
  using assms by (simp_all add: view_def getvaddr_def)

lemma page_masks: "(0xfff :: 64 word) = mask 12" "(0x1fffff :: 64 word) = mask 21" "(511 :: 64 word) = mask 9"
  by (simp_all add: mask_eq_exp_minus_1)

lemma HH_bits: "HH = push_bit 47 (mask 17)"
  by (simp add: HH_def mask_eq_exp_minus_1 push_bit_eq_mult)

lemma bit_HH [simp]: "bit HH n = (47 \<le> n \<and> n < 64)"
  by (auto simp: HH_bits bit_simps)

lemma bit_NX [simp]: "bit NX n = (n = 63)"
  by (simp only: NX_def bit_push_bit_iff bit_1_iff possible_bit_word) auto

lemma flag_bits: "(mflag MF_HUGE) = push_bit 7 1" "(mflag MF_USER) = push_bit 2 1" "(mflag MF_RW) = push_bit 1 1"
  by (simp_all add: mflag.simps push_bit_eq_mult)

lemma and_bit_zero: "(e AND push_bit n 1 = 0) = (\<not> bit e n)" for e :: "64 word"
  by (simp only: push_bit_of_1 and_exp_eq_0_iff_not_bit)

lemma bit_eflags: "bit (eflags e) n = (n < 12 \<and> bit e n)"
  by (auto simp: eflags_def page_masks bit_simps)

lemma eflags_PRESENT [simp]: "(eflags e AND (mflag MF_PRESENT) = 0) = (\<not> present e)"
  using and_bit_zero [of "eflags e" 0] by (simp add: mflag.simps present_def bit_eflags)

lemma eflags_present [simp]: "(eflags e AND 1 = 0) = (\<not> present e)"
  using eflags_PRESENT by (simp add: mflag.simps)

lemma eflags_huge [simp]: "(eflags e AND (mflag MF_HUGE) = 0) = (\<not> huge e)"
  using and_bit_zero [of "eflags e" 7] by (simp add: flag_bits huge_def bit_eflags)

lemma bit_getaddr: "bit (getaddr e) n = (12 \<le> n \<and> n < 63 \<and> bit e n)"
  by (auto simp: getaddr_def page_masks bit_simps dest: bit_imp_le_length)

lemma page_virt_eq: "page_virt e = getvaddr e"
  by (rule bit_word_eqI) (auto simp: page_virt_def getvaddr_def page_masks bit_simps bit_getaddr)

lemma bit_set_eflags: "bit (set_eflags e f) n = (if n < 12 then bit f n else bit e n)"
  by (auto simp: set_eflags_def page_masks bit_simps dest: bit_imp_le_length)

lemma view_eqI:
  assumes "\<And>n. n = 0 \<or> n = 7 \<or> 12 \<le> n \<and> n < 63 \<Longrightarrow> bit e n = bit e' n"
  shows "view e = view e'"
proof -
  have "getaddr e = getaddr e'"
    by (rule bit_word_eqI) (auto simp: bit_getaddr assms)
  then show ?thesis using assms by (simp add: view_def present_def huge_def)
qed

lemma view_user: "view (set_eflags e (eflags e OR (mflag MF_USER))) = view e"
  by (rule view_eqI) (auto simp: bit_set_eflags bit_eflags bit_simps flag_bits)

lemma view_nx: "view (e AND NOT NX) = view e"
  by (rule view_eqI) (auto simp: bit_simps)

lemma idx_macros:
  "ADDR_PML4I v = idx 0 v" "ADDR_PDPI v = idx 1 v" "ADDR_PDI v = idx 2 v" "ADDR_PTI v = idx 3 v"
  by (simp_all add: idx_def ADDR_PML4I_def ADDR_PDPI_def ADDR_PDI_def ADDR_PTI_def)

section \<open>Updates of the tables\<close>

text \<open>Updates that the walk does not see.\<close>

lemma tab_view:
  assumes "\<And>T i. view (t' T i) = view (t T i)"
  shows "tab t' r d v = tab t r d v"
  by (induction d) (auto split: option.splits simp: view_eq [OF assms])

lemma translate_view:
  assumes "\<And>T i. view (t' T i) = view (t T i)"
  shows "translate t' r v = translate t r v"
  by (simp only: translate_def tab_view [OF assms] view_eq [OF assms] page_at_def Let_def)

definition same_prefix :: "nat \<Rightarrow> 64 word \<Rightarrow> 64 word \<Rightarrow> bool" where
  "same_prefix d v v' = (\<forall>k<d. idx k v = idx k v')"

text \<open>No two positions of the tree share a table.\<close>

definition tree :: "tables \<Rightarrow> 64 word \<Rightarrow> bool" where
  "tree t r = (\<forall>d d' v v' T. d \<le> 3 \<longrightarrow> d' \<le> 3 \<longrightarrow> tab t r d v = Some T \<longrightarrow> tab t r d' v' = Some T \<longrightarrow>
     d = d' \<and> same_prefix d v v')"

definition table_set :: "tables \<Rightarrow> 64 word \<Rightarrow> 64 word set" where
  "table_set t r = {T. \<exists>d\<le>3. \<exists>v. tab t r d v = Some T}"

lemma treeD:
  assumes "tree t r" "tab t r d v = Some T" "tab t r d' v' = Some T" "d \<le> 3" "d' \<le> 3"
  shows "d = d'" "same_prefix d v v'"
  using assms unfolding tree_def by blast+

lemma same_prefix_Suc: "same_prefix (Suc d) v v' = (same_prefix d v v' \<and> idx d v = idx d v')"
  by (auto simp: same_prefix_def less_Suc_eq)

lemma tab_prefix: "same_prefix d v v' \<Longrightarrow> tab t r d v = tab t r d v'"
  by (induction d) (auto simp: same_prefix_Suc split: option.splits)

lemma tab_None_mono: "tab t r d v = None \<Longrightarrow> d \<le> d' \<Longrightarrow> tab t r d' v = None"
  by (induction d') (auto simp: le_Suc_eq)

lemma table_setI: "tab t r d v = Some T \<Longrightarrow> d \<le> 3 \<Longrightarrow> T \<in> table_set t r"
  by (auto simp: table_set_def)

text \<open>The entry that ends the walk for an address.\<close>

definition leaf :: "tables \<Rightarrow> 64 word \<Rightarrow> nat \<Rightarrow> 64 word \<Rightarrow> 64 word \<Rightarrow> bool" where
  "leaf t r d v T = (1 \<le> d \<and> d \<le> 3 \<and> tab t r d v = Some T \<and> present (t T (idx d v)) \<and> (d = 3 \<or> huge (t T (idx d v))))"

lemma depth_cases: "1 \<le> d \<and> d \<le> 3 \<longleftrightarrow> d = 1 \<or> d = 2 \<or> d = (3::nat)"
  by auto

lemma translate_leaf:
  "translate t r v = Some a \<longleftrightarrow> (\<exists>d T. leaf t r d v T \<and> a = page_at (t T (idx d v)) (39 - 9 * d) v)"
  unfolding leaf_def translate_def conj_assoc [symmetric] depth_cases
  by (auto simp: eval_nat_numeral Let_def split: option.splits if_splits)

lemma translate_eqI:
  assumes "\<And>d T. leaf t' r d v T \<longleftrightarrow> leaf t r d v T"
    and "\<And>d T. leaf t r d v T \<Longrightarrow> getaddr (t' T (idx d v)) = getaddr (t T (idx d v))"
  shows "translate t' r v = translate t r v"
proof (rule option.expand)
  have "page_at (t' T (idx d v)) n v = page_at (t T (idx d v)) n v" if "leaf t r d v T" for d T n
    using assms(2) [OF that] by (simp add: page_at_def)
  then have "translate t' r v = Some a \<longleftrightarrow> translate t r v = Some a" for a
    by (simp add: translate_leaf assms(1) cong: conj_cong)
  then show "(translate t' r v = None) = (translate t r v = None)"
    and "translate t' r v \<noteq> None \<Longrightarrow> translate t r v \<noteq> None \<Longrightarrow> the (translate t' r v) = the (translate t r v)"
    by (metis not_Some_eq, metis option.exhaust_sel option.sel)
qed

text \<open>Writing the entry at depth \<open>d\<close> on the path of \<open>v\<close> changes no table at a depth up to \<open>d\<close>
  and none outside the prefix.\<close>

definition overwrites :: "tables \<Rightarrow> tables \<Rightarrow> 64 word \<Rightarrow> nat \<Rightarrow> 64 word \<Rightarrow> 64 word \<Rightarrow> bool" where
  "overwrites t t' r d v T = (tree t r \<and> tab t r d v = Some T \<and> d \<le> 3 \<and>
     (\<forall>T' j. T' \<in> table_set t r \<longrightarrow> (T', j) \<noteq> (T, idx d v) \<longrightarrow> view (t' T' j) = view (t T' j)))"

lemma overwrites_other:
  assumes "overwrites t t' r d v T" "tab t r d' v' = Some T'" "d' \<le> 3"
  shows "(T', idx d' v') = (T, idx d v) \<longleftrightarrow> d' = d \<and> same_prefix (Suc d) v v'"
    and "\<not> (d' = d \<and> same_prefix (Suc d) v v') \<Longrightarrow> view (t' T' (idx d' v')) = view (t T' (idx d' v'))"
proof -
  show eq: "(T', idx d' v') = (T, idx d v) \<longleftrightarrow> d' = d \<and> same_prefix (Suc d) v v'"
  proof
    assume "(T', idx d' v') = (T, idx d v)"
    then show "d' = d \<and> same_prefix (Suc d) v v'"
      using assms treeD [of t r d v T d' v'] by (auto simp: overwrites_def same_prefix_Suc)
  next
    assume "d' = d \<and> same_prefix (Suc d) v v'"
    then show "(T', idx d' v') = (T, idx d v)"
      using assms tab_prefix [of d v v' t r] by (auto simp: overwrites_def same_prefix_Suc)
  qed
  assume "\<not> (d' = d \<and> same_prefix (Suc d) v v')"
  then show "view (t' T' (idx d' v')) = view (t T' (idx d' v'))"
    using assms eq table_setI [OF assms(2,3)] by (auto simp: overwrites_def)
qed

lemma tab_write_same:
  assumes w: "overwrites t t' r d v T"
  shows "d' \<le> 3 \<Longrightarrow> d' \<le> d \<or> \<not> same_prefix (Suc d) v v' \<Longrightarrow> tab t' r d' v' = tab t r d' v'"
proof (induction d')
  case (Suc d')
  show ?case
  proof (cases "tab t r d' v'")
    case (Some T')
    have *: "view (t' T' (idx d' v')) = view (t T' (idx d' v'))"
      by (rule overwrites_other(2) [OF w Some]) (use Suc.prems in auto)
    have "tab t' r d' v' = Some T'" using Suc Some by auto
    then show ?thesis using Some by (simp add: view_eq [OF *])
  qed (use Suc in auto)
qed simp

lemma overwrites_tab:
  assumes w: "overwrites t t' r d v T" and p: "same_prefix (Suc d) v v'"
  shows "tab t r d v' = Some T" and "tab t' r d v' = Some T" and "idx d v' = idx d v" and "d \<le> 3"
proof -
  have w': "tab t r d v = Some T" and d: "d \<le> 3" and p': "same_prefix d v v'" "idx d v = idx d v'"
    using w p by (simp_all add: overwrites_def same_prefix_Suc)
  show *: "tab t r d v' = Some T"
    by (rule trans [OF tab_prefix [OF p'(1), symmetric] w'])
  show "tab t' r d v' = Some T"
    by (rule trans [OF tab_write_same [OF w d] *]) simp
  show "idx d v' = idx d v" "d \<le> 3" using p' d by simp_all
qed

text \<open>Installing an empty table.\<close>

lemma tab_install:
  assumes w: "overwrites t t' r d v T" and "d \<le> 2"
    and e: "present (t' T (idx d v))" "\<not> huge (t' T (idx d v))" "getvaddr (t' T (idx d v)) = q"
    and zero: "\<And>i. \<not> present (t' q i)" and "d' \<le> 3"
  shows "tab t' r d' v' =
    (if same_prefix (Suc d) v v' \<and> d < d' then (if d' = Suc d then Some q else None) else tab t r d' v')"
proof (cases "same_prefix (Suc d) v v' \<and> d < d'")
  case True
  note T = overwrites_tab [OF w conjunct1 [OF True]]
  from T(2,3) have q: "tab t' r (Suc d) v' = Some q"
    using e by simp
  moreover have "tab t' r (Suc (Suc d)) v' = None"
    using q zero by simp
  ultimately show ?thesis
    using True tab_None_mono [of t' r "Suc (Suc d)" v' d'] by auto
next
  case False
  then show ?thesis using tab_write_same [OF w assms(7)] by auto
qed

lemma absent_below:
  assumes w: "overwrites t t' r d v T" and "\<not> present (t T (idx d v))" and "same_prefix (Suc d) v v'" and "d < d'"
  shows "tab t r d' v' = None"
proof -
  have "tab t r (Suc d) v' = None" using overwrites_tab [OF w assms(3)] assms(2) by simp
  then show ?thesis using assms(4) tab_None_mono [of t r "Suc d" v' d'] by simp
qed

lemma tree_install:
  assumes w: "overwrites t t' r d v T" and "d \<le> 2"
    and e: "present (t' T (idx d v))" "\<not> huge (t' T (idx d v))" "getvaddr (t' T (idx d v)) = q"
    and zero: "\<And>i. \<not> present (t' q i)" and q: "q \<notin> table_set t r"
  shows "tree t' r" and "table_set t' r \<subseteq> insert q (table_set t r)"
proof -
  note tab = tab_install [OF w assms(2) e zero]
  have char: "tab t' r d1 v1 = Some T' \<longleftrightarrow>
    (T' = q \<and> d1 = Suc d \<and> same_prefix (Suc d) v v1) \<or>
    (T' \<noteq> q \<and> \<not> (same_prefix (Suc d) v v1 \<and> d < d1) \<and> tab t r d1 v1 = Some T')" if "d1 \<le> 3" for d1 v1 T'
    using tab [OF that, of v1] q table_setI [OF _ that, of t r v1] by auto
  show "tree t' r"
    unfolding tree_def
  proof (intro allI impI)
    fix d1 d2 v1 v2 T'
    assume a: "d1 \<le> 3" "d2 \<le> 3" "tab t' r d1 v1 = Some T'" "tab t' r d2 v2 = Some T'"
    show "d1 = d2 \<and> same_prefix d1 v1 v2"
    proof (cases "T' = q")
      case True
      then show ?thesis using a char by (auto simp: same_prefix_def)
    next
      case False
      then show ?thesis using a char treeD [of t r d1 v1 T' d2 v2] w by (auto simp: overwrites_def)
    qed
  qed
  show "table_set t' r \<subseteq> insert q (table_set t r)"
    using char table_setI [of t r] by (auto simp: table_set_def)
qed

lemma translate_install:
  assumes w: "overwrites t t' r d v T" and "d \<le> 2"
    and e: "present (t' T (idx d v))" "\<not> huge (t' T (idx d v))" "getvaddr (t' T (idx d v)) = q"
    and zero: "\<And>i. \<not> present (t' q i)" and absent: "\<not> present (t T (idx d v))"
  shows "translate t' r v' = translate t r v'"
proof -
  note tab = tab_install [OF w assms(2) e zero]
  have other: "view (t' T' (idx d1 v')) = view (t T' (idx d1 v'))"
    if "leaf t r d1 v' T' \<or> leaf t' r d1 v' T'" "tab t r d1 v' = Some T'" for d1 T'
  proof (rule overwrites_other(2) [OF w that(2)])
    show "d1 \<le> 3" using that(1) by (auto simp: leaf_def)
    show "\<not> (d1 = d \<and> same_prefix (Suc d) v v')"
    proof
      assume s: "d1 = d \<and> same_prefix (Suc d) v v'"
      then have "(T', idx d1 v') = (T, idx d v)"
        using overwrites_other(1) [OF w that(2)] assms(2) by simp
      then show False using that(1) s e absent assms(2) by (auto simp: leaf_def)
    qed
  qed
  have iff: "leaf t' r d1 v' T' \<longleftrightarrow> leaf t r d1 v' T'" for d1 T'
  proof
    assume l: "leaf t' r d1 v' T'"
    then have "\<not> (same_prefix (Suc d) v v' \<and> d < d1)" and "d1 \<le> 3"
      using tab [of d1 v'] zero by (auto simp: leaf_def split: if_splits)
    then have T': "tab t r d1 v' = Some T'" using tab [of d1 v'] l by (auto simp: leaf_def)
    show "leaf t r d1 v' T'" using l T' view_eq [OF other [OF disjI2 [OF l] T']] by (simp add: leaf_def)
  next
    assume l: "leaf t r d1 v' T'"
    then have "\<not> (same_prefix (Suc d) v v' \<and> d < d1)" and "d1 \<le> 3"
      using absent_below [OF w absent, of v' d1] by (auto simp: leaf_def)
    then have T': "tab t' r d1 v' = Some T'" using tab [of d1 v'] l by (auto simp: leaf_def)
    have "tab t r d1 v' = Some T'" using l by (simp add: leaf_def)
    from view_eq [OF other [OF disjI1 [OF l] this]] show "leaf t' r d1 v' T'"
      using l T' by (simp add: leaf_def)
  qed
  show ?thesis
  proof (rule translate_eqI [OF iff])
    fix d1 T'
    assume l: "leaf t r d1 v' T'"
    then have "tab t r d1 v' = Some T'" by (simp add: leaf_def)
    from view_eq(3) [OF other [OF disjI1 [OF l] this]]
    show "getaddr (t' T' (idx d1 v')) = getaddr (t T' (idx d1 v'))" .
  qed
qed

text \<open>Writing a page entry.\<close>

lemma tab_leaf:
  assumes w: "overwrites t t' r d v T" and "1 \<le> d"
    and e: "d = 3 \<or> huge (t' T (idx d v))" and "d' \<le> 3"
  shows "tab t' r d' v' = (if same_prefix (Suc d) v v' \<and> d < d' then None else tab t r d' v')"
proof (cases "same_prefix (Suc d) v v' \<and> d < d'")
  case True
  have "tab t' r (Suc d) v' = None"
    using overwrites_tab [OF w conjunct1 [OF True]] True e assms(2,4) by auto
  then show ?thesis
    using True tab_None_mono [of t' r "Suc d" v' d'] by auto
next
  case False
  then show ?thesis using tab_write_same [OF w assms(4)] by auto
qed

lemma tree_leaf:
  assumes w: "overwrites t t' r d v T" and "1 \<le> d" and e: "d = 3 \<or> huge (t' T (idx d v))"
  shows "tree t' r" and "table_set t' r \<subseteq> table_set t r"
proof -
  have sub: "tab t r d1 v1 = Some T'" if "tab t' r d1 v1 = Some T'" "d1 \<le> 3" for d1 v1 T'
    using that tab_leaf [OF w assms(2) e, of d1 v1] by (auto split: if_splits)
  show "tree t' r"
    unfolding tree_def using sub w treeD unfolding overwrites_def by metis
  show "table_set t' r \<subseteq> table_set t r"
    unfolding table_set_def using sub by blast
qed

lemma translate_page:
  assumes w: "overwrites t t' r d v T" and "1 \<le> d"
    and e: "present (t' T (idx d v))" "d = 3 \<or> huge (t' T (idx d v))"
  shows "translate t' r v' =
    (if same_prefix (Suc d) v v' then Some (page_at (t' T (idx d v)) (39 - 9 * d) v') else translate t r v')"
proof -
  note tab = tab_leaf [OF w assms(2) e(2)]
  show ?thesis
  proof (cases "same_prefix (Suc d) v v'")
    case True
    have "leaf t' r d v' T"
      using overwrites_tab [OF w True] e assms(2) by (auto simp: leaf_def)
    then have "translate t' r v' = Some (page_at (t' T (idx d v')) (39 - 9 * d) v')"
      unfolding translate_leaf by blast
    then show ?thesis using True by (simp add: same_prefix_Suc)
  next
    case False
    have other: "view (t' T' (idx d1 v')) = view (t T' (idx d1 v'))" if "tab t r d1 v' = Some T'" "d1 \<le> 3" for d1 T'
      by (rule overwrites_other(2) [OF w that]) (use False in blast)
    have same: "tab t' r d1 v' = tab t r d1 v'" if "d1 \<le> 3" for d1
      using tab [OF that] False by simp
    have "translate t' r v' = translate t r v'"
    proof (rule translate_eqI)
      fix d1 T'
      show "leaf t' r d1 v' T' = leaf t r d1 v' T'"
      proof (cases "d1 \<le> 3 \<and> tab t r d1 v' = Some T'")
        case True
        then show ?thesis using same [of d1] view_eq [OF other [of d1 T']] by (simp add: leaf_def)
      next
        case False
        then show ?thesis using same [of d1] by (auto simp: leaf_def)
      qed
      show "getaddr (t' T' (idx d1 v')) = getaddr (t T' (idx d1 v'))" if "leaf t r d1 v' T'"
        using view_eq(3) [OF other [of d1 T']] that by (simp add: leaf_def)
    qed
    then show ?thesis using False by simp
  qed
qed

section \<open>Allocation of tables\<close>

definition room :: "wm \<Rightarrow> nat \<Rightarrow> bool" where
  "room w k = (\<exists>p. 0x1000 dvd p \<and> wm_cursor w \<le> p \<and> p + k * 0x1000 \<le> wm_cursor w + wm_free w)"

definition vm_ok :: "vm \<Rightarrow> 64 word \<Rightarrow> bool" where
  "vm_ok st r = (wm_ok (wmst st) \<and> HHDM \<le> wm_cursor (wmst st) \<and> tree (tables st) r \<and>
     (\<forall>T \<in> table_set (tables st) r. unat T \<notin> wm_avail (wmst st)))"

lemma high_bits:
  assumes "HHDM \<le> p" "p < 2 ^ 64" "47 \<le> n" "n < 64"
  shows "bit p n"
proof -
  have "p div 2 ^ 47 = mask 17"
    using assms(1,2) by (simp add: HHDM_def mask_eq_exp_minus_1)
  then have "bit (drop_bit 47 p) (n - 47)"
    using assms(3,4) by (simp add: drop_bit_eq_div bit_mask_iff)
  then show ?thesis using assms(3) by (simp add: bit_drop_bit_eq)
qed

lemma low_bits:
  assumes "0x1000 dvd p" "n < 12"
  shows "\<not> bit (p :: nat) n"
proof
  assume "bit p n"
  then have "bit (take_bit 12 p) n" using assms(2) by (simp add: bit_take_bit_iff)
  moreover have "take_bit 12 p = 0" using assms(1) by (simp add: take_bit_eq_mod dvd_imp_mod_0)
  ultimately show False by simp
qed

lemma table_entry:
  assumes "0x1000 dvd p" "HHDM \<le> p" "p < 2 ^ 64" "exemask = 0 \<or> exemask = NX" "bit flags 0" "\<not> bit flags 7"
  defines "e \<equiv> set_eflags ((of_nat p AND NOT HH) OR exemask) flags"
  shows "present e" "\<not> huge e" "getvaddr e = of_nat p"
proof -
  show "present e" "\<not> huge e"
    using assms(5,6) by (simp_all add: e_def present_def huge_def bit_set_eflags)
  have ex: "bit exemask n \<Longrightarrow> n = 63" for n using assms(4) by auto
  show "getvaddr e = of_nat p"
    by (rule bit_word_eqI)
      (use low_bits [OF assms(1)] high_bits [OF assms(2,3)] in
        \<open>auto simp: getvaddr_def e_def bit_getaddr bit_set_eflags bit_simps not_le dest: ex\<close>)
qed

lemma allocpage_ok:
  assumes "wm_ok (wmst st)" "HHDM \<le> wm_cursor (wmst st)" "room (wmst st) (Suc k)"
  obtains p w where "allocpage st = Inr (of_nat p, st\<lparr>wmst := w\<rparr>)" "0x1000 dvd p" "HHDM \<le> p" "p < 2 ^ 64"
    "wm_ok w" "HHDM \<le> wm_cursor w" "room w k" "p \<in> wm_avail (wmst st)" "p \<notin> wm_avail w"
    "wm_avail w \<subseteq> wm_avail (wmst st)"
proof -
  let ?w = "wmst st"
  let ?p = "wm_place ?w 0x1000 0x1000"
  have legal: "wm_legal (0x1000, 0x1000)" by (simp add: wm_legal_def)
  have size: "wm_size 0x1000 = 0x1000" "max 0x1000 (0x1000::nat) = 0x1000"
    by (simp_all add: align64_def add64_def sub64_def mul64_def)
  note b = wm_place_bounds [OF assms(1) legal, unfolded size]
  obtain r where r: "0x1000 dvd r" "wm_cursor ?w \<le> r" "r + Suc k * 0x1000 \<le> wm_cursor ?w + wm_free ?w"
    using assms(3) by (auto simp: room_def)
  have le: "align64 (wm_cursor ?w) 0x1000 \<le> r"
    using least_multiple [OF b(3,2)] r(1,2) by blast
  let ?q = "align64 (wm_cursor ?w) 0x1000"
  let ?w' = "?w\<lparr>wm_cursor := ?q + 0x1000, wm_free := wm_cursor ?w + wm_free ?w - (?q + 0x1000)\<rparr>"
  have fits: "?q + 0x1000 \<le> wm_cursor ?w + wm_free ?w" using le r(3) by simp
  have "allocpage st = Inr (of_nat ?q, st\<lparr>wmst := ?w'\<rparr>)"
    using fits by (simp add: allocpage_def wm_alloc_eq [OF assms(1) legal, unfolded size] Let_def)
  moreover have stop: "wm_cursor ?w + wm_free ?w \<le> HHDM + 2 ^ 45" using assms(1) by (simp add: wm_ok_def)
  moreover have "?q < 2 ^ 64" using fits stop by (simp add: HHDM_def)
  moreover have "wm_ok ?w'" using assms(1) fits by (simp add: wm_ok_def)
  moreover have "room ?w' k"
    unfolding room_def using r le fits by (intro exI [of _ "r + 0x1000"]) (auto intro: dvd_add)
  moreover have "?q \<in> wm_avail ?w" "?q \<notin> wm_avail ?w'" "wm_avail ?w' \<subseteq> wm_avail ?w"
    using b fits by (auto simp: wm_avail_def)
  ultimately show ?thesis
    using b assms(2) by (intro that [of ?q ?w']) auto
qed

definition unobstructed :: "tables \<Rightarrow> 64 word \<Rightarrow> nat \<Rightarrow> 64 word \<Rightarrow> bool" where
  "unobstructed t r n v = (\<forall>k T. 1 \<le> k \<longrightarrow> k < n \<longrightarrow> tab t r k v = Some T \<longrightarrow>
     present (t T (idx k v)) \<longrightarrow> \<not> huge (t T (idx k v)))"

definition same_view :: "tables \<Rightarrow> tables \<Rightarrow> bool" where
  "same_view t t' = (\<forall>T i. view (t' T i) = view (t T i))"

lemma same_viewD:
  assumes "same_view t t'"
  shows "tree t' r = tree t r" "table_set t' r = table_set t r" "translate t' r v = translate t r v"
    "unobstructed t' r n v = unobstructed t r n v" "tab t' r d v = tab t r d v"
proof -
  have v: "\<And>T i. view (t' T i) = view (t T i)" using assms by (simp add: same_view_def)
  show "tree t' r = tree t r" "table_set t' r = table_set t r" "translate t' r v = translate t r v"
    "tab t' r d v = tab t r d v"
    by (simp_all only: tree_def table_set_def tab_view [OF v] translate_view [OF v])
  show "unobstructed t' r n v = unobstructed t r n v"
    by (simp only: unobstructed_def tab_view [OF v] view_eq [OF v])
qed

lemma same_view_refl [simp]: "same_view t t"
  by (simp add: same_view_def)

lemma same_view_entry:
  assumes "view e = view (tables st T i)"
  shows "same_view (tables st) (tables (set_entry st T i e))"
  using assms by (simp add: same_view_def set_entry_def)

lemma same_view_trans: "same_view t t' \<Longrightarrow> same_view t' t'' \<Longrightarrow> same_view t t''"
  by (simp add: same_view_def)

lemma vm_ok_view:
  assumes "vm_ok st r" "same_view (tables st) (tables st')" "wmst st' = wmst st"
  shows "vm_ok st' r"
  using assms same_viewD(1,2) [OF assms(2), of r] by (simp add: vm_ok_def)

lemma room_less: "room w (Suc k) \<Longrightarrow> room w k"
  unfolding room_def by (elim exE, rule exI) auto

lemma next_table_present:
  assumes ok: "vm_ok st r" and T: "tab (tables st) r d v = Some T"
    and un: "unobstructed (tables st) r n v" and d: "d < n" and pr: "present (tables st T (idx d v))"
  obtains st' where "next_table st T (idx d v) flags exemask = Inr (getvaddr (tables st T (idx d v)), st')"
    "same_view (tables st) (tables st')" "wmst st' = wmst st" "vm_ok st' r"
    "tab (tables st') r (Suc d) v = Some (getvaddr (tables st T (idx d v)))"
proof -
  let ?e = "tables st T (idx d v)"
  let ?st = "if flags AND (mflag MF_USER) \<noteq> 0 then set_entry st T (idx d v) (set_eflags ?e (eflags ?e OR (mflag MF_USER))) else st"
  have nt: "next_table st T (idx d v) flags exemask = Inr (getvaddr ?e, ?st)"
    using pr by (simp add: next_table_def page_virt_eq Let_def)
  have sv: "same_view (tables st) (tables ?st)"
    using same_view_entry [OF view_user, of st T "idx d v"] by simp
  have w: "wmst ?st = wmst st" by (simp add: set_entry_def)
  have "tab (tables st) r (Suc d) v = Some (getvaddr ?e)"
    using T pr un d by (cases "d = 0") (auto simp: unobstructed_def)
  then have "tab (tables ?st) r (Suc d) v = Some (getvaddr ?e)"
    by (rule trans [OF same_viewD(5) [OF sv]])
  then show ?thesis
    by (rule that [OF nt sv w vm_ok_view [OF ok sv w]])
qed

lemma next_table_absent:
  assumes ok: "vm_ok st r" and T: "tab (tables st) r d v = Some T" and d: "d \<le> 2"
    and un: "unobstructed (tables st) r n v" "n \<le> 3" and ab: "\<not> present (tables st T (idx d v))"
    and room: "room (wmst st) (Suc k)"
    and fl: "exemask = 0 \<or> exemask = NX" "bit flags 0" "\<not> bit flags 7"
  obtains q st' where "next_table st T (idx d v) flags exemask = Inr (q, st')"
    "vm_ok st' r" "tab (tables st') r (Suc d) v = Some q" "room (wmst st') k"
    "unobstructed (tables st') r n v" "\<forall>v'. translate (tables st') r v' = translate (tables st) r v'"
proof -
  have wm: "wm_ok (wmst st)" "HHDM \<le> wm_cursor (wmst st)" "tree (tables st) r"
    using ok by (simp_all add: vm_ok_def)
  obtain p w where a: "allocpage st = Inr (of_nat p, st\<lparr>wmst := w\<rparr>)" "0x1000 dvd p" "HHDM \<le> p" "p < 2 ^ 64"
    "wm_ok w" "HHDM \<le> wm_cursor w" "room w k" "p \<in> wm_avail (wmst st)" "p \<notin> wm_avail w"
    "wm_avail w \<subseteq> wm_avail (wmst st)"
    by (rule allocpage_ok [OF wm(1,2) room])
  let ?q = "of_nat p :: 64 word" and ?i = "idx d v" and ?t = "tables st"
  let ?e = "set_eflags ((?q AND NOT HH) OR exemask) flags"
  define t' where "t' = (?t(?q := (\<lambda>_. 0)))(T := (?t T)(?i := ?e))"
  have uq: "unat ?q = p" using a(4) by (simp add: unat_of_nat take_bit_eq_mod)
  have q: "?q \<notin> table_set ?t r" using ok uq a(8) by (auto simp: vm_ok_def)
  then have Tq: "T \<noteq> ?q" using table_setI [OF T] d by auto
  have nt: "next_table st T ?i flags exemask = Inr (?q, st\<lparr>wmst := w, tables := t'\<rparr>)"
    using ab Tq by (simp add: next_table_def a(1) set_entry_def Let_def t'_def)
  have o: "overwrites ?t t' r d v T"
    using wm(3) T d q by (auto simp: overwrites_def t'_def)
  have e: "present (t' T ?i)" "\<not> huge (t' T ?i)" "getvaddr (t' T ?i) = ?q"
    using table_entry [OF a(2,3,4) fl] by (simp_all add: t'_def)
  have z: "\<And>i. \<not> present (t' ?q i)" using Tq by (simp add: present_def t'_def)
  note inst = tree_install [OF o d e z q] tab_install [OF o d e z] translate_install [OF o d e z ab]
  have "vm_ok (st\<lparr>wmst := w, tables := t'\<rparr>) r"
    using ok a(5,6,9,10) inst(1,2) uq by (simp add: vm_ok_def) (metis insert_iff subsetD)
  moreover have "tab t' r (Suc d) v = Some ?q"
    using inst(3) [of "Suc d" v] d by (simp add: same_prefix_def)
  moreover have "unobstructed t' r n v"
    unfolding unobstructed_def
  proof (intro allI impI)
    fix j T'
    assume j: "1 \<le> j" "j < n" "tab t' r j v = Some T'" "present (t' T' (idx j v))"
    show "\<not> huge (t' T' (idx j v))"
    proof (cases "d < j")
      case True
      then show ?thesis using inst(3) [of j v] j un(2) z by (auto simp: same_prefix_def split: if_splits)
    next
      case False
      then have T': "tab ?t r j v = Some T'" using inst(3) [of j v] j un(2) by auto
      show ?thesis
      proof (cases "j = d")
        case True then show ?thesis using T' T e by simp
      next
        case False
        from overwrites_other(2) [OF o T'] this j un(2) have "view (t' T' (idx j v)) = view (?t T' (idx j v))" by simp
        from view_eq [OF this] show ?thesis using un(1) j T' by (simp add: unobstructed_def)
      qed
    qed
  qed
  ultimately show ?thesis using that [OF nt] a(7) inst(4) by simp
qed

lemma next_table_ok:
  assumes ok: "vm_ok st r" and T: "tab (tables st) r d v = Some T" and n: "d < n" "n \<le> 3"
    and un: "unobstructed (tables st) r n v" and room: "room (wmst st) (Suc k)"
    and fl: "exemask = 0 \<or> exemask = NX" "bit flags 0" "\<not> bit flags 7"
  obtains q st' where "next_table st T (idx d v) flags exemask = Inr (q, st')"
    "vm_ok st' r" "tab (tables st') r (Suc d) v = Some q" "room (wmst st') k"
    "unobstructed (tables st') r n v" "\<forall>v'. translate (tables st') r v' = translate (tables st) r v'"
proof (cases "present (tables st T (idx d v))")
  case True
  show ?thesis
  proof (rule next_table_present [OF ok T un n(1) True, of flags exemask])
    fix st'
    assume a: "next_table st T (idx d v) flags exemask = Inr (getvaddr (tables st T (idx d v)), st')"
      "same_view (tables st) (tables st')" "wmst st' = wmst st" "vm_ok st' r"
      "tab (tables st') r (Suc d) v = Some (getvaddr (tables st T (idx d v)))"
    show thesis
      using that [OF a(1,4,5)] room_less [OF room] un same_viewD(3,4) [OF a(2)] a(3) by simp
  qed
next
  case False
  have "d \<le> 2" using n by simp
  from next_table_absent [OF ok T this un n(2) False room fl] that show ?thesis by blast
qed

lemma clear_nx_view: "same_view (tables st) (tables (clear_nx st T i))" and clear_nx_wmst: "wmst (clear_nx st T i) = wmst st"
  by (auto simp: clear_nx_def same_view_def set_entry_def view_nx)

lemma getaddr_set_eflags: "getaddr (set_eflags e f) = getaddr e"
  by (rule bit_word_eqI) (auto simp: bit_getaddr bit_set_eflags)

lemma clear_nx_path:
  "same_view (tables st) (tables (fold (\<lambda>(T, i) st. clear_nx st T i) ps st))"
  "wmst (fold (\<lambda>(T, i) st. clear_nx st T i) ps st) = wmst st"
proof (induction ps arbitrary: st)
  case (Cons p ps)
  obtain T i where p: "p = (T, i)" by (cases p)
  {
    case 1
    then show ?case using same_view_trans [OF clear_nx_view [of st T i] Cons(1)] p by simp
  next
    case 2
    then show ?case using Cons(2) p by (simp add: clear_nx_wmst)
  }
qed simp_all

lemma write_page_ok:
  assumes ok: "vm_ok st r" and T: "tab (tables st) r d v = Some T" and d: "1 \<le> d" "d \<le> 3"
    and f: "bit f 0" "d = 3 \<or> bit f 7" and i: "i = idx d v"
  shows "vm_ok (write_page st path T i a exemask f) r" (is ?ok)
    and "translate (tables (write_page st path T i a exemask f)) r v' =
      (if same_prefix (Suc d) v v' then Some (page_at (a OR exemask) (39 - 9 * d) v') else translate (tables st) r v')" (is ?tr)
    and "same_prefix (Suc d) v v' \<Longrightarrow> leaf (tables (write_page st path T i a exemask f)) r d v' T" (is "_ \<Longrightarrow> ?lf")
    and "getaddr (tables (write_page st path T i a exemask f) T i) = getaddr (a OR exemask)" (is ?ad)
proof -
  let ?s = "set_entry st T i (a OR exemask)"
  obtain st2 where st2: "st2 = (if exemask = 0 then fold (\<lambda>(T, i) st. clear_nx st T i) (path @ [(T, i)]) ?s else ?s)"
    by simp
  have sv: "same_view (tables ?s) (tables st2)" and w: "wmst st2 = wmst st"
    using clear_nx_path [where st = ?s and ps = "path @ [(T, i)]"] by (auto simp: st2 set_entry_def)
  obtain st3 where st3: "st3 = set_entry st2 T i (set_eflags (tables st2 T i) f)" by simp
  have eq: "write_page st path T i a exemask f = st3"
    by (simp only: write_page_def Let_def st3 st2)
  have o: "overwrites (tables st) (tables st3) r d v T"
    using ok T d sv i
    by (auto simp: overwrites_def vm_ok_def st3 set_entry_def same_view_def split: if_splits)
  have e: "tables st3 T (idx d v) = set_eflags (tables st2 T (idx d v)) f"
    by (simp add: st3 set_entry_def i)
  have pe: "present (tables st3 T (idx d v))" "d = 3 \<or> huge (tables st3 T (idx d v))"
    using f by (auto simp: e present_def huge_def bit_set_eflags)
  have "view (tables st2 T (idx d v)) = view (a OR exemask)"
    using sv by (auto simp: same_view_def set_entry_def i)
  note ga = view_eq(3) [OF this]
  then have pa: "page_at (tables st3 T (idx d v)) n v' = page_at (a OR exemask) n v'" for n
    by (simp add: page_at_def e getaddr_set_eflags)
  show ?tr
    using translate_page [OF o d(1) pe, of v'] by (simp only: pa eq)
  show ?lf if "same_prefix (Suc d) v v'"
    using overwrites_tab [OF o that] pe d by (simp add: leaf_def eq)
  show ?ad
    unfolding eq unfolding i e getaddr_set_eflags by (rule ga)
  have "wmst st3 = wmst st" by (simp add: st3 set_entry_def w)
  then show ?ok
    using ok tree_leaf [OF o d(1) pe(2)] unfolding eq vm_ok_def by auto
qed

definition page_depth :: "64 word \<Rightarrow> nat" where
  "page_depth flags = (if flags AND (mflag MF_s2M) \<noteq> 0 then 2 else if flags AND (mflag MF_s1G) \<noteq> 0 then 1 else 3)"

abbreviation page_bits :: "64 word \<Rightarrow> nat" where
  "page_bits flags \<equiv> 39 - 9 * page_depth flags"

definition same_page :: "nat \<Rightarrow> 64 word \<Rightarrow> 64 word \<Rightarrow> bool" where
  "same_page n v v' = (drop_bit n (take_bit 48 v) = drop_bit n (take_bit 48 v'))"

lemma bit_idx: "bit (idx d v) n = (n < 9 \<and> bit v (39 - 9 * d + n))"
  by (auto simp: idx_def page_masks bit_simps ac_simps)

lemma same_page_iff: "same_page n v v' = (\<forall>m. n \<le> m \<longrightarrow> m < 48 \<longrightarrow> bit v m = bit v' m)"
proof
  assume p: "same_page n v v'"
  have "bit v m = bit v' m" if "n \<le> m" "m < 48" for m
  proof -
    have "bit (drop_bit n (take_bit 48 v)) (m - n) = bit (drop_bit n (take_bit 48 v')) (m - n)"
      using p by (simp add: same_page_def)
    then show ?thesis using that by (simp add: bit_drop_bit_eq bit_take_bit_iff)
  qed
  then show "\<forall>m. n \<le> m \<longrightarrow> m < 48 \<longrightarrow> bit v m = bit v' m" by blast
next
  assume "\<forall>m. n \<le> m \<longrightarrow> m < 48 \<longrightarrow> bit v m = bit v' m"
  then show "same_page n v v'"
    unfolding same_page_def by (intro bit_word_eqI) (auto simp: bit_drop_bit_eq bit_take_bit_iff)
qed

lemma same_prefix_page:
  assumes "d \<le> 3"
  shows "same_prefix (Suc d) v v' = same_page (39 - 9 * d) v v'"
proof -
  have "same_prefix (Suc d) v v' \<longleftrightarrow> (\<forall>m. 39 - 9 * d \<le> m \<longrightarrow> m < 48 \<longrightarrow> bit v m = bit v' m)"
  proof
    assume p: "same_prefix (Suc d) v v'"
    show "\<forall>m. 39 - 9 * d \<le> m \<longrightarrow> m < 48 \<longrightarrow> bit v m = bit v' m"
    proof (intro allI impI)
      fix m :: nat
      assume m: "39 - 9 * d \<le> m" "m < 48"
      obtain k where k: "k = (47 - m) div 9" by simp
      have "k \<le> d" "39 - 9 * k \<le> m" "m - (39 - 9 * k) < 9" "9 * k \<le> 39" using m k assms by auto
      moreover from this have "bit (idx k v) (m - (39 - 9 * k)) = bit (idx k v') (m - (39 - 9 * k))"
        using p by (simp add: same_prefix_def)
      ultimately show "bit v m = bit v' m" by (simp add: bit_idx)
    qed
  next
    assume b: "\<forall>m. 39 - 9 * d \<le> m \<longrightarrow> m < 48 \<longrightarrow> bit v m = bit v' m"
    show "same_prefix (Suc d) v v'"
      unfolding same_prefix_def
    proof (intro allI impI)
      fix k
      assume "k < Suc d"
      then show "idx k v = idx k v'"
        using b assms by (intro bit_word_eqI) (auto simp: bit_idx)
    qed
  qed
  also have "\<dots> \<longleftrightarrow> same_page (39 - 9 * d) v v'"
    by (simp only: same_page_iff)
  finally show ?thesis .
qed

lemma idx_round: "n \<le> 39 - 9 * k \<Longrightarrow> idx k (v AND NOT (mask n)) = idx k v"
  by (rule bit_word_eqI) (auto simp: bit_idx bit_simps dest: bit_imp_le_length)

lemma getaddr_page:
  assumes "12 \<le> n" "exemask = 0 \<or> exemask = NX"
  shows "getaddr ((phys AND NOT (mask n)) OR exemask) = phys AND NOT (NX OR mask n)"
  using assms by (intro bit_word_eqI) (auto simp: bit_getaddr bit_simps dest: bit_imp_le_length)

lemma exp_mask: "push_bit n 1 - 1 = (mask n :: 64 word)"
  by (simp only: push_bit_of_1 mask_eq_exp_minus_1)


lemma map_page_sizes:
  "map_page_at st r virt phys flags cache =
    (let exemask = (if flags AND (mflag MF_EXE) \<noteq> 0 then 0 else NX); n = page_bits flags;
         a = phys AND NOT (mask n); f = flags AND mask 13;
         pat = push_bit 3 (cache AND 1) OR push_bit 4 (drop_bit 1 cache AND 1);
         big = f OR (mflag MF_HUGE) OR (pat OR push_bit 12 (drop_bit 2 cache AND 1));
         small = f OR (pat OR push_bit 7 (drop_bit 2 cache AND 1)) in
     rbind (next_table st r (idx 0 virt) f exemask) (\<lambda>(T1, st).
     if page_depth flags = 1 then Inr (write_page st [(r, idx 0 virt)] T1 (idx 1 virt) a exemask big)
     else rbind (next_table st T1 (idx 1 virt) f exemask) (\<lambda>(T2, st).
     if page_depth flags = 2
     then Inr (write_page st [(r, idx 0 virt), (T1, idx 1 virt)] T2 (idx 2 virt) a exemask big)
     else rbind (next_table st T2 (idx 2 virt) f exemask) (\<lambda>(T3, st).
     Inr (write_page st [(r, idx 0 virt), (T1, idx 1 virt), (T2, idx 2 virt)] T3 (idx 3 virt) a exemask small)))))"
proof -
  consider "flags AND (mflag MF_s2M) \<noteq> 0" | "flags AND (mflag MF_s2M) = 0" "flags AND (mflag MF_s1G) \<noteq> 0"
    | "flags AND (mflag MF_s2M) = 0" "flags AND (mflag MF_s1G) = 0" by blast
  then show ?thesis
  proof cases
    case 1
    then show ?thesis
      by (simp add: map_page_at_def page_depth_def exp_mask idx_macros idx_round Let_def or.assoc del: push_bit_of_1)
  next
    case 2
    then show ?thesis
      by (simp add: map_page_at_def page_depth_def exp_mask idx_macros idx_round Let_def or.assoc del: push_bit_of_1)
  next
    case 3
    then show ?thesis
      by (simp add: map_page_at_def page_depth_def exp_mask idx_macros idx_round Let_def or.assoc del: push_bit_of_1)
  qed
qed

text \<open>Everything the mapping does, for the three page sizes at once.\<close>

lemma map_page_walk:
  assumes ok: "vm_ok st r" and un: "unobstructed (tables st) r (page_depth flags) virt"
    and room: "room (wmst st) 3" and fl: "bit flags 0" "\<not> bit flags 7"
  obtains st1 T f path exemask where
    "map_page_at st r virt phys flags cache = Inr (write_page st1 path T (idx (page_depth flags) virt)
       (phys AND NOT (mask (page_bits flags))) exemask f)"
    "vm_ok st1 r" "tab (tables st1) r (page_depth flags) virt = Some T" "bit f 0" "page_depth flags = 3 \<or> bit f 7"
    "exemask = 0 \<or> exemask = NX" "\<forall>v'. translate (tables st1) r v' = translate (tables st) r v'"
proof -
  let ?ex = "if flags AND (mflag MF_EXE) \<noteq> 0 then 0 else NX"
  let ?f = "flags AND mask 13" and ?n = "page_depth flags" and ?a = "phys AND NOT (mask (page_bits flags))"
  let ?pat = "push_bit 3 (cache AND 1) OR push_bit 4 (drop_bit 1 cache AND 1)"
  let ?big = "?f OR (mflag MF_HUGE) OR (?pat OR push_bit 12 (drop_bit 2 cache AND 1))"
  let ?small = "?f OR (?pat OR push_bit 7 (drop_bit 2 cache AND 1))"
  have ex: "?ex = 0 \<or> ?ex = NX" by simp
  have f: "bit ?f 0" "\<not> bit ?f 7" using fl by (simp_all add: bit_simps)
  have f': "bit ?big 0" "bit ?big 7" "bit ?small 0" using f by (simp_all add: bit_or_iff flag_bits bit_push_bit_iff)
  have n: "?n \<le> 3" "0 < ?n" by (auto simp: page_depth_def)
  have room': "room (wmst st) (Suc (Suc (Suc 0)))" using room by (simp add: eval_nat_numeral)
  obtain T1 s1 where s1: "next_table st r (idx 0 virt) ?f ?ex = Inr (T1, s1)" "vm_ok s1 r"
    "tab (tables s1) r (Suc 0) virt = Some T1" "room (wmst s1) (Suc (Suc 0))"
    "unobstructed (tables s1) r ?n virt" "\<forall>v'. translate (tables s1) r v' = translate (tables st) r v'"
    by (rule next_table_ok [OF ok tab.simps(1) n(2,1) un room' ex f])
  have num: "((2::nat) = 1) = False" "((3::nat) = 1) = False" "((3::nat) = 2) = False" by simp_all
  show ?thesis
  proof (cases "?n = 1")
    case True
    have m: "map_page_at st r virt phys flags cache =
        Inr (write_page s1 [(r, idx 0 virt)] T1 (idx ?n virt) ?a ?ex ?big)"
      by (simp only: map_page_sizes Let_def s1(1) rbind_Inr prod.case True simp_thms if_True)
    show ?thesis
      by (rule that [OF m s1(2) _ f'(1) disjI2 [OF f'(2)] ex s1(6)]) (use True s1(3) in simp)
  next
    case n1: False
    then have lt: "Suc 0 < ?n" using n by simp
    obtain T2 s2 where s2: "next_table s1 T1 (idx 1 virt) ?f ?ex = Inr (T2, s2)" "vm_ok s2 r"
      "tab (tables s2) r (Suc 1) virt = Some T2" "room (wmst s2) 1"
      "unobstructed (tables s2) r ?n virt" "\<forall>v'. translate (tables s2) r v' = translate (tables s1) r v'"
      by (rule next_table_ok [OF s1(2,3) lt n(1) s1(5,4) ex f, folded One_nat_def])
    show ?thesis
    proof (cases "?n = 2")
      case True
      have m: "map_page_at st r virt phys flags cache =
          Inr (write_page s2 [(r, idx 0 virt), (T1, idx 1 virt)] T2 (idx ?n virt) ?a ?ex ?big)"
        by (simp only: map_page_sizes Let_def s1(1) s2(1) rbind_Inr prod.case True num simp_thms if_True if_False)
      show ?thesis
        by (rule that [OF m s2(2) _ f'(1) disjI2 [OF f'(2)] ex]) (use True s2(3,6) s1(6) in \<open>simp_all add: eval_nat_numeral\<close>)
    next
      case False
      with n1 n have n3: "?n = 3" by simp
      have lt: "2 < ?n" and t2: "tab (tables s2) r 2 virt = Some T2"
        using n3 s2(3) by (simp_all add: eval_nat_numeral)
      obtain T3 s3 where s3: "next_table s2 T2 (idx 2 virt) ?f ?ex = Inr (T3, s3)" "vm_ok s3 r"
        "tab (tables s3) r (Suc 2) virt = Some T3" "room (wmst s3) 0"
        "unobstructed (tables s3) r ?n virt" "\<forall>v'. translate (tables s3) r v' = translate (tables s2) r v'"
        by (rule next_table_ok [OF s2(2) t2 lt n(1) s2(5) s2(4) [unfolded One_nat_def] ex f])
      have m: "map_page_at st r virt phys flags cache =
          Inr (write_page s3 [(r, idx 0 virt), (T1, idx 1 virt), (T2, idx 2 virt)] T3 (idx ?n virt) ?a ?ex ?small)"
        by (simp only: map_page_sizes Let_def s1(1) s2(1) s3(1) rbind_Inr prod.case n3 num if_False)
      show ?thesis
        by (rule that [OF m s3(2) _ f'(3) disjI1 [OF n3] ex]) (use n3 s3(3,6) s2(6) s1(6) in \<open>simp_all add: eval_nat_numeral\<close>)
    qed
  qed
qed

lemma map_page_ok:
  assumes ok: "vm_ok st r" and un: "unobstructed (tables st) r (page_depth flags) virt"
    and room: "room (wmst st) 3" and fl: "bit flags 0" "\<not> bit flags 7"
  shows "\<exists>st'. map_page_at st r virt phys flags cache = Inr st' \<and> vm_ok st' r \<and>
    (\<forall>v. translate (tables st') r v =
      (if same_page (page_bits flags) virt v
       then Some ((phys AND NOT (NX OR mask (page_bits flags))) + (v AND mask (page_bits flags)))
       else translate (tables st) r v))"
proof -
  obtain st1 T f path exemask where m:
    "map_page_at st r virt phys flags cache = Inr (write_page st1 path T (idx (page_depth flags) virt)
       (phys AND NOT (mask (page_bits flags))) exemask f)"
    "vm_ok st1 r" "tab (tables st1) r (page_depth flags) virt = Some T" "bit f 0" "page_depth flags = 3 \<or> bit f 7"
    "exemask = 0 \<or> exemask = NX" "\<forall>v'. translate (tables st1) r v' = translate (tables st) r v'"
    by (rule map_page_walk [OF assms])
  have d: "1 \<le> page_depth flags" "page_depth flags \<le> 3" "12 \<le> page_bits flags" by (auto simp: page_depth_def)
  note w = write_page_ok [OF m(2,3) d(1,2) m(4,5) refl]
  show ?thesis
    by (rule exI, rule conjI [OF m(1)])
      (use w(1,2) m(7) in \<open>simp add: same_prefix_page [OF d(2)] page_at_def getaddr_page [OF d(3) m(6)]\<close>)
qed

text \<open>C14: In a well-formed tree of tables with no larger page in the way and memory for three more
  tables, mapping a page of any of the three sizes succeeds, keeps the tree well-formed, makes the hardware translate exactly
  the addresses of that page to the frame, and changes the translation of no other address.\<close>

theorem map_page_spec:
  assumes ok: "vm_ok st r" and un: "unobstructed (tables st) r (page_depth flags) virt"
    and room: "room (wmst st) 3" and fl: "bit flags 0" "\<not> bit flags 7"
  shows "\<exists>st'. map_page_at st r virt phys flags cache = Inr st' \<and> vm_ok st' r \<and>
    (\<forall>v. translate (tables st') r v =
      (if same_page (page_bits flags) virt v
       then Some ((phys AND NOT (NX OR mask (page_bits flags))) + (v AND mask (page_bits flags)))
       else translate (tables st) r v))"
  using assms by (rule map_page_ok)

section \<open>Lookup\<close>

lemma no_bit63_offset: "no_bit63 ((e AND NOT (mask 12)) + (v AND mask 12)) = page_at e 12 v"
proof -
  have d: "(e AND NOT (mask 12)) AND (v AND mask 12) = 0" "getaddr e AND (v AND mask 12) = 0"
    by (rule bit_word_eqI, auto simp: bit_getaddr bit_simps)+
  show ?thesis
    unfolding page_at_def no_bit63_def disjunctive_add_eq_or [OF d(1)] disjunctive_add_eq_or [OF d(2)]
    by (rule bit_word_eqI) (auto simp: bit_getaddr bit_simps dest: bit_imp_le_length)
qed

lemma paging_lookup_walk:
  "paging_lookup t r v =
    (let e4 = t r (idx 0 v); e3 = t (getvaddr e4) (idx 1 v); e2 = t (getvaddr e3) (idx 2 v); e1 = t (getvaddr e2) (idx 3 v) in
     if \<not> present e4 \<or> \<not> present e3 \<or> \<not> present e2 then -1
     else if huge e3 then no_bit63 (getvaddr e3 + (v AND mask 30))
     else if huge e2 then no_bit63 ((getvaddr e2 + (v AND mask 21)) AND NOT HH)
     else if \<not> present e1 then -1 else page_at e1 12 v)"
  unfolding paging_lookup_def Let_def idx_macros page_virt_eq page_masks exp_mask no_bit63_offset
    eflags_present eflags_huge
  by simp

lemma tab_levels:
  "tab t r 1 v = (let e4 = t r (idx 0 v) in if present e4 then Some (getvaddr e4) else None)"
  "tab t r 2 v = (case tab t r 1 v of None \<Rightarrow> None | Some T \<Rightarrow>
     let e3 = t T (idx 1 v) in if present e3 \<and> \<not> huge e3 then Some (getvaddr e3) else None)"
  "tab t r 3 v = (case tab t r 2 v of None \<Rightarrow> None | Some T \<Rightarrow>
     let e2 = t T (idx 2 v) in if present e2 \<and> \<not> huge e2 then Some (getvaddr e2) else None)"
  by (simp_all add: eval_nat_numeral Let_def)

lemma lookup_none:
  assumes "translate t r v = None"
  shows "paging_lookup t r v = -1"
  using assms unfolding translate_def paging_lookup_walk tab_levels Let_def
  by (auto split: option.splits if_splits)

lemma small_bits: "x < 2 ^ m \<Longrightarrow> m \<le> n \<Longrightarrow> m < 64 \<Longrightarrow> \<not> bit x n" for x :: "64 word"
  using less_mask_eq [of x m] by (metis bit_and_iff bit_mask_iff leD)

lemma direct_map_add:
  assumes "a < 2 ^ 46" "b < 2 ^ 46"
  shows "(a OR HH) + b = (a + b) OR HH" "a + b < 2 ^ 47"
proof -
  show s: "a + b < 2 ^ 47" using assms by (simp add: word_less_nat_alt unat_word_ariths)
  have d: "a AND HH = 0" "(a + b) AND HH = 0"
    using small_bits [OF assms(1)] small_bits [OF s] by (auto intro!: bit_word_eqI simp: bit_and_iff)
  show "(a OR HH) + b = (a + b) OR HH"
    unfolding disjunctive_add_eq_or [OF d(1), symmetric] disjunctive_add_eq_or [OF d(2), symmetric] by simp
qed

lemma mask_less: "v AND mask 21 < (2 :: 64 word) ^ 46" "v AND mask 30 < (2 :: 64 word) ^ 46"
  using and_mask_less' [of 21 v] and_mask_less' [of 30 v] by (auto elim: order.strict_trans)

lemma physical_offset:
  assumes "getaddr e < 2 ^ 46"
  shows "no_bit63 ((getvaddr e + (v AND mask 21)) AND NOT HH) = page_at e 21 v"
  unfolding getvaddr_def direct_map_add(1) [OF assms mask_less(1)] page_at_def no_bit63_def
  using small_bits [OF direct_map_add(2) [OF assms mask_less(1)]]
  by (intro bit_word_eqI) (auto simp: bit_simps intro: leI)

lemma lookup_leaf:
  assumes "leaf t r d v T" "2 \<le> d" "getaddr (t T (idx d v)) < 2 ^ 46"
  shows "paging_lookup t r v = page_at (t T (idx d v)) (39 - 9 * d) v"
proof -
  have "d = 2 \<or> d = 3" using assms by (auto simp: leaf_def)
  then show ?thesis
  proof
    assume d: "d = 2"
    show ?thesis
      using assms(1) physical_offset [OF assms(3)] unfolding leaf_def d tab_levels paging_lookup_walk Let_def
      by (auto split: option.splits if_splits)
  next
    assume d: "d = 3"
    show ?thesis using assms(1) unfolding leaf_def d tab_levels paging_lookup_walk Let_def
      by (auto split: option.splits if_splits)
  qed
qed

text \<open>For an address in a 1 GiB page the lookup never returns the physical address the hardware
  uses: it either finds no mapping or returns an address with the bits of the direct map set.\<close>

theorem lookup_gigabyte_page:
  assumes "leaf t r 1 v T" "getaddr (t T (idx 1 v)) < 2 ^ 46"
  shows "translate t r v = Some (page_at (t T (idx 1 v)) 30 v) \<and>
    paging_lookup t r v \<noteq> page_at (t T (idx 1 v)) 30 v"
proof
  show "translate t r v = Some (page_at (t T (idx 1 v)) 30 v)"
    unfolding translate_leaf using assms(1) by (intro exI [of _ 1] exI [of _ T]) simp
  have "\<not> bit (page_at (t T (idx 1 v)) 30 v) 62"
    unfolding page_at_def using small_bits [OF direct_map_add(2) [OF assms(2) mask_less(2)]] by simp
  moreover have "bit (no_bit63 (getvaddr (t T (idx 1 v)) + (v AND mask 30))) 62"
    unfolding no_bit63_def getvaddr_def direct_map_add(1) [OF assms(2) mask_less(2)] by (simp add: bit_simps)
  moreover have "bit (-1 :: 64 word) 62" by simp
  moreover have "paging_lookup t r v = -1 \<or>
      paging_lookup t r v = no_bit63 (getvaddr (t T (idx 1 v)) + (v AND mask 30))"
    using assms(1) unfolding leaf_def tab_levels paging_lookup_walk Let_def
    by (auto split: option.splits if_splits)
  ultimately show "paging_lookup t r v \<noteq> page_at (t T (idx 1 v)) 30 v" by metis
qed


text \<open>C15: After mapping a 4 KiB or 2 MiB page, the lookup of every address in it gives the frame and the
  offset.\<close>

theorem map_then_lookup:
  assumes "vm_ok st r" and "unobstructed (tables st) r (page_depth flags) virt" and "room (wmst st) 3"
    and "bit flags 0" "\<not> bit flags 7"
    and small: "page_depth flags \<noteq> 1" "phys < 2 ^ 46" and v: "same_page (page_bits flags) virt v"
  shows "\<exists>st'. map_page_at st r virt phys flags cache = Inr st' \<and>
    paging_lookup (tables st') r v = (phys AND NOT (mask (page_bits flags))) + (v AND mask (page_bits flags))"
proof -
  let ?d = "page_depth flags" and ?n = "page_bits flags"
  obtain st1 T f path exemask where m:
    "map_page_at st r virt phys flags cache = Inr (write_page st1 path T (idx ?d virt) (phys AND NOT (mask ?n)) exemask f)"
    "vm_ok st1 r" "tab (tables st1) r ?d virt = Some T" "bit f 0" "?d = 3 \<or> bit f 7"
    "exemask = 0 \<or> exemask = NX" "\<forall>v'. translate (tables st1) r v' = translate (tables st) r v'"
    by (rule map_page_walk [OF assms(1-5)])
  have d: "1 \<le> ?d" "?d \<le> 3" "12 \<le> ?n" "2 \<le> ?d" using small(1) by (auto simp: page_depth_def)
  have p: "same_prefix (Suc ?d) virt v" using v by (simp add: same_prefix_page [OF d(2)])
  then have i: "idx ?d v = idx ?d virt" by (simp add: same_prefix_Suc)
  let ?st = "write_page st1 path T (idx ?d virt) (phys AND NOT (mask ?n)) exemask f"
  have ga: "getaddr (tables ?st T (idx ?d v)) = phys AND NOT (NX OR mask ?n)"
    using write_page_ok(4) [OF m(2,3) d(1,2) m(4,5) refl] by (simp add: i getaddr_page [OF d(3) m(6)])
  also have eq: "phys AND NOT (NX OR mask ?n) = phys AND NOT (mask ?n)"
    using small_bits [OF small(2), of 63] by (intro bit_word_eqI) (auto simp: bit_simps)
  finally have ga: "getaddr (tables ?st T (idx ?d v)) = phys AND NOT (mask ?n)" .
  have "phys AND NOT (mask ?n) < 2 ^ 46"
    using small(2) word_and_le2 [of phys "NOT (mask ?n)"] by (rule order.strict_trans1 [rotated])
  with write_page_ok(3) [OF m(2,3) d(1,2) m(4,5) refl p] d(4)
  have l: "paging_lookup (tables ?st) r v = page_at (tables ?st T (idx ?d v)) ?n v"
    by (intro lookup_leaf) (simp_all add: ga)
  show ?thesis by (rule exI [of _ ?st], rule conjI [OF m(1)]) (simp add: l page_at_def ga)
qed

text \<open>An empty address space next to a watermark region.\<close>

definition empty_vm :: vm where
  "empty_vm = \<lparr>tables = (\<lambda>_ _. 0), wmst = \<lparr>wm_cursor = HHDM + 0x2000, wm_free = 0x10000, wm_mutex = 0\<rparr>,
     pml4 = 0xffff800000001000, cr3reg = 0x1000\<rparr>"

lemma empty_tab: "tab (\<lambda>_ _. 0) r d v = Some T \<longleftrightarrow> d = 0 \<and> T = r"
  by (cases d) (auto simp: present_def split: option.splits)

lemma empty_vm_ok:
  "vm_ok empty_vm 0xffff800000001000" "unobstructed (tables empty_vm) r n v" "room (wmst empty_vm) 3"
proof -
  have "unat (0xffff800000001000 :: 64 word) = HHDM + 0x1000" by (simp add: HHDM_def)
  then show "vm_ok empty_vm 0xffff800000001000"
    by (auto simp: vm_ok_def empty_vm_def wm_ok_def tree_def table_set_def empty_tab wm_avail_def same_prefix_def)
  show "unobstructed (tables empty_vm) r n v"
    by (simp add: unobstructed_def empty_vm_def empty_tab)
  show "room (wmst empty_vm) 3"
    by (simp add: room_def empty_vm_def HHDM_def) (rule exI [of _ "HHDM + 0x2000"], simp add: HHDM_def)
qed

theorem map_page_spec_witness:
  "\<exists>st'. map_page_at empty_vm 0xffff800000001000 0x400000 0x5000 3 0 = Inr st' \<and>
     translate (tables st') 0xffff800000001000 0x400123 = Some 0x5123 \<and>
     translate (tables st') 0xffff800000001000 0x401123 = None"
proof -
  have f: "bit (3 :: 64 word) 0" "\<not> bit (3 :: 64 word) 7" "page_bits 3 = 12" "page_depth 3 = 3"
    by (simp_all add: page_depth_def mflag.simps bit_numeral_rec)
  have t: "translate (tables empty_vm) 0xffff800000001000 0x401123 = None"
    by (simp add: translate_def empty_vm_def present_def)
  have p: "same_page 12 0x400000 0x400123" "\<not> same_page 12 0x400000 0x401123"
    by (simp_all add: same_page_def)
  have a: "(0x5000 :: 64 word) AND NOT (NX OR mask 12) = 0x5000" "(0x400123 :: 64 word) AND mask 12 = 0x123"
    by (simp_all add: NX_def mask_eq_exp_minus_1)
  obtain st' where m: "map_page_at empty_vm 0xffff800000001000 0x400000 0x5000 3 0 = Inr st'"
    and tr: "\<And>v. translate (tables st') 0xffff800000001000 v =
      (if same_page 12 0x400000 v then Some ((0x5000 AND NOT (NX OR mask 12)) + (v AND mask 12))
       else translate (tables empty_vm) 0xffff800000001000 v)"
    using map_page_spec [OF empty_vm_ok(1) empty_vm_ok(2) empty_vm_ok(3) f(1,2), of "0x400000" "0x5000" 0]
    unfolding f(3) by blast
  show ?thesis
    by (rule exI [of _ st'], intro conjI m) (simp_all only: tr p a t if_True if_False, simp)
qed

theorem map_then_lookup_witness:
  "\<exists>st'. map_page_at empty_vm 0xffff800000001000 0x400000 0x5000 3 0 = Inr st' \<and>
     paging_lookup (tables st') 0xffff800000001000 0x400123 = 0x5123"
proof -
  have f: "bit (3 :: 64 word) 0" "\<not> bit (3 :: 64 word) 7" "page_depth 3 = 3" "page_depth 3 \<noteq> 1" "page_bits 3 = 12"
    by (simp_all add: page_depth_def mflag.simps bit_numeral_rec)
  have p: "same_page (page_bits 3) 0x400000 0x400123" "(0x5000 :: 64 word) < 2 ^ 46"
    by (simp_all add: same_page_def f)
  have a: "(0x5000 :: 64 word) AND NOT (mask 12) = 0x5000" "(0x400123 :: 64 word) AND mask 12 = 0x123"
    by (simp_all add: mask_eq_exp_minus_1)
  show ?thesis
    using map_then_lookup [OF empty_vm_ok(1) empty_vm_ok(2) empty_vm_ok(3) f(1,2,4) p(2,1), of 0]
    unfolding f(5) a by simp
qed

theorem lookup_gigabyte_page_witness:
  "paging_lookup (\<lambda>T i. if T = 0xffff800000001000 then 0x2001 else 0x40000083) 0xffff800000001000 0x123 \<noteq> 0x40000123"
proof -
  let ?t = "\<lambda>T i. if T = 0xffff800000001000 then 0x2001 else 0x40000083 :: 64 word"
  let ?T = "0xffff800000002000 :: 64 word"
  have e: "getvaddr 0x2001 = ?T" "getaddr 0x40000083 = 0x40000000" "present 0x2001" "present 0x40000083" "huge 0x40000083"
    by (simp_all add: getvaddr_def getaddr_def NX_def HH_def present_def huge_def bit_numeral_rec)
  have l: "leaf ?t 0xffff800000001000 1 0x123 ?T"
    by (simp add: leaf_def e)
  have p: "page_at (?t ?T (idx 1 0x123)) 30 0x123 = 0x40000123"
    by (simp add: page_at_def e mask_eq_exp_minus_1)
  show ?thesis
    using lookup_gigabyte_page [OF l] unfolding p by (simp add: e)
qed

lemma pat_bit_lost: "set_eflags e (f OR g OR (p OR push_bit 12 x)) = set_eflags e (f OR g OR p)"
  by (rule bit_word_eqI) (auto simp: bit_set_eflags bit_or_iff bit_push_bit_iff)

lemma cache_low: "(c AND 3) AND 1 = c AND (1 :: 64 word)" "drop_bit 1 (c AND 3) AND 1 = drop_bit 1 c AND (1 :: 64 word)"
  by (simp_all add: and.assoc drop_bit_Suc)

text \<open>For 2 MiB and 1 GiB pages the third cache bit has no effect: the mapping is the same for a cache
  type and for its low two bits, so write combining becomes write through.\<close>

theorem huge_pages_lose_pat:
  assumes "page_depth flags \<noteq> 3"
  shows "map_page_at st r virt phys flags cache = map_page_at st r virt phys flags (cache AND 3)"
proof -
  have num: "((2::nat) = 1) = False" "((1::nat) = 2) = False" by simp_all
  have d: "page_depth flags = 1 \<or> page_depth flags = 2"
    using assms by (auto simp: page_depth_def)
  have w: "write_page s path T i a ex (f OR g OR (p OR push_bit 12 x)) = write_page s path T i a ex (f OR g OR (p OR push_bit 12 y))"
    for s path T i a ex f g p x y
    unfolding write_page_def by (simp only: pat_bit_lost)
  show ?thesis
    using d unfolding map_page_sizes Let_def cache_low
    by (elim disjE) (simp_all only: w [where x = "drop_bit 2 cache AND 1" and y = "drop_bit 2 (cache AND 3) AND 1"] simp_thms num if_True if_False)
qed

theorem huge_pages_lose_pat_witness:
  "map_page_at empty_vm 0xffff800000001000 0x200000 0x400000 0x40000003 (cache_code WC) =
   map_page_at empty_vm 0xffff800000001000 0x200000 0x400000 0x40000003 (cache_code WT)"
proof -
  have "page_depth 0x40000003 \<noteq> 3" by (simp add: page_depth_def mflag.simps)
  from huge_pages_lose_pat [OF this, of _ _ _ _ 5] show ?thesis by simp
qed

end
