(* ===== verification/LinkedList.thy ===== *)
theory LinkedList
  imports DList Async
begin

text \<open>
  The container \<^verbatim>\<open>LinkedList\<close> of \<^verbatim>\<open>util/storage.hh\<close>: a circular doubly linked list whose last link carries a
  flag that ends iteration. A link has an address; \<open>ll_live\<close> are the addresses of links that have been
  created and not deleted, and using any other one is undefined. The operator \<^verbatim>\<open>new\<close> belongs to the heap, so
  the operations that create a link take its address.
\<close>

record 'a llink = node +
  ldata :: 'a
  llast :: bool

record 'a llist =
  ll_links :: "nat \<Rightarrow> 'a llink"
  ll_live :: "nat set"
  ll_first :: "nat option"
  ll_size :: nat
  ll_mutex :: int

section \<open>Operations\<close>

definition link_at :: "'a llist \<Rightarrow> nat option \<Rightarrow> nat res" where
  "link_at l p = (case p of None \<Rightarrow> Inl Undefined | Some a \<Rightarrow> if a \<in> ll_live l then Inr a else Inl Undefined)"

definition set_link :: "'a llist \<Rightarrow> nat \<Rightarrow> 'a llink \<Rightarrow> 'a llist" where
  "set_link l a v = l\<lparr>ll_links := (ll_links l)(a := v)\<rparr>"

definition new_link :: "'a llist \<Rightarrow> nat \<Rightarrow> nat option \<Rightarrow> nat option \<Rightarrow> 'a \<Rightarrow> 'a llist" where
  "new_link l a p n x =
     (set_link l a \<lparr>nxt = n, prv = p, ldata = x, llast = False\<rparr>)\<lparr>ll_live := insert a (ll_live l)\<rparr>"

definition ll_locked :: "'a llist \<Rightarrow> ('a llist \<Rightarrow> 'a llist res) \<Rightarrow> 'a llist res" where
  "ll_locked l f =
     rbind (mutex_lock (ll_mutex l)) (\<lambda>m.
     rbind (f (l\<lparr>ll_mutex := m\<rparr>)) (\<lambda>l. Inr (l\<lparr>ll_mutex := mutex_unlock (ll_mutex l)\<rparr>)))"

definition only_link :: "'a llist \<Rightarrow> nat \<Rightarrow> 'a \<Rightarrow> 'a llist" where
  "only_link l a x =
     (let l = (new_link l a None None x)\<lparr>ll_first := Some a\<rparr>;
          l = set_link l a ((ll_links l a)\<lparr>nxt := Some a\<rparr>);
          l = set_link l a ((ll_links l a)\<lparr>prv := Some a\<rparr>)
      in set_link l a ((ll_links l a)\<lparr>llast := True\<rparr>))"

definition ll_push_back :: "'a llist \<Rightarrow> nat \<Rightarrow> 'a \<Rightarrow> 'a llist res" where
  "ll_push_back l a x =
     ll_locked l (\<lambda>l.
     let l = l\<lparr>ll_size := ll_size l + 1\<rparr> in
     case ll_first l of
       Some f \<Rightarrow>
         rbind (link_at l (prv (ll_links l f))) (\<lambda>p.
         let l = new_link l a (Some p) (Some f) x;
             l = set_link l p ((ll_links l p)\<lparr>nxt := Some a\<rparr>) in
         if \<not> llast (ll_links l p) then Inl (Fatal ''Assert failed: first->prev->last'')
         else
           let l = set_link l p ((ll_links l p)\<lparr>llast := False\<rparr>);
               l = set_link l f ((ll_links l f)\<lparr>prv := Some a\<rparr>)
           in Inr (set_link l a ((ll_links l a)\<lparr>llast := True\<rparr>)))
     | None \<Rightarrow> Inr (only_link l a x))"

definition ll_push_front :: "'a llist \<Rightarrow> nat \<Rightarrow> 'a \<Rightarrow> 'a llist res" where
  "ll_push_front l a x =
     ll_locked l (\<lambda>l.
     let l = l\<lparr>ll_size := ll_size l + 1\<rparr> in
     case ll_first l of
       Some f \<Rightarrow>
         rbind (link_at l (prv (ll_links l f))) (\<lambda>p.
         let l = new_link l a (Some p) (Some f) x;
             l = set_link l p ((ll_links l p)\<lparr>nxt := Some a\<rparr>);
             l = set_link l f ((ll_links l f)\<lparr>prv := Some a\<rparr>)
         in Inr (l\<lparr>ll_first := Some a\<rparr>))
     | None \<Rightarrow> Inr (only_link l a x))"

text \<open>Removing a link does not move the flag of the last link.\<close>

definition ll_remove :: "'a llist \<Rightarrow> nat \<Rightarrow> 'a llist res" where
  "ll_remove l a =
     ll_locked l (\<lambda>l.
     if ll_size l = 0 then Inl (Fatal ''Tried to delete elem from empty list (size 0)'')
     else if ll_first l = None then Inl (Fatal ''Tried to delete elem from empty list (first null)'')
     else
       let l = l\<lparr>ll_size := ll_size l - 1\<rparr> in
       rbind
         (if ll_size l = 0 then Inr (l\<lparr>ll_first := None\<rparr>)
          else
            rbind (link_at l (Some a)) (\<lambda>a.
            rbind (link_at l (prv (ll_links l a))) (\<lambda>p.
            let l = set_link l p ((ll_links l p)\<lparr>nxt := nxt (ll_links l a)\<rparr>) in
            rbind (link_at l (nxt (ll_links l a))) (\<lambda>n.
            let l = set_link l n ((ll_links l n)\<lparr>prv := prv (ll_links l a)\<rparr>) in
            Inr (if ll_first l = Some a then l\<lparr>ll_first := nxt (ll_links l a)\<rparr> else l)))))
         (\<lambda>l. rbind (link_at l (Some a)) (\<lambda>a. Inr (l\<lparr>ll_live := ll_live l - {a}\<rparr>))))"

text \<open>The loop of the indexed accesses: it stops at a null pointer or when the index is used up.\<close>

fun ll_seek :: "'a llist \<Rightarrow> nat option \<Rightarrow> nat \<Rightarrow> (nat option \<times> nat) res" where
  "ll_seek l p 0 = Inr (p, 0)"
| "ll_seek l None (Suc i) = Inr (None, Suc i)"
| "ll_seek l (Some a) (Suc i) = rbind (link_at l (Some a)) (\<lambda>a. ll_seek l (nxt (ll_links l a)) i)"

definition ll_get_link :: "'a llist \<Rightarrow> nat \<Rightarrow> nat res" where
  "ll_get_link l i =
     rbind (ll_seek l (ll_first l) i) (\<lambda>(p, j).
     if j \<noteq> 0 then Inl (Fatal ''dlinkedlist: index out of bounds!'') else link_at l p)"

definition ll_index :: "'a llist \<Rightarrow> nat \<Rightarrow> 'a res" where
  "ll_index l i = rbind (ll_get_link l i) (\<lambda>a. Inr (ldata (ll_links l a)))"

definition ll_remove_idx :: "'a llist \<Rightarrow> nat \<Rightarrow> 'a llist res" where
  "ll_remove_idx l i =
     (if i > ll_size l then Inl (Fatal ''dlinkedlist: index out of bounds!'')
      else rbind (ll_seek l (ll_first l) i) (\<lambda>(p, j). rbind (link_at l p) (ll_remove l)))"

text \<open>Iteration, with the number of steps bounded; a loop that needs more steps than there are links runs in a
  circle.\<close>

definition iter_next :: "'a llist \<Rightarrow> nat \<Rightarrow> nat option" where
  "iter_next l a = (if llast (ll_links l a) then None else nxt (ll_links l a))"

fun ll_iter :: "nat \<Rightarrow> 'a llist \<Rightarrow> nat option \<Rightarrow> nat list res" where
  "ll_iter fuel l None = Inr []"
| "ll_iter 0 l (Some a) = Inl Hang"
| "ll_iter (Suc fuel) l (Some a) =
     rbind (link_at l (Some a)) (\<lambda>a. rbind (ll_iter fuel l (iter_next l a)) (\<lambda>as. Inr (a # as)))"

text \<open>The destructor cuts the ring open and deletes link after link.\<close>

fun ll_delete :: "nat \<Rightarrow> 'a llist \<Rightarrow> nat option \<Rightarrow> 'a llist res" where
  "ll_delete fuel l None = Inr l"
| "ll_delete 0 l (Some a) = Inl Hang"
| "ll_delete (Suc fuel) l (Some a) =
     rbind (link_at l (Some a)) (\<lambda>a.
     let n = nxt (ll_links l a) in ll_delete fuel (l\<lparr>ll_live := ll_live l - {a}\<rparr>) n)"

definition ll_destroy :: "nat \<Rightarrow> 'a llist \<Rightarrow> 'a llist res" where
  "ll_destroy fuel l =
     (case ll_first l of
        None \<Rightarrow> ll_delete fuel l None
      | Some f \<Rightarrow> rbind (link_at l (prv (ll_links l f))) (\<lambda>p.
          ll_delete fuel (set_link l p ((ll_links l p)\<lparr>nxt := None\<rparr>)) (ll_first l)))"

definition ll_empty :: "'a llist" where
  "ll_empty = \<lparr>ll_links = (\<lambda>_. undefined), ll_live = {}, ll_first = None, ll_size = 0, ll_mutex = 0\<rparr>"

section \<open>The ring\<close>

definition ring :: "(nat \<Rightarrow> 'a llink) \<Rightarrow> nat list \<Rightarrow> bool" where
  "ring L as = (distinct as \<and> (as \<noteq> [] \<longrightarrow> chain L (Some (last as)) as (Some (hd as))))"

definition ll_rep :: "'a llist \<Rightarrow> nat list \<Rightarrow> bool" where
  "ll_rep l as =
     (ring (ll_links l) as \<and> (\<forall>a \<in> set as. llast (ll_links l a) = (a = last as)) \<and> set as \<subseteq> ll_live l \<and>
      ll_first l = first_of as None \<and> ll_size l = length as \<and> ll_mutex l = 0)"

definition ll_contents :: "'a llist \<Rightarrow> nat list \<Rightarrow> 'a list" where
  "ll_contents l as = map (\<lambda>a. ldata (ll_links l a)) as"

text \<open>Inserting a link between the last and the first one, and taking one out.\<close>

lemma ring_insert:
  assumes "ring L as" "as \<noteq> []" "a \<notin> set as"
    and "\<And>x. x \<in> set as \<Longrightarrow> nxt (L' x) = (if x = last as then Some a else nxt (L x))"
    and "\<And>x. x \<in> set as \<Longrightarrow> prv (L' x) = (if x = hd as then Some a else prv (L x))"
    and "nxt (L' a) = Some (hd as)" "prv (L' a) = Some (last as)"
  shows "ring L' (as @ [a])" "ring L' (a # as)"
proof -
  have r: "chain L (Some (last as)) as (Some (hd as))" "distinct as"
    using assms(1,2) by (simp_all add: ring_def)
  have c: "chain L' (Some a) as (Some a)"
    by (rule chain_relink [OF r(1) assms(2) r(2) assms(4,5)])
  obtain f fs where as: "as = f # fs" using assms(2) by (cases as) auto
  show "ring L' (as @ [a])"
    using c r(2) assms(2,3,6,7) by (simp add: ring_def last_of_def)
  show "ring L' (a # as)"
    using c r(2) assms(3,6,7) by (simp add: ring_def as)
qed

lemma ring_remove:
  assumes "ring L (us @ a # vs)" "us @ vs \<noteq> []" "nxt (L a) = Some n" "prv (L a) = Some p"
    and "\<And>x. x \<in> set (us @ vs) \<Longrightarrow> nxt (L' x) = (if x = p then Some n else nxt (L x))"
    and "\<And>x. x \<in> set (us @ vs) \<Longrightarrow> prv (L' x) = (if x = n then Some p else prv (L x))"
  shows "ring L' (us @ vs)"
proof -
  let ?as = "us @ a # vs"
  have d: "distinct ?as" and c: "chain L (Some (last ?as)) ?as (Some (hd ?as))"
    using assms(1) by (auto simp: ring_def)
  have cu: "chain L (Some (last ?as)) us (Some a)" and cv: "chain L (Some a) vs (Some (hd ?as))"
    and p: "last_of (Some (last ?as)) us = Some p" and n: "first_of vs (Some (hd ?as)) = Some n"
    using c assms(3,4) by simp_all
  have un: "x \<in> set us \<Longrightarrow> x = n \<longleftrightarrow> vs = [] \<and> x = hd us" for x
    using n d by (cases vs; cases us) auto
  have vp: "x \<in> set vs \<Longrightarrow> x = p \<longleftrightarrow> us = [] \<and> x = last vs" for x
    using p d last_in_set [of us] by (auto simp: last_of_def disjoint_iff split: if_splits)
  have up: "x \<in> set us \<Longrightarrow> x = p \<longleftrightarrow> x = last us" for x
    using p by (auto simp: last_of_def split: if_splits)
  have vn: "x \<in> set vs \<Longrightarrow> x = n \<longleftrightarrow> x = hd vs" for x
    using n by (cases vs) auto
  have cu': "chain L' (if vs = [] then Some p else Some (last vs)) us (Some n)" if "us \<noteq> []"
    using chain_ends [OF cu that] that d p by (intro chain_relink [OF cu that]) (auto simp: assms(5,6) un up)
  have cv': "chain L' (Some p) vs (if us = [] then Some n else Some (hd us))" if "vs \<noteq> []"
    using chain_ends [OF cv that] that d n by (intro chain_relink [OF cv that]) (auto simp: assms(5,6) vn vp split: if_splits)
  show ?thesis
    unfolding ring_def
  proof (intro conjI impI)
    show "distinct (us @ vs)" using d by simp
    show "chain L' (Some (last (us @ vs))) (us @ vs) (Some (hd (us @ vs)))"
    proof (cases "us = []"; cases "vs = []")
      assume "us = []" "vs = []" then show ?thesis by simp
    next
      assume "us = []" "vs \<noteq> []"
      then show ?thesis using cv' p n by (cases vs) auto
    next
      assume "us \<noteq> []" "vs = []"
      then show ?thesis using cu' p n by (cases us) (auto simp: last_of_def)
    next
      assume "us \<noteq> []" "vs \<noteq> []"
      then show ?thesis using cu' cv' p n by (cases vs; cases us) (auto simp: last_of_def)
    qed
  qed
qed

lemma ll_rep_first:
  assumes "ll_rep l as" "as \<noteq> []"
  shows "ll_first l = Some (hd as)" "prv (ll_links l (hd as)) = Some (last as)"
    "link_at l (Some (last as)) = Inr (last as)"
proof -
  show "ll_first l = Some (hd as)" using assms by (cases as) (auto simp: ll_rep_def)
  show "prv (ll_links l (hd as)) = Some (last as)" using assms by (cases as) (auto simp: ll_rep_def ring_def)
  show "link_at l (Some (last as)) = Inr (last as)" using assms last_in_set [of as] by (auto simp: ll_rep_def link_at_def)
qed

lemma ll_push_back_ok:
  assumes rep: "ll_rep l as" and a: "a \<notin> ll_live l"
  obtains l' where "ll_push_back l a x = Inr l'" "ll_rep l' (as @ [a])" "ll_contents l' (as @ [a]) = ll_contents l as @ [x]"
    "ll_live l' = insert a (ll_live l)"
proof (cases "as = []")
  case True
  then show ?thesis
    using rep that
    by (auto simp: ll_push_back_def ll_locked_def only_link_def new_link_def set_link_def ll_rep_def ring_def ll_contents_def Let_def)
next
  case False
  let ?f = "hd as" and ?p = "last as" and ?L = "ll_links l"
  have pf: "?p \<in> set as" "?f \<in> set as" "a \<notin> set as" "?p \<noteq> a" "?f \<noteq> a" and last: "llast (?L ?p)"
    using last_in_set [OF False] hd_in_set [OF False] a rep by (auto simp: ll_rep_def)
  note first = ll_rep_first [OF rep False]
  define l' where "l' = l\<lparr>ll_size := ll_size l + 1, ll_live := insert a (ll_live l),
    ll_links := \<lambda>y. if y = a then \<lparr>nxt = Some ?f, prv = Some ?p, ldata = x, llast = True\<rparr>
      else (?L y)\<lparr>nxt := (if y = ?p then Some a else nxt (?L y)), prv := (if y = ?f then Some a else prv (?L y)),
        llast := (if y = ?p then False else llast (?L y))\<rparr>\<rparr>"
  have "ll_mutex l = 0" using rep by (simp add: ll_rep_def)
  then have "ll_push_back l a x = Inr l'"
    using first pf last
    by (auto simp: ll_push_back_def ll_locked_def new_link_def set_link_def link_at_def Let_def l'_def
        intro!: llist.equality llink.equality ext split: if_splits)
  moreover have "ring (ll_links l') (as @ [a])"
    using rep False pf by (intro ring_insert [of ?L]) (auto simp: ll_rep_def l'_def)
  then have "ll_rep l' (as @ [a])"
    using rep False pf by (auto simp: ll_rep_def l'_def first_of_def split: list.splits)
  moreover have "ll_contents l' (as @ [a]) = ll_contents l as @ [x]"
    using pf by (auto simp: ll_contents_def l'_def)
  ultimately show ?thesis using that by (simp add: l'_def)
qed

lemma push_front_ok:
  assumes rep: "ll_rep l as" and a: "a \<notin> ll_live l"
  obtains l' where "ll_push_front l a x = Inr l'" "ll_rep l' (a # as)" "ll_contents l' (a # as) = x # ll_contents l as"
    "ll_live l' = insert a (ll_live l)"
proof (cases "as = []")
  case True
  then show ?thesis
    using rep that
    by (auto simp: ll_push_front_def ll_locked_def only_link_def new_link_def set_link_def ll_rep_def ring_def ll_contents_def Let_def)
next
  case False
  let ?f = "hd as" and ?p = "last as" and ?L = "ll_links l"
  have pf: "?p \<in> set as" "?f \<in> set as" "a \<notin> set as" "?p \<noteq> a" "?f \<noteq> a"
    using last_in_set [OF False] hd_in_set [OF False] a rep by (auto simp: ll_rep_def)
  note first = ll_rep_first [OF rep False]
  define l' where "l' = l\<lparr>ll_size := ll_size l + 1, ll_live := insert a (ll_live l), ll_first := Some a,
    ll_links := \<lambda>y. if y = a then \<lparr>nxt = Some ?f, prv = Some ?p, ldata = x, llast = False\<rparr>
      else (?L y)\<lparr>nxt := (if y = ?p then Some a else nxt (?L y)), prv := (if y = ?f then Some a else prv (?L y))\<rparr>\<rparr>"
  have "ll_mutex l = 0" using rep by (simp add: ll_rep_def)
  then have "ll_push_front l a x = Inr l'"
    using first pf
    by (auto simp: ll_push_front_def ll_locked_def new_link_def set_link_def link_at_def Let_def l'_def
        intro!: llist.equality llink.equality ext split: if_splits)
  moreover have "ring (ll_links l') (a # as)"
    using rep False pf by (intro ring_insert [of ?L]) (auto simp: ll_rep_def l'_def)
  then have "ll_rep l' (a # as)"
    using rep False pf by (auto simp: ll_rep_def l'_def)
  moreover have "ll_contents l' (a # as) = x # ll_contents l as"
    using pf by (auto simp: ll_contents_def l'_def)
  ultimately show ?thesis using that by (simp add: l'_def)
qed

lemma last_remove:
  assumes "distinct (us @ a # vs)" "us @ vs \<noteq> []" "x \<in> set (us @ vs)"
  shows "vs \<noteq> [] \<Longrightarrow> last (us @ a # vs) = last (us @ vs)" "vs = [] \<Longrightarrow> x \<noteq> last (us @ a # vs)"
  using assms by auto

text \<open>Removing any link leaves a ring; the flag stays where it was.\<close>

lemma remove_ring:
  assumes rep: "ll_rep l (us @ a # vs)" and ne: "us @ vs \<noteq> []"
  obtains l' where "ll_remove l a = Inr l'" "ring (ll_links l') (us @ vs)"
    "\<forall>x \<in> set (us @ vs). llast (ll_links l' x) = llast (ll_links l x) \<and> ldata (ll_links l' x) = ldata (ll_links l x)"
    "set (us @ vs) \<subseteq> ll_live l'" "ll_first l' = first_of (us @ vs) None" "ll_size l' = length (us @ vs)" "ll_mutex l' = 0"
proof -
  let ?as = "us @ a # vs" and ?L = "ll_links l"
  have r: "distinct ?as" "chain ?L (Some (last ?as)) ?as (Some (hd ?as))" "set ?as \<subseteq> ll_live l"
    "ll_first l = Some (hd ?as)" "ll_size l = Suc (length (us @ vs))" "ll_mutex l = 0" "ring ?L ?as"
    using rep by (auto simp: ll_rep_def ring_def split: if_splits) (cases us; auto)+
  obtain p where p: "prv (?L a) = Some p" "last_of (Some (last ?as)) us = Some p" "p \<in> set (us @ vs)"
    using r(2) ne last_in_set [of us] last_in_set [of vs] by (auto simp: last_of_def split: if_splits)
  obtain n where n: "nxt (?L a) = Some n" "first_of vs (Some (hd ?as)) = Some n" "n \<in> set (us @ vs)"
    using r(2) ne by (cases vs; cases us) auto
  have na: "p \<noteq> a" "n \<noteq> a" using p(3) n(3) r(1) by auto
  have live: "p \<in> ll_live l" "n \<in> ll_live l" "a \<in> ll_live l" using p(3) n(3) r(3) by auto
  have size: "length (us @ vs) \<noteq> 0" using ne by simp
  define l' where "l' = l\<lparr>ll_size := length (us @ vs), ll_live := ll_live l - {a},
    ll_first := (if hd ?as = a then Some n else Some (hd ?as)),
    ll_links := \<lambda>y. (?L y)\<lparr>nxt := (if y = p then Some n else nxt (?L y)), prv := (if y = n then Some p else prv (?L y))\<rparr>\<rparr>"
  have "ll_remove l a = Inr l'"
    using r(4,5,6) size na live p(1) n(1)
    by (auto simp: ll_remove_def ll_locked_def set_link_def link_at_def Let_def l'_def
        intro!: llist.equality llink.equality ext split: if_splits)
  moreover have "ring (ll_links l') (us @ vs)"
    using r(7) ne n(1) p(1) by (rule ring_remove) (simp_all add: l'_def)
  moreover have "ll_first l' = first_of (us @ vs) None"
    using n(2) r(1) ne by (cases us; cases vs) (auto simp: l'_def)
  ultimately show ?thesis
    using that r by (auto simp: l'_def)
qed

lemma remove_ok:
  assumes rep: "ll_rep l (us @ a # vs)" and vs: "vs \<noteq> []"
  obtains l' where "ll_remove l a = Inr l'" "ll_rep l' (us @ vs)" "ll_contents l' (us @ vs) = ll_contents l us @ ll_contents l vs"
proof -
  have ne: "us @ vs \<noteq> []" using vs by simp
  have d: "distinct (us @ a # vs)" "\<forall>x \<in> set (us @ a # vs). llast (ll_links l x) = (x = last (us @ a # vs))"
    using rep by (auto simp: ll_rep_def ring_def)
  obtain l' where l': "ll_remove l a = Inr l'" "ring (ll_links l') (us @ vs)"
    "\<forall>x \<in> set (us @ vs). llast (ll_links l' x) = llast (ll_links l x) \<and> ldata (ll_links l' x) = ldata (ll_links l x)"
    "set (us @ vs) \<subseteq> ll_live l'" "ll_first l' = first_of (us @ vs) None" "ll_size l' = length (us @ vs)" "ll_mutex l' = 0"
    by (rule remove_ring [OF rep ne])
  have "\<forall>x \<in> set (us @ vs). llast (ll_links l' x) = (x = last (us @ vs))"
    using l'(3) d(2) vs by auto
  with l' have "ll_rep l' (us @ vs)" by (simp add: ll_rep_def)
  moreover have "ll_contents l' (us @ vs) = ll_contents l us @ ll_contents l vs"
    using l'(3) by (simp add: ll_contents_def)
  ultimately show ?thesis using that l'(1) by blast
qed

lemma remove_only:
  assumes "ll_rep l [a]"
  shows "\<exists>l'. ll_remove l a = Inr l' \<and> ll_rep l' []"
  using assms by (auto simp: ll_rep_def ll_remove_def ll_locked_def link_at_def ring_def Let_def)

lemma iter_ok:
  assumes "ll_rep l as" "length vs \<le> fuel" "as = us @ vs"
  shows "ll_iter fuel l (first_of vs None) = Inr vs"
  using assms(2,3)
proof (induction vs arbitrary: us fuel)
  case (Cons v vs)
  then obtain k where k: "fuel = Suc k" "length vs \<le> k" by (cases fuel) auto
  have d: "distinct as" "chain (ll_links l) (Some (last as)) as (Some (hd as))" "v \<in> ll_live l"
    "llast (ll_links l v) = (v = last as)"
    using assms(1) Cons.prems(2) by (auto simp: ll_rep_def ring_def)
  have "v = last as \<longleftrightarrow> vs = []"
    using d(1) Cons.prems(2) last_in_set [of vs] by (auto split: if_splits)
  then have "iter_next l v = first_of vs None"
    using d(2,4) Cons.prems(2) by (cases vs) (auto simp: iter_next_def)
  then show ?case using Cons.IH [of k "us @ [v]"] k Cons.prems(2) d(3) by (simp add: link_at_def)
qed simp

text \<open>Without a flagged link, iteration never ends.\<close>

lemma iter_forever:
  assumes "ring (ll_links l) as" "\<forall>x \<in> set as. \<not> llast (ll_links l x)" "set as \<subseteq> ll_live l" "a \<in> set as"
  shows "ll_iter fuel l (Some a) = Inl Hang"
  using assms(4)
proof (induction fuel arbitrary: a)
  case (Suc fuel)
  then obtain i where i: "i < length as" "as ! i = a" by (auto simp: in_set_conv_nth)
  have c: "chain (ll_links l) (Some (last as)) as (Some (hd as))" "as \<noteq> []"
    using assms(1) Suc.prems by (auto simp: ring_def)
  have "\<exists>b \<in> set as. nxt (ll_links l a) = Some b"
    using chain_nxt_nth [OF c(1) i(1)] i(2) c(2) by (auto split: if_splits)
  then show ?case using Suc assms(2,3) by (auto simp: link_at_def iter_next_def)
qed simp

lemma seek_ok:
  assumes "ll_rep l as" "i < length as"
  shows "ll_seek l (Some (as ! i)) j = Inr (Some (as ! ((i + j) mod length as)), 0)"
  using assms(2)
proof (induction j arbitrary: i)
  case (Suc j)
  have c: "chain (ll_links l) (Some (last as)) as (Some (hd as))" "as \<noteq> []" "as ! i \<in> ll_live l"
    using assms(1) Suc.prems by (auto simp: ll_rep_def ring_def)
  let ?i = "if Suc i < length as then Suc i else 0"
  have "nxt (ll_links l (as ! i)) = Some (as ! ?i)"
    using chain_nxt_nth [OF c(1) Suc.prems] c(2) by (auto simp: hd_conv_nth)
  moreover have "?i < length as" "(?i + j) mod length as = (i + Suc j) mod length as"
    using Suc.prems c(2) by (auto simp: not_less) (metis Suc_leI add_Suc_right le_antisym mod_add_self1 plus_nat.simps(2))
  ultimately show ?case using Suc.IH [of ?i] c(3) by (simp add: link_at_def)
qed simp

lemma index_ok:
  assumes "ll_rep l as" "as \<noteq> []"
  shows "ll_index l i = Inr (ll_contents l as ! (i mod length as))"
proof -
  have n: "0 < length as" using assms(2) by simp
  have f: "ll_first l = Some (as ! 0)" using ll_rep_first(1) [OF assms] assms(2) by (simp add: hd_conv_nth)
  have m: "i mod length as < length as" using n by simp
  then have "as ! (i mod length as) \<in> ll_live l"
    using assms(1) nth_mem by (auto simp: ll_rep_def)
  then show ?thesis
    using seek_ok [OF assms(1) n, of i] m by (simp add: ll_index_def ll_get_link_def f link_at_def ll_contents_def)
qed

section \<open>Properties\<close>


text \<open>C22: Iteration over a well-formed list visits its links in order and ends. After the last of several links has
  been removed no link is flagged any more, and iteration never ends.\<close>

theorem linkedlist_iteration:
  assumes "ll_rep l as" and "length as \<le> fuel"
  shows "ll_iter fuel l (ll_first l) = Inr as \<and>
    (2 \<le> length as \<longrightarrow> (\<exists>l'. ll_remove l (last as) = Inr l' \<and> (\<forall>n. ll_iter n l' (ll_first l') = Inl Hang)))"
proof (intro conjI impI)
  show "ll_iter fuel l (ll_first l) = Inr as"
    using iter_ok [OF assms, of "[]"] assms(1) by (simp add: ll_rep_def)
  assume "2 \<le> length as"
  then obtain us a where as: "as = us @ [a]" and us: "us \<noteq> []"
    by (cases as rule: rev_cases) (auto, force)
  obtain l' where l': "ll_remove l a = Inr l'" "ring (ll_links l') (us @ [])"
    "\<forall>x \<in> set (us @ []). llast (ll_links l' x) = llast (ll_links l x) \<and> ldata (ll_links l' x) = ldata (ll_links l x)"
    "set (us @ []) \<subseteq> ll_live l'" "ll_first l' = first_of (us @ []) None" "ll_size l' = length (us @ [])" "ll_mutex l' = 0"
    by (rule remove_ring [of l us a "[]"]) (use assms(1) as us in simp_all)
  have "\<forall>x \<in> set us. \<not> llast (ll_links l' x)"
    using l'(3) assms(1) as by (auto simp: ll_rep_def ring_def)
  with l'(2,4) have "ll_iter n l' (Some b) = Inl Hang" if "b \<in> set us" for n b
    using that by (intro iter_forever [of l' us]) simp_all
  then have "ll_iter n l' (ll_first l') = Inl Hang" for n
    using l'(5) us by (cases us) simp_all
  then show "\<exists>l'. ll_remove l (last as) = Inr l' \<and> (\<forall>n. ll_iter n l' (ll_first l') = Inl Hang)"
    using l'(1) as by auto
qed

definition two_links :: "nat llist" where
  "two_links = \<lparr>ll_links = (\<lambda>_. \<lparr>nxt = None, prv = None, ldata = 0, llast = False\<rparr>)
     (1 := \<lparr>nxt = Some 2, prv = Some 2, ldata = 10, llast = False\<rparr>, 2 := \<lparr>nxt = Some 1, prv = Some 1, ldata = 20, llast = True\<rparr>),
     ll_live = {1, 2}, ll_first = Some 1, ll_size = 2, ll_mutex = 0\<rparr>"

lemma two_links_rep: "ll_rep two_links [1, 2]"
  by (simp add: ll_rep_def ring_def two_links_def)


theorem linkedlist_iteration_witness:
  "ll_iter 2 two_links (Some 1) = Inr [1, 2] \<and>
   (\<exists>l'. ll_remove two_links 2 = Inr l' \<and> (\<forall>n. ll_iter n l' (ll_first l') = Inl Hang))"
proof -
  have "ll_first two_links = Some 1" by (simp add: two_links_def)
  with linkedlist_iteration [OF two_links_rep, of 2] show ?thesis by simp
qed

end
