(* ===== verification/Scheduler.thy ===== *)
theory Scheduler
  imports LinkedList
begin

text \<open>
  The round-robin scheduler (\<^verbatim>\<open>scheduler/scheduler.cc\<close>, \<^verbatim>\<open>scheduler.hh\<close>). The tasks are the links of a \<^verbatim>\<open>LinkedList\<close>;
  each CPU has a pointer to the link it runs. A task owns its buffer for the SSE state, here its contents.
  Addresses from the heap are arguments, \<open>cpu\<close> is the number \<^verbatim>\<open>cpuid_xapic_id\<close> returns.
\<close>

section \<open>State\<close>

record cpu_state =
  r_cr3 :: nat
  r_r15 :: nat
  r_r14 :: nat
  r_r13 :: nat
  r_r12 :: nat
  r_r11 :: nat
  r_r10 :: nat
  r_r9 :: nat
  r_r8 :: nat
  r_cr2 :: nat
  r_rbp :: nat
  r_rsi :: nat
  r_rdi :: nat
  r_rdx :: nat
  r_rcx :: nat
  r_rbx :: nat
  r_rax :: nat
  r_exc :: nat
  r_rflexc :: nat
  r_err :: nat
  r_rip :: nat
  r_cs :: nat
  r_rfl :: nat
  r_rsp :: nat
  r_ss :: nat

definition cpu_zero :: cpu_state where
  "cpu_zero = \<lparr>r_cr3 = 0, r_r15 = 0, r_r14 = 0, r_r13 = 0, r_r12 = 0, r_r11 = 0, r_r10 = 0, r_r9 = 0, r_r8 = 0,
     r_cr2 = 0, r_rbp = 0, r_rsi = 0, r_rdi = 0, r_rdx = 0, r_rcx = 0, r_rbx = 0, r_rax = 0, r_exc = 0, r_rflexc = 0,
     r_err = 0, r_rip = 0, r_cs = 0, r_rfl = 0, r_rsp = 0, r_ss = 0\<rparr>"

datatype TaskType = PROCESS | THREAD

record task =
  t_state :: cpu_state
  t_sse :: "8 word list"
  t_id :: nat
  t_parent :: nat
  t_type :: TaskType
  t_dead :: bool

record sched =
  sched_tasks :: "task llist"
  sched_cpus :: "nat \<Rightarrow> nat option"
  sched_running :: bool
  sched_pid :: nat
  sched_sse :: "8 word list"
  sched_m :: int
  sched_ram :: "nat \<Rightarrow> nat"

definition sched_init :: sched where
  "sched_init = \<lparr>sched_tasks = ll_empty, sched_cpus = (\<lambda>_. None), sched_running = False, sched_pid = 0,
     sched_sse = replicate 512 0, sched_m = 0, sched_ram = (\<lambda>_. 0)\<rparr>"

section \<open>Operations\<close>

definition sched_setrunning :: "sched \<Rightarrow> bool \<Rightarrow> sched" where
  "sched_setrunning s otoole = s\<lparr>sched_running := otoole\<rparr>"

definition sched_lock :: "sched \<Rightarrow> sched res" where
  "sched_lock s = rbind (mutex_lock (sched_m s)) (\<lambda>m. Inr (s\<lparr>sched_m := m\<rparr>))"

definition sched_unlock :: "sched \<Rightarrow> sched" where
  "sched_unlock s = s\<lparr>sched_m := mutex_unlock (sched_m s)\<rparr>"

definition current :: "sched \<Rightarrow> nat \<Rightarrow> nat res" where
  "current s cpu = link_at (sched_tasks s) (sched_cpus s cpu)"

definition task_at :: "sched \<Rightarrow> nat \<Rightarrow> task" where
  "task_at s a = ldata (ll_links (sched_tasks s) a)"

definition set_task :: "sched \<Rightarrow> nat \<Rightarrow> task \<Rightarrow> sched" where
  "set_task s a t = s\<lparr>sched_tasks := set_link (sched_tasks s) a ((ll_links (sched_tasks s) a)\<lparr>ldata := t\<rparr>)\<rparr>"

definition new_task :: "sched \<Rightarrow> cpu_state \<Rightarrow> TaskType \<Rightarrow> task" where
  "new_task s st ty = \<lparr>t_state = st, t_sse = replicate 512 0, t_id = sched_pid s, t_parent = 0, t_type = ty, t_dead = False\<rparr>"

definition next_pid :: "sched \<Rightarrow> sched" where
  "next_pid s = s\<lparr>sched_pid := trunc32 (sched_pid s + 1)\<rparr>"

text \<open>A \<^verbatim>\<open>schedguard\<close> stops the scheduler in its constructor and starts it in its destructor. \<open>a\<close> is the address of
  the new link, \<open>stk\<close> the address of the new stack, \<open>exit_fn\<close> that of \<^verbatim>\<open>sched_exit_thread\<close>.\<close>

definition sched_add_thread :: "sched \<Rightarrow> nat \<Rightarrow> nat \<Rightarrow> nat \<Rightarrow> nat \<Rightarrow> nat \<Rightarrow> nat \<Rightarrow> sched res" where
  "sched_add_thread s a rip arg stk cr3 exit_fn =
     rbind (sched_lock s) (\<lambda>s.
     let s = sched_setrunning s False;
         rsp = add64 stk 0x8000;
         st = cpu_zero\<lparr>r_cs := 0x08, r_ss := 0x10, r_rip := rip, r_rbp := rsp, r_rfl := 0x202, r_rdi := arg, r_cr3 := cr3,
                r_rsp := sub64 rsp 8\<rparr>;
         t = (new_task s st THREAD)\<lparr>t_sse := sched_sse s\<rparr>;
         s = (next_pid s)\<lparr>sched_ram := (sched_ram s)(sub64 rsp 8 := exit_fn)\<rparr>
     in
     rbind (ll_push_back (sched_tasks s) a t) (\<lambda>l.
     Inr (sched_setrunning (sched_unlock (s\<lparr>sched_tasks := l\<rparr>)) True)))"

definition sched_add_user_process :: "sched \<Rightarrow> nat \<Rightarrow> nat \<Rightarrow> nat \<Rightarrow> nat \<Rightarrow> sched res" where
  "sched_add_user_process s a cr3 stackptr entry =
     (if \<not> sched_running s then Inl (Fatal ''Assert failed: sched_running'')
      else
        rbind (sched_lock s) (\<lambda>s.
        let s = sched_setrunning s False;
            st = cpu_zero\<lparr>r_cs := 0x23, r_ss := 0x1b, r_rip := entry, r_rsp := stackptr, r_rbp := stackptr, r_rfl := 0x202,
                   r_rdi := 0, r_cr3 := cr3\<rparr>;
            t = (new_task s st PROCESS)\<lparr>t_sse := sched_sse s\<rparr>;
            s = next_pid s
        in
        rbind (ll_push_back (sched_tasks s) a t) (\<lambda>l.
        Inr (sched_setrunning (sched_unlock (s\<lparr>sched_tasks := l\<rparr>)) True))))"

text \<open>A tick returns to its caller, \<open>None\<close>, or loads the state of the next task. The link of a task that has exited is
  removed instead of saving its state.\<close>

definition sched_tick :: "sched \<Rightarrow> nat \<Rightarrow> cpu_state \<Rightarrow> bool \<Rightarrow> (cpu_state option \<times> sched) res" where
  "sched_tick s cpu st force =
     (if \<not> sched_running s \<and> \<not> force then Inr (None, s)
      else
        rbind (sched_lock s) (\<lambda>s.
        rbind (current s cpu) (\<lambda>c.
        rbind
          (if t_dead (task_at s c)
           then let n = nxt (ll_links (sched_tasks s) c) in
                rbind (ll_remove (sched_tasks s) c) (\<lambda>l. Inr (s\<lparr>sched_tasks := l, sched_cpus := (sched_cpus s)(cpu := n)\<rparr>))
           else let s = set_task s c ((task_at s c)\<lparr>t_state := st, t_sse := sched_sse s\<rparr>) in
                Inr (s\<lparr>sched_cpus := (sched_cpus s)(cpu := nxt (ll_links (sched_tasks s) c))\<rparr>))
          (\<lambda>s.
        rbind (current s cpu) (\<lambda>c.
        Inr (Some (t_state (task_at s c)), sched_unlock (s\<lparr>sched_sse := t_sse (task_at s c)\<rparr>)))))))"

text \<open>The first task. The interrupt at the end saves its context with a forced tick, in which \<open>st\<close> is the frame.\<close>

definition sched_start :: "sched \<Rightarrow> nat \<Rightarrow> nat \<Rightarrow> cpu_state \<Rightarrow> sched res" where
  "sched_start s cpu a st =
     (if ll_size (sched_tasks s) \<noteq> 0 then Inl (Fatal ''Assert failed: !sched_tasks.size'')
      else
        rbind (sched_lock s) (\<lambda>s.
        let s = sched_setrunning s False;
            t = new_task s (cpu_zero\<lparr>r_cs := 0x08, r_ss := 0x10\<rparr>) PROCESS;
            s = next_pid s
        in
        rbind (ll_push_front (sched_tasks s) a t) (\<lambda>l.
        let s = sched_unlock (s\<lparr>sched_tasks := l, sched_cpus := (sched_cpus s)(cpu := ll_first l)\<rparr>) in
        rbind (sched_tick s cpu st True) (\<lambda>(_, s). Inr (sched_setrunning s True)))))"

definition sched_exit_thread :: "sched \<Rightarrow> nat \<Rightarrow> sched res" where
  "sched_exit_thread s cpu =
     rbind (sched_lock s) (\<lambda>s.
     let s = sched_setrunning s False in
     rbind (current s cpu) (\<lambda>c.
     Inr (sched_setrunning (sched_unlock (set_task s c ((task_at s c)\<lparr>t_dead := True\<rparr>))) True)))"

text \<open>The report of all tasks: id, type, parent, the neighbours, and whether the task is the current one. The
  loop follows the ring; more steps than there are links mean that it does not end.\<close>

fun dump_loop :: "nat \<Rightarrow> sched \<Rightarrow> nat \<Rightarrow> nat \<Rightarrow> nat \<Rightarrow> (nat \<times> TaskType \<times> nat \<times> nat \<times> nat \<times> bool) list res" where
  "dump_loop 0 s f cur a = Inl Hang"
| "dump_loop (Suc fuel) s f cur a =
     rbind (link_at (sched_tasks s) (Some a)) (\<lambda>a.
     rbind (link_at (sched_tasks s) (prv (ll_links (sched_tasks s) a))) (\<lambda>p.
     rbind (link_at (sched_tasks s) (nxt (ll_links (sched_tasks s) a))) (\<lambda>n.
     let t = task_at s a;
         line = (t_id t, t_type t, t_parent t, t_id (task_at s p), t_id (task_at s n), t_id t = cur)
     in if n = f then Inr [line] else rbind (dump_loop fuel s f cur n) (\<lambda>ls. Inr (line # ls)))))"

definition sched_dump :: "sched \<Rightarrow> nat \<Rightarrow> (nat \<times> TaskType \<times> nat \<times> nat \<times> nat \<times> bool) list res" where
  "sched_dump s cpu =
     rbind (current s cpu) (\<lambda>c.
     rbind (link_at (sched_tasks s) (ll_first (sched_tasks s))) (\<lambda>f.
     dump_loop (ll_size (sched_tasks s)) s f (t_id (task_at s c)) f))"

section \<open>The ring of tasks\<close>

definition sched_ok :: "sched \<Rightarrow> nat list \<Rightarrow> bool" where
  "sched_ok s as \<longleftrightarrow> ll_rep (sched_tasks s) as \<and> sched_m s = 0"

definition runs :: "sched \<Rightarrow> nat \<Rightarrow> nat \<Rightarrow> bool" where
  "runs s cpu a \<longleftrightarrow> sched_cpus s cpu = Some a"

lemma ll_rep_set_data: "ll_rep (set_link l a ((ll_links l a)\<lparr>ldata := x\<rparr>)) as = ll_rep l as"
proof -
  have "chain ((ll_links l)(a := (ll_links l a)\<lparr>ldata := x\<rparr>)) p as q = chain (ll_links l) p as q" for p q
    by (rule chain_cong) simp
  then show ?thesis by (auto simp: ll_rep_def ring_def set_link_def)
qed

lemma ll_rep_next:
  assumes "ll_rep l as" and "i < length as"
  shows "nxt (ll_links l (as ! i)) = Some (as ! (Suc i mod length as))"
proof -
  have "chain (ll_links l) (Some (last as)) as (Some (hd as))"
    using assms by (auto simp: ll_rep_def ring_def)
  note n = chain_nxt_nth [OF this assms(2)]
  show ?thesis
  proof (cases "Suc i < length as")
    case True
    then show ?thesis using n by simp
  next
    case False
    then have "Suc i = length as" using assms(2) by simp
    moreover have "as \<noteq> []" using assms(2) by auto
    ultimately show ?thesis using n by (simp add: hd_conv_nth)
  qed
qed

lemma ll_rep_live: "ll_rep l as \<Longrightarrow> i < length as \<Longrightarrow> link_at l (Some (as ! i)) = Inr (as ! i)"
  by (auto simp: ll_rep_def link_at_def dest: nth_mem)

lemma task_at_set [simp]:
  "task_at (set_task s a t) b = (if b = a then t else task_at s b)"
  "sched_cpus (set_task s a t) = sched_cpus s" "sched_running (set_task s a t) = sched_running s"
  "sched_m (set_task s a t) = sched_m s" "sched_sse (set_task s a t) = sched_sse s"
  by (simp_all add: task_at_def set_task_def set_link_def)

text \<open>One tick on a running task moves on to the next link of the ring.\<close>

lemma sched_tick_ok:
  assumes ok: "sched_ok s as" and i: "i < length as" and c: "runs s cpu (as ! i)"
    and run: "sched_running s" and alive: "\<not> t_dead (task_at s (as ! i))"
  obtains s' where "sched_tick s cpu st force = Inr (Some (t_state (task_at s' (as ! (Suc i mod length as)))), s')"
    and "sched_ok s' as" and "runs s' cpu (as ! (Suc i mod length as))" and "sched_running s'"
    and "\<forall>b. t_state (task_at s' b) = (if b = as ! i then st else t_state (task_at s b))"
    and "\<forall>b. t_dead (task_at s' b) = t_dead (task_at s b)"
proof -
  let ?j = "Suc i mod length as" and ?a = "as ! i"
  let ?t = "(task_at s ?a)\<lparr>t_state := st, t_sse := sched_sse s\<rparr>"
  have rep: "ll_rep (sched_tasks s) as" and m: "sched_m s = 0" using ok by (simp_all add: sched_ok_def)
  have j: "?j < length as" using i by (intro mod_less_divisor) linarith
  define s2 where "s2 = (set_task (s\<lparr>sched_m := 1\<rparr>) ?a ?t)\<lparr>sched_cpus := (sched_cpus s)(cpu := Some (as ! ?j))\<rparr>"
  have rep2: "ll_rep (sched_tasks s2) as" using rep by (simp add: s2_def set_task_def ll_rep_set_data)
  have t2: "task_at s2 b = (if b = ?a then ?t else task_at s b)" for b
    by (simp add: s2_def task_at_def set_task_def set_link_def)
  have nx: "nxt (ll_links (sched_tasks (set_task (s\<lparr>sched_m := 1\<rparr>) ?a ?t)) ?a) = Some (as ! ?j)"
    using ll_rep_next [OF rep i] by (simp add: set_task_def set_link_def)
  have c1: "current (s\<lparr>sched_m := 1\<rparr>) cpu = Inr ?a" using c ll_rep_live [OF rep i] by (simp add: current_def runs_def)
  have c2: "current s2 cpu = Inr (as ! ?j)" using ll_rep_live [OF rep2 j] by (simp add: current_def s2_def)
  define s3 where "s3 = sched_unlock (s2\<lparr>sched_sse := t_sse (task_at s2 (as ! ?j))\<rparr>)"
  have t3: "task_at s3 = task_at s2" by (simp add: s3_def sched_unlock_def task_at_def fun_eq_iff)
  have d: "task_at (s\<lparr>sched_m := 1\<rparr>) ?a = task_at s ?a" "sched_sse (s\<lparr>sched_m := 1\<rparr>) = sched_sse s"
    "sched_cpus (set_task (s\<lparr>sched_m := 1\<rparr>) ?a ?t) = sched_cpus s" by (simp_all add: task_at_def)
  have "sched_tick s cpu st force = Inr (Some (t_state (task_at s2 (as ! ?j))), s3)"
    unfolding sched_tick_def sched_lock_def m using run alive
    by (simp add: c1 d nx s2_def [symmetric] c2 s3_def)
  moreover have "sched_ok s3 as" using rep2 by (simp add: s3_def sched_ok_def sched_unlock_def)
  moreover have "runs s3 cpu (as ! ?j)" "sched_running s3"
    using run by (simp_all add: s3_def s2_def sched_unlock_def runs_def)
  ultimately show thesis by (intro that [of s3]) (auto simp: t3 t2)
qed

text \<open>Ticks in a row, each with the state the interrupted task has.\<close>

fun run_ticks :: "sched \<Rightarrow> nat \<Rightarrow> cpu_state list \<Rightarrow> sched res" where
  "run_ticks s cpu [] = Inr s"
| "run_ticks s cpu (st # sts) = rbind (sched_tick s cpu st False) (\<lambda>(_, s). run_ticks s cpu sts)"

lemma mod_ring_ne:
  fixes i k n :: nat
  assumes "i < n" "0 < k" "k < n"
  shows "(i + k) mod n \<noteq> i"
proof (cases "i + k < n")
  case True
  then show ?thesis using assms by simp
next
  case False
  then have "(i + k) mod n = i + k - n" using assms by (simp add: le_mod_geq)
  then show ?thesis using assms False by linarith
qed

lemma run_ticks_ok:
  assumes "sched_ok s as" "i < length as" "runs s cpu (as ! i)" "sched_running s" "\<forall>a \<in> set as. \<not> t_dead (task_at s a)"
  shows "\<exists>s'. run_ticks s cpu sts = Inr s' \<and> runs s' cpu (as ! ((i + length sts) mod length as)) \<and> sched_ok s' as \<and>
    (\<forall>j < length as. (\<forall>k < length sts. (i + k) mod length as \<noteq> j) \<longrightarrow> t_state (task_at s' (as ! j)) = t_state (task_at s (as ! j)))"
  using assms
proof (induction sts arbitrary: s i)
  case Nil
  then show ?case by simp
next
  case (Cons st sts)
  let ?n = "length as"
  have dist: "distinct as" using Cons.prems(1) by (simp add: sched_ok_def ll_rep_def ring_def)
  have lt: "Suc i mod ?n < ?n" using Cons.prems(2) by (intro mod_less_divisor) linarith
  have alive: "\<not> t_dead (task_at s (as ! i))" using Cons.prems(2,5) by auto
  obtain s1 where s1: "sched_tick s cpu st False = Inr (Some (t_state (task_at s1 (as ! (Suc i mod ?n)))), s1)"
    "sched_ok s1 as" "runs s1 cpu (as ! (Suc i mod ?n))" "sched_running s1"
    "\<forall>b. t_state (task_at s1 b) = (if b = as ! i then st else t_state (task_at s b))"
    "\<forall>b. t_dead (task_at s1 b) = t_dead (task_at s b)"
    by (rule sched_tick_ok [OF Cons.prems(1-4) alive])
  have dead: "\<forall>a \<in> set as. \<not> t_dead (task_at s1 a)" using s1(6) Cons.prems(5) by simp
  obtain s' where s': "run_ticks s1 cpu sts = Inr s'" "runs s' cpu (as ! ((Suc i mod ?n + length sts) mod ?n))" "sched_ok s' as"
    "\<forall>j < ?n. (\<forall>k < length sts. (Suc i mod ?n + k) mod ?n \<noteq> j) \<longrightarrow> t_state (task_at s' (as ! j)) = t_state (task_at s1 (as ! j))"
    using Cons.IH [OF s1(2) lt s1(3,4) dead] by blast
  have step: "(Suc i mod ?n + k) mod ?n = (i + Suc k) mod ?n" for k by (simp add: mod_add_left_eq)
  have "t_state (task_at s' (as ! j)) = t_state (task_at s (as ! j))"
    if j: "j < ?n" and o: "\<forall>k < length (st # sts). (i + k) mod ?n \<noteq> j" for j
  proof -
    have "\<forall>k < length sts. (Suc i mod ?n + k) mod ?n \<noteq> j"
      unfolding step using o by (metis Suc_less_eq length_Cons)
    then have "t_state (task_at s' (as ! j)) = t_state (task_at s1 (as ! j))" using s'(4) j by blast
    moreover have "as ! j \<noteq> as ! i"
      using o [rule_format, of 0] Cons.prems(2) j dist by (simp add: nth_eq_iff_index_eq)
    ultimately show ?thesis using s1(5) by simp
  qed
  then show ?case using s1(1) s'(1-3) by (intro exI [of _ s']) (simp add: step)
qed

text \<open>A task that has exited is taken out of the ring at its next tick.\<close>

lemma exit_tick_ok:
  assumes ok: "sched_ok s (us @ a # vs)" and ne: "us @ vs \<noteq> []" and c: "runs s cpu a" and run: "sched_running s"
  obtains s1 s2 n where "sched_exit_thread s cpu = Inr s1" and "sched_tick s1 cpu st False = Inr (Some (t_state (task_at s2 n)), s2)"
    and "runs s2 cpu n" and "n \<in> set (us @ vs)" and "sched_m s2 = 0" and "ring (ll_links (sched_tasks s2)) (us @ vs)"
    and "\<forall>x \<in> set (us @ vs). llast (ll_links (sched_tasks s2) x) = llast (ll_links (sched_tasks s) x)"
    and "set (us @ vs) \<subseteq> ll_live (sched_tasks s2)" and "ll_first (sched_tasks s2) = first_of (us @ vs) None"
    and "ll_mutex (sched_tasks s2) = 0"
proof -
  let ?as = "us @ a # vs" and ?i = "length us"
  have rep: "ll_rep (sched_tasks s) ?as" and m: "sched_m s = 0" using ok by (simp_all add: sched_ok_def)
  have i: "?i < length ?as" "?as ! ?i = a" by simp_all
  define t where "t = (task_at s a)\<lparr>t_dead := True\<rparr>"
  define s1 where "s1 = sched_setrunning (sched_unlock (set_task ((s\<lparr>sched_m := 1\<rparr>)\<lparr>sched_running := False\<rparr>) a t)) True"
  have cur: "link_at (sched_tasks s) (Some a) = Inr a" using ll_rep_live [OF rep i(1)] i(2) by simp
  have e: "sched_exit_thread s cpu = Inr s1"
    unfolding sched_exit_thread_def sched_lock_def m using c cur
    by (simp add: current_def runs_def sched_setrunning_def s1_def t_def task_at_def)
  have rep1: "ll_rep (sched_tasks s1) ?as"
    using rep by (simp add: s1_def sched_setrunning_def sched_unlock_def set_task_def ll_rep_set_data)
  have tasks1: "sched_tasks s1 = set_link (sched_tasks s) a ((ll_links (sched_tasks s) a)\<lparr>ldata := t\<rparr>)"
    by (simp add: s1_def sched_setrunning_def sched_unlock_def set_task_def)
  define n where "n = ?as ! (Suc ?i mod length ?as)"
  have nx: "nxt (ll_links (sched_tasks s1) a) = Some n" using ll_rep_next [OF rep1 i(1)] i(2) by (simp add: n_def)
  have nin: "n \<in> set (us @ vs)" using ne by (cases vs; cases us) (auto simp: n_def nth_append)
  obtain l' where l': "ll_remove (sched_tasks s1) a = Inr l'" "ring (ll_links l') (us @ vs)"
    "\<forall>x \<in> set (us @ vs). llast (ll_links l' x) = llast (ll_links (sched_tasks s1) x) \<and> ldata (ll_links l' x) = ldata (ll_links (sched_tasks s1) x)"
    "set (us @ vs) \<subseteq> ll_live l'" "ll_first l' = first_of (us @ vs) None" "ll_size l' = length (us @ vs)" "ll_mutex l' = 0"
    by (rule remove_ring [OF rep1 ne])
  have d1: "task_at s1 a = t" "sched_cpus s1 cpu = Some a" "sched_running s1" "sched_m s1 = 0"
    using c by (simp_all add: s1_def sched_setrunning_def sched_unlock_def set_task_def set_link_def task_at_def runs_def)
  define s3 where "s3 = s1\<lparr>sched_m := 1, sched_tasks := l', sched_cpus := (sched_cpus s1)(cpu := Some n)\<rparr>"
  define s2 where "s2 = sched_unlock (s3\<lparr>sched_sse := t_sse (task_at s3 n)\<rparr>)"
  have c3: "current s3 cpu = Inr n" using l'(4) nin by (auto simp: current_def s3_def link_at_def)
  have c1: "current (s1\<lparr>sched_m := 1\<rparr>) cpu = Inr a"
    using d1(2) ll_rep_live [OF rep1 i(1)] i(2) by (simp add: current_def)
  have dead: "t_dead (task_at (s1\<lparr>sched_m := 1\<rparr>) a)" using d1(1) by (simp add: task_at_def t_def)
  have "sched_tick s1 cpu st False = Inr (Some (t_state (task_at s3 n)), s2)"
    unfolding sched_tick_def sched_lock_def d1(4) using d1(3) dead
    by (simp add: c1 nx l'(1) s3_def [symmetric] c3 s2_def)
  then show thesis
    using e l' nin by (intro that [of s1 s2 n]) (auto simp: s2_def s3_def sched_unlock_def task_at_def runs_def tasks1 set_link_def)
qed

lemma push_back_unflagged:
  assumes "ll_first l = Some f" and "prv (ll_links l f) = Some p" and "p \<in> ll_live l" and "\<not> llast (ll_links l p)" and "ll_mutex l = 0"
  shows "ll_push_back l b t = Inl (Fatal ''Assert failed: first->prev->last'')"
  using assms by (simp add: ll_push_back_def ll_locked_def link_at_def new_link_def set_link_def Let_def)

lemma add_thread_fails:
  assumes "sched_m s = 0" and "\<And>t. ll_push_back (sched_tasks s) b t = Inl e"
  shows "sched_add_thread s b rip arg stk cr3 exit_fn = Inl e"
  using assms by (simp add: sched_add_thread_def sched_lock_def sched_setrunning_def next_pid_def Let_def)

section \<open>Properties\<close>


text \<open>When the thread that was added last exits, the next tick removes it and the ring goes on with the others, but
  no link is marked as the last one any more: adding another thread stops the kernel.\<close>

theorem thread_exit_breaks_add:
  assumes "sched_ok s (us @ [a])" and "us \<noteq> []" and "runs s cpu a" and "sched_running s"
  shows "\<exists>s1 s2 n. sched_exit_thread s cpu = Inr s1 \<and> sched_tick s1 cpu st False = Inr (Some (t_state (task_at s2 n)), s2) \<and>
    n \<in> set us \<and> sched_add_thread s2 b rip arg stk cr3 exit_fn = Inl (Fatal ''Assert failed: first->prev->last'')"
proof -
  obtain s1 s2 n where s: "sched_exit_thread s cpu = Inr s1" "sched_tick s1 cpu st False = Inr (Some (t_state (task_at s2 n)), s2)"
    "runs s2 cpu n" "n \<in> set (us @ [])" "sched_m s2 = 0" "ring (ll_links (sched_tasks s2)) (us @ [])"
    "\<forall>x \<in> set (us @ []). llast (ll_links (sched_tasks s2) x) = llast (ll_links (sched_tasks s) x)"
    "set (us @ []) \<subseteq> ll_live (sched_tasks s2)" "ll_first (sched_tasks s2) = first_of (us @ []) None"
    "ll_mutex (sched_tasks s2) = 0"
    by (rule exit_tick_ok [OF assms(1) _ assms(3,4)]) (simp add: assms(2))
  have first: "ll_first (sched_tasks s2) = Some (hd us)" "prv (ll_links (sched_tasks s2) (hd us)) = Some (last us)"
    using s(6,9) assms(2) by (cases us; auto simp: ring_def)+
  have "last us \<in> ll_live (sched_tasks s2)" "last us \<noteq> a" "\<not> llast (ll_links (sched_tasks s2) (last us))"
    using s(7,8) assms(1,2) last_in_set [OF assms(2)] by (auto simp: sched_ok_def ll_rep_def ring_def)
  then have "sched_add_thread s2 b rip arg stk cr3 exit_fn = Inl (Fatal ''Assert failed: first->prev->last'')"
    using first s(5,10) by (intro add_thread_fails push_back_unflagged)
  then show ?thesis using s(1,2,4) by auto
qed

text \<open>Two tasks, the second of which runs on CPU 0.\<close>

definition two_tasks :: sched where
  "two_tasks =
     (let t = \<lparr>t_state = cpu_zero, t_sse = [], t_id = 0, t_parent = 0, t_type = PROCESS, t_dead = False\<rparr> in
      sched_init\<lparr>sched_tasks := \<lparr>ll_links = (\<lambda>_. \<lparr>nxt = None, prv = None, ldata = t, llast = False\<rparr>)
         (1 := \<lparr>nxt = Some 2, prv = Some 2, ldata = t, llast = False\<rparr>, 2 := \<lparr>nxt = Some 1, prv = Some 1, ldata = t\<lparr>t_id := 1\<rparr>, llast = True\<rparr>),
         ll_live = {1, 2}, ll_first = Some 1, ll_size = 2, ll_mutex = 0\<rparr>,
       sched_cpus := (\<lambda>_. None)(0 := Some 2), sched_running := True, sched_pid := 2\<rparr>)"

lemma two_tasks_ok:
  "sched_ok two_tasks [1, 2]" "runs two_tasks 0 2" "sched_running two_tasks" "\<forall>a \<in> set [1, 2]. \<not> t_dead (task_at two_tasks a)"
  by (auto simp: sched_ok_def ll_rep_def ring_def two_tasks_def runs_def task_at_def sched_init_def Let_def)


theorem thread_exit_breaks_add_witness:
  "\<exists>s1 s2. sched_exit_thread two_tasks 0 = Inr s1 \<and> (\<exists>t. sched_tick s1 0 cpu_zero False = Inr (Some t, s2)) \<and>
    sched_add_thread s2 3 0 0 0 0 0 = Inl (Fatal ''Assert failed: first->prev->last'')"
proof -
  have "sched_ok two_tasks ([1] @ [2])" using two_tasks_ok(1) by simp
  from thread_exit_breaks_add [OF this _ two_tasks_ok(2,3), of cpu_zero 3 0 0 0 0 0] show ?thesis by blast
qed

end
