(* ===== verification/Amd64.thy ===== *)
theory Amd64
  imports Pmm PageWalk Scheduler
begin

text \<open>
  The processor tables and interrupts of \<^verbatim>\<open>arch/amd64\<close>: the global descriptor table (\<^verbatim>\<open>gdt.cc\<close>), the task state segment
  (\<^verbatim>\<open>tss.cc\<close>), the interrupt descriptor table, the vectors and the common handler (\<^verbatim>\<open>idt.cc\<close>), and the writes to the timer
  and the serial port (\<^verbatim>\<open>pit.cc\<close>, \<^verbatim>\<open>amd64.cc\<close>). Packed structures are records of words; \<open>gdt_raw\<close> and \<open>idt_base\<close> read them as
  the processor does. Port output is the list of the values written.
\<close>

unbundle bit_operations_syntax

section \<open>Global descriptor table\<close>

record gdt_entry =
  g_limit1 :: "16 word"
  g_base1 :: "16 word"
  g_base2 :: "8 word"
  g_access :: "8 word"
  g_limit2 :: "4 word"
  g_avl :: bool
  g_long :: bool
  g_size :: bool
  g_pages :: bool
  g_base3 :: "8 word"

type_synonym gdt = "nat \<Rightarrow> gdt_entry"

text \<open>The bits of the access byte.\<close>

definition put_bit :: "nat \<Rightarrow> bool \<Rightarrow> 8 word \<Rightarrow> 8 word" where
  "put_bit i v w = (if v then w OR push_bit i 1 else w AND NOT (push_bit i 1))"

definition put_dpl :: "bool \<Rightarrow> 8 word \<Rightarrow> 8 word" where
  "put_dpl user w = put_bit 6 user (put_bit 5 user w)"

definition gdt_zero :: gdt_entry where
  "gdt_zero = \<lparr>g_limit1 = 0, g_base1 = 0, g_base2 = 0, g_access = 0, g_limit2 = 0, g_avl = False, g_long = False,
     g_size = False, g_pages = False, g_base3 = 0\<rparr>"

text \<open>The bytes behind the eight entries are cleared too. The result is the address and the table.\<close>

definition gdt_fill :: gdt where
  "gdt_fill =
     (let g = (\<lambda>_. gdt_zero);
          a = put_bit 1 True (put_bit 7 True (put_bit 3 True (put_dpl False (put_bit 4 True (put_bit 2 False (g_access (g 1)))))));
          g = g(1 := (g 1)\<lparr>g_access := a, g_pages := True, g_long := True, g_size := False, g_avl := False\<rparr>);
          g = g(2 := (g 1)\<lparr>g_access := put_bit 3 False (g_access (g 1))\<rparr>);
          g = g(3 := (g 2)\<lparr>g_access := put_dpl True (g_access (g 2))\<rparr>)
      in g(4 := (g 1)\<lparr>g_access := put_dpl True (g_access (g 1))\<rparr>))"

definition arch_gdt_init :: "wm \<Rightarrow> ((nat \<times> gdt) \<times> wm) res" where
  "arch_gdt_init w = rbind (wm_alloc w 64 16) (\<lambda>(p, w). Inr ((p, gdt_fill), w))"

definition arch_gdt_add_tss :: "gdt \<Rightarrow> 64 word \<Rightarrow> gdt" where
  "arch_gdt_add_tss g t =
     (let g = g(5 := (g 5)\<lparr>g_base1 := ucast t, g_base2 := ucast (drop_bit 16 t), g_base3 := ucast (drop_bit 24 t)\<rparr>);
          g = g(6 := (g 6)\<lparr>g_limit1 := ucast (drop_bit 32 t), g_base1 := ucast (drop_bit 48 t)\<rparr>);
          limit = 104 - 1 :: 32 word
      in g(5 := (g 5)\<lparr>g_access := put_dpl False 0x89, g_avl := False, g_long := True, g_size := False, g_pages := False,
             g_limit1 := ucast (limit AND 0xf), g_limit2 := ucast (drop_bit 4 limit)\<rparr>))"

text \<open>A descriptor as the processor reads it, and the base and limit in the two descriptors of a task state segment.\<close>

definition gdt_raw :: "gdt_entry \<Rightarrow> 64 word" where
  "gdt_raw e =
     ucast (g_limit1 e) OR push_bit 16 (ucast (g_base1 e)) OR push_bit 32 (ucast (g_base2 e)) OR
     push_bit 40 (ucast (g_access e)) OR push_bit 48 (ucast (g_limit2 e)) OR push_bit 52 (of_bool (g_avl e)) OR
     push_bit 53 (of_bool (g_long e)) OR push_bit 54 (of_bool (g_size e)) OR push_bit 55 (of_bool (g_pages e)) OR
     push_bit 56 (ucast (g_base3 e))"

definition tss_base :: "gdt_entry \<Rightarrow> gdt_entry \<Rightarrow> 64 word" where
  "tss_base lo hi =
     ucast (g_base1 lo) OR push_bit 16 (ucast (g_base2 lo)) OR push_bit 24 (ucast (g_base3 lo)) OR
     push_bit 32 (ucast (g_limit1 hi)) OR push_bit 48 (ucast (g_base1 hi))"

definition tss_limit :: "gdt_entry \<Rightarrow> 32 word" where
  "tss_limit lo = ucast (g_limit1 lo) OR push_bit 16 (ucast (g_limit2 lo))"

section \<open>Task state segment\<close>

record tss =
  rsp0 :: nat
  rsp1 :: nat
  rsp2 :: nat
  ist1 :: nat
  ist2 :: nat
  ist3 :: nat
  ist4 :: nat
  ist5 :: nat
  ist6 :: nat
  ist7 :: nat
  io_bm_offset :: nat

definition tss_zero :: tss where
  "tss_zero = \<lparr>rsp0 = 0, rsp1 = 0, rsp2 = 0, ist1 = 0, ist2 = 0, ist3 = 0, ist4 = 0, ist5 = 0, ist6 = 0, ist7 = 0, io_bm_offset = 0\<rparr>"

abbreviation (input) INTR_STACK_SIZE :: nat where
  "INTR_STACK_SIZE \<equiv> 0x200000"

definition arch_tss_init :: "wm \<Rightarrow> pmm \<Rightarrow> gdt \<Rightarrow> (tss \<times> gdt \<times> wm \<times> pmm) res" where
  "arch_tss_init w pm g =
     rbind (wm_alloc w 128 16) (\<lambda>(t, w).
     rbind (pmm_alloc pm INTR_STACK_SIZE) (\<lambda>(p, pm).
     let stack = sub64 (sub64 (add64 p INTR_STACK_SIZE) 128) 16 in
     Inr (tss_zero\<lparr>ist1 := stack, io_bm_offset := 104\<rparr>, arch_gdt_add_tss g (of_nat t), w, pm)))"

section \<open>Interrupt descriptor table\<close>

record idt_entry =
  i_base0 :: "16 word"
  i_ss :: "16 word"
  i_ist :: "3 word"
  i_gate :: "4 word"
  i_dpl :: "2 word"
  i_present :: bool
  i_base1 :: "16 word"
  i_base2 :: "32 word"

definition idt_add_entry :: "(nat \<Rightarrow> idt_entry) \<Rightarrow> nat \<Rightarrow> 64 word \<Rightarrow> 4 word \<Rightarrow> nat \<Rightarrow> idt_entry" where
  "idt_add_entry idt v isr ty =
     idt(v := \<lparr>i_base0 = ucast (isr AND 0x000000000000ffff), i_ss = 0x08, i_ist = 1, i_gate = ty, i_dpl = 0, i_present = True,
        i_base1 = ucast (drop_bit 16 (isr AND 0x00000000ffff0000)),
        i_base2 = ucast (drop_bit 32 (isr AND 0xffffffff00000000))\<rparr>)"

definition idt_base :: "idt_entry \<Rightarrow> 64 word" where
  "idt_base e = ucast (i_base0 e) OR push_bit 16 (ucast (i_base1 e)) OR push_bit 32 (ucast (i_base2 e))"

text \<open>The handlers of the vectors: the common one or a driver's.\<close>

datatype 'h handler = OnInterrupt | Driver 'h

text \<open>\<open>exc\<close> gives the addresses of the entry stubs.\<close>

definition arch_idt_init :: "(nat \<Rightarrow> 64 word) \<Rightarrow> (nat \<Rightarrow> idt_entry) \<Rightarrow> wm \<Rightarrow> ((nat \<Rightarrow> idt_entry) \<times> 'h handler list \<times> wm) res" where
  "arch_idt_init exc idt w =
     rbind (wm_alloc w 0x1000 16) (\<lambda>(p, w).
     Inr (fold (\<lambda>n idt. idt_add_entry idt n (exc n) 0xe) [0..<256] idt, replicate 256 OnInterrupt, w))"

fun alloc_vector_loop :: "'h handler list \<Rightarrow> 'h \<Rightarrow> nat \<Rightarrow> nat \<Rightarrow> (nat \<times> 'h handler list) res" where
  "alloc_vector_loop hs h i 0 = Inl (Fatal ''No free interrupt vector left'')"
| "alloc_vector_loop hs h i (Suc n) =
     (case hs ! i of
        OnInterrupt \<Rightarrow> Inr (i, hs[i := Driver h])
      | Driver _ \<Rightarrow> alloc_vector_loop hs h (i + 1) n)"

definition idt_allocate_vector :: "'h handler list \<Rightarrow> 'h \<Rightarrow> (nat \<times> 'h handler list) res" where
  "idt_allocate_vector hs h = alloc_vector_loop hs h 0x21 (256 - 0x21)"

definition idt_deallocate_vector :: "'h handler list \<Rightarrow> nat \<Rightarrow> 'h handler list res" where
  "idt_deallocate_vector hs v =
     (case hs ! v of
        OnInterrupt \<Rightarrow> Inl (Fatal ''Assert failed: handler[vector] != onInterrupt'')
      | Driver _ \<Rightarrow> Inr (hs[v := OnInterrupt]))"

section \<open>The common handler\<close>

text \<open>A page fault in the heap region maps a fresh page there.\<close>

definition demand_map :: "vm \<Rightarrow> pmm \<Rightarrow> nat \<Rightarrow> (vm \<times> pmm) res" where
  "demand_map st pm cr2 =
     rbind (pmm_alloc pm 0x1000) (\<lambda>(addr, pm).
     if addr = NPOS then Inl (Fatal ''Assert failed: addr != -1ull'')
     else rbind (map_page st (of_nat cr2) (of_nat (PHYSICAL addr)) (mflag MF_KDATA) (cache_code WB)) (\<lambda>st. Inr (st, pm)))"

text \<open>What the handler does, in order: its own work and the calls of other components.\<close>

datatype 'r irq_action =
    NestedException | DemandMap nat | ReportAndHalt | CheckHeap | Routine 'r | KbdRepeat | SchedTick bool bool | Eoi | SmiReport

record 'r irq =
  tmr_counter :: nat
  servicing :: nat
  timer_tasks :: "(nat \<times> 'r) list"
  kbd_repeat :: nat
  kbd_lastpressed_time :: nat
  kbd_delay :: nat

abbreviation (input) VMM_REDZONE_CHECK_PERIOD :: nat where "VMM_REDZONE_CHECK_PERIOD \<equiv> 30"
abbreviation (input) SCHED_QUANTUM :: nat where "SCHED_QUANTUM \<equiv> 100"

definition timer_actions :: "'r irq \<Rightarrow> 'r irq_action list" where
  "timer_actions q =
     (let t = tmr_counter q in
      (if t mod VMM_REDZONE_CHECK_PERIOD = 0 then [CheckHeap] else []) @
      map (\<lambda>(p, r). Routine r) (filter (\<lambda>(p, r). t mod p = 0) (timer_tasks q)) @
      (if t mod kbd_repeat q = 0 \<and> t > add64 (kbd_lastpressed_time q) (kbd_delay q) then [KbdRepeat] else []) @
      (if t mod SCHED_QUANTUM = 0 then [SchedTick False True] else []) @ [Eoi])"

text \<open>The switch over the vector. A handled interrupt resets \<^verbatim>\<open>servicing\<close> at the end; the actions before a halt are the
  last ones. A tick that switches to another task does not come back to the rest of the list.\<close>

definition onInterrupt :: "'r irq \<Rightarrow> nat \<Rightarrow> nat \<Rightarrow> 'r irq_action list \<times> 'r irq" where
  "onInterrupt q exc cr2 =
     (if (servicing q < 32 \<and> servicing q \<noteq> 0xe \<and> servicing q \<noteq> 0) \<and> (exc < 32 \<and> exc \<noteq> 0xe) then ([NestedException], q)
      else
        let q = q\<lparr>servicing := exc\<rparr> in
        if exc = 0xe \<and> cr2 div 2 ^ 40 = 0xffff90 then ([DemandMap cr2], q\<lparr>servicing := 0\<rparr>)
        else if exc = 0x40 then
          let q = q\<lparr>tmr_counter := add64 (tmr_counter q) 1\<rparr> in (timer_actions q, q\<lparr>servicing := 0\<rparr>)
        else if exc = 0x41 then ([SchedTick True False], q\<lparr>servicing := 0\<rparr>)
        else if exc = 0x42 then ([SmiReport, Eoi], q\<lparr>servicing := 0\<rparr>)
        else if exc = 0x60 then ([Eoi], q\<lparr>servicing := 0\<rparr>)
        else ([ReportAndHalt], q))"

section \<open>Ports\<close>

record pit_cmd =
  pit_bcd :: "1 word"
  pit_operation :: "3 word"
  pit_access :: "2 word"
  pit_ch :: "2 word"

definition pit_raw :: "pit_cmd \<Rightarrow> 8 word" where
  "pit_raw c = ucast (pit_bcd c) OR push_bit 1 (ucast (pit_operation c)) OR push_bit 4 (ucast (pit_access c)) OR push_bit 6 (ucast (pit_ch c))"

abbreviation (input) PIT_IO_CH0 :: nat where "PIT_IO_CH0 \<equiv> 0x40"
abbreviation (input) PIT_IO_CMD :: nat where "PIT_IO_CMD \<equiv> 0x43"
abbreviation (input) PIT_RATE_GEN :: "3 word" where "PIT_RATE_GEN \<equiv> 2"
abbreviation (input) PIT_LOHIBYTE :: "2 word" where "PIT_LOHIBYTE \<equiv> 3"

definition arch_pit_init :: "(nat \<times> 8 word) list" where
  "arch_pit_init =
     (let cmd = \<lparr>pit_bcd = 0, pit_operation = PIT_RATE_GEN, pit_access = PIT_LOHIBYTE, pit_ch = 0\<rparr>; count = 1250 :: 16 word in
      [(PIT_IO_CMD, pit_raw cmd), (PIT_IO_CH0, ucast (count AND 0x00ff)), (PIT_IO_CH0, ucast (drop_bit 8 (count AND 0xff00)))])"

definition serial_port :: nat where "serial_port = 0x3f8"

definition sinit :: "(nat \<times> 8 word) list" where
  "sinit =
     [(serial_port + 1, 0x00), (serial_port + 3, 0x80), (serial_port + 0, 0x03), (serial_port + 1, 0x00), (serial_port + 3, 0x03),
      (serial_port + 2, 0xC7), (serial_port + 4, 0x1E), (serial_port + 0, 0xAE), (serial_port + 4, 0x0F)]"

fun sputc :: "char \<Rightarrow> (nat \<times> 8 word) list" where
  "sputc c = (serial_port, of_char c) # (if c = CHR 0x0A then [(serial_port, of_char (CHR 0x0D))] else [])"

definition arch_ms_passed :: "nat \<Rightarrow> nat \<Rightarrow> nat" where
  "arch_ms_passed tmr start = sub64 tmr start"

definition arch_elapsed :: "nat \<Rightarrow> nat \<Rightarrow> nat \<Rightarrow> bool" where
  "arch_elapsed tmr start ms \<longleftrightarrow> tmr > add64 start ms"

section \<open>Behaviour\<close>

lemma isr_masks:
  "(0xffff :: 64 word) = mask 16" "(0xffff0000 :: 64 word) = push_bit 16 (mask 16)"
  "(0xffffffff00000000 :: 64 word) = push_bit 32 (mask 32)"
  by (simp_all add: mask_eq_exp_minus_1 push_bit_eq_mult)

lemma idt_fill_nth:
  assumes "v \<in> set ns" and "distinct ns"
  shows "idt_base (fold (\<lambda>n idt. idt_add_entry idt n (exc n) ty) ns idt v) = exc v \<and>
    i_present (fold (\<lambda>n idt. idt_add_entry idt n (exc n) ty) ns idt v)"
  using assms
proof (induction ns rule: rev_induct)
  case Nil
  then show ?case by simp
next
  case (snoc n ns)
  have "idt_base (idt_add_entry idt' n (exc n) ty n) = exc n" for idt'
    unfolding idt_add_entry_def idt_base_def isr_masks
    by (rule bit_word_eqI, rename_tac k, case_tac "k < 32") (auto simp: bit_simps not_less)
  then show ?case using snoc by (auto simp: idt_add_entry_def)
qed

lemma tss_base_eq: "tss_base (arch_gdt_add_tss g t 5) (arch_gdt_add_tss g t 6) = t"
  unfolding arch_gdt_add_tss_def tss_base_def Let_def
  by (rule bit_word_eqI, rename_tac k, case_tac "k < 24"; case_tac "k < 32"; case_tac "k < 48") (auto simp: bit_simps not_less)

lemma tss_limit_eq: "tss_limit (arch_gdt_add_tss g t 5) = 0x60007"
  by (simp add: arch_gdt_add_tss_def tss_limit_def Let_def)

lemma gdt_segments:
  "map (\<lambda>i. gdt_raw (gdt_fill i)) [0..<5] =
    [0, 0x00a09a0000000000, 0x00a0920000000000, 0x00a0f20000000000, 0x00a0fa0000000000]"
  by (simp add: gdt_fill_def gdt_zero_def gdt_raw_def put_bit_def put_dpl_def Let_def upt_rec)

text \<open>The search for a free vector returns the lowest one from 0x21 on.\<close>

lemma alloc_vector_loop_ok:
  assumes "i + n = length hs"
  shows "case alloc_vector_loop hs h i n of
      Inr (v, hs') \<Rightarrow> i \<le> v \<and> v < length hs \<and> hs ! v = OnInterrupt \<and> hs' = hs[v := Driver h] \<and> (\<forall>j. i \<le> j \<and> j < v \<longrightarrow> hs ! j \<noteq> OnInterrupt)
    | Inl e \<Rightarrow> \<forall>j. i \<le> j \<and> j < length hs \<longrightarrow> hs ! j \<noteq> OnInterrupt"
  using assms
proof (induction n arbitrary: i)
  case 0
  then show ?case by auto
next
  case (Suc n)
  show ?case
  proof (cases "hs ! i")
    case OnInterrupt
    then show ?thesis using Suc.prems by auto
  next
    case (Driver d)
    with Suc.IH [of "i + 1"] Suc.prems show ?thesis
      by (auto split: sum.splits) (metis Suc_leI handler.distinct(1) le_neq_implies_less)+
  qed
qed

section \<open>Properties\<close>

text \<open>C30: The descriptors say what they should: after the initialisation every vector leads to its entry stub, the segment
  descriptors are those of 64-bit code and data, and the descriptor of the task state segment holds its address. Its
  limit, however, is 0x60007 instead of 103.\<close>

theorem descriptors_spec:
  "(arch_idt_init exc idt w = Inr (idt', hs, w') \<longrightarrow>
      (\<forall>v < 256. idt_base (idt' v) = exc v \<and> i_present (idt' v) \<and> hs ! v = OnInterrupt)) \<and>
   map (\<lambda>i. gdt_raw (gdt_fill i)) [0..<5] =
     [0, 0x00a09a0000000000, 0x00a0920000000000, 0x00a0f20000000000, 0x00a0fa0000000000] \<and>
   tss_base (arch_gdt_add_tss g t 5) (arch_gdt_add_tss g t 6) = t \<and> tss_limit (arch_gdt_add_tss g t 5) = 0x60007"
  using gdt_segments tss_base_eq tss_limit_eq idt_fill_nth [of _ "[0..<256]" exc "0xe" idt]
  by (auto simp: arch_idt_init_def elim!: rbindE)

theorem descriptors_spec_witness:
  "\<exists>idt' hs w'. arch_idt_init (\<lambda>v. of_nat v) (\<lambda>_. undefined) \<lparr>wm_cursor = 0x1000, wm_free = 0x10000, wm_mutex = 0\<rparr> = Inr (idt', hs :: nat handler list, w') \<and>
    idt_base (idt' 3) = 3"
proof -
  let ?w = "\<lparr>wm_cursor = 0x1000, wm_free = 0x10000, wm_mutex = 0\<rparr>"
  have "wm_alloc ?w 0x1000 16 = Inr (0x1000, \<lparr>wm_cursor = 0x2000, wm_free = 0xf000, wm_mutex = 0\<rparr>)"
    by (simp add: wm_alloc_def align64_def add64_def sub64_def mul64_def Let_def)
  then obtain idt' hs w' where "arch_idt_init (\<lambda>v. of_nat v) (\<lambda>_. undefined) ?w = Inr (idt', hs :: nat handler list, w')"
    by (simp add: arch_idt_init_def)
  with descriptors_spec [of "\<lambda>v. of_nat v" "\<lambda>_. undefined" ?w idt' hs w'] show ?thesis by auto
qed


definition small_pmm :: pmm where
  "small_pmm = \<lparr>pmm_freemem = 0x40000, pmm_usedmem = 0, pmm_reservedmem = 0, pmm_bm = \<lparr>buffer = [1], sz = 64\<rparr>,
     pmm_buffer = 0, pmm_mutex = 0\<rparr>"

lemma small_pmm_alloc: "\<exists>pm'. pmm_alloc small_pmm 0x1000 = Inr (VIRTUAL 0x1000, pm')"
  by (simp add: pmm_alloc_def small_pmm_def bitmap_run_simps align64_def add64_def sub64_def mul64_def gibs2bytes_def
      PMM_PAGESIZE_def NPOS_def Let_def)


text \<open>The allocation of a vector returns the lowest one from 0x21 on whose handler is the common one, and gives it to the
  driver. Once the vectors from 0x21 to 0x3f are taken this is the vector of the timer.\<close>

theorem vector_allocation_spec:
  assumes "length hs = 256" and "idt_allocate_vector hs h = Inr (v, hs')"
  shows "0x21 \<le> v \<and> v < 256 \<and> hs ! v = OnInterrupt \<and> hs' = hs[v := Driver h] \<and>
    (\<forall>j. 0x21 \<le> j \<and> j < v \<longrightarrow> hs ! j \<noteq> OnInterrupt) \<and>
    ((\<forall>j. 0x21 \<le> j \<and> j < 0x40 \<longrightarrow> hs ! j \<noteq> OnInterrupt) \<and> hs ! 0x40 = OnInterrupt \<longrightarrow> v = 0x40)"
proof -
  have v: "0x21 \<le> v \<and> v < 256 \<and> hs ! v = OnInterrupt \<and> hs' = hs[v := Driver h] \<and> (\<forall>j. 0x21 \<le> j \<and> j < v \<longrightarrow> hs ! j \<noteq> OnInterrupt)"
    using alloc_vector_loop_ok [of "0x21" "256 - 0x21" hs h] assms by (simp add: idt_allocate_vector_def)
  moreover have "v = 0x40" if "\<forall>j. 0x21 \<le> j \<and> j < 0x40 \<longrightarrow> hs ! j \<noteq> OnInterrupt" "hs ! 0x40 = OnInterrupt"
    using v that by (cases v "0x40 :: nat" rule: linorder_cases) auto
  ultimately show ?thesis by blast
qed

theorem vector_allocation_spec_witness:
  "\<exists>v hs'. idt_allocate_vector (replicate 0x40 (Driver ()) @ replicate 192 OnInterrupt) () = Inr (v, hs') \<and> v = 0x40"
proof -
  let ?hs = "replicate 0x40 (Driver ()) @ replicate 192 OnInterrupt"
  have free: "?hs ! 0x40 = OnInterrupt" and len: "length ?hs = 256" by (simp_all add: nth_append)
  have used: "\<forall>j. 0x21 \<le> j \<and> j < 0x40 \<longrightarrow> ?hs ! j \<noteq> OnInterrupt" by (simp add: nth_append)
  obtain v hs' where r: "idt_allocate_vector ?hs () = Inr (v, hs')"
    using alloc_vector_loop_ok [of "0x21" "256 - 0x21" ?hs "()"] free
    by (cases "idt_allocate_vector ?hs ()") (auto simp: idt_allocate_vector_def split: sum.splits)
  then show ?thesis using vector_allocation_spec [OF len r] used free by blast
qed

end
