(* ===== verification/Vector.thy ===== *)
theory Vector
  imports Prelude
begin

text \<open>
  The growing array \<^verbatim>\<open>Vector\<close> of \<^verbatim>\<open>util/storage.hh\<close>. The buffer is a block of cells, one per element that
  fits into it, each of them raw or holding an object; a null \<^verbatim>\<open>data\<close> pointer is \<open>None\<close>. Whether the heap can
  resize a block in place is decided by the heap, so the operations that may move the buffer take the
  answer as an argument. Reading a raw cell or a cell outside the block is undefined.
\<close>

record 'a vec =
  vdata :: "'a option list option"
  vsize :: nat
  vcap :: nat

definition VEC_DEFAULT_SIZE :: nat where
  "VEC_DEFAULT_SIZE = 0"

definition growfun :: "nat \<Rightarrow> nat" where
  "growfun cap = (if cap = 0 then 8 else mul64 cap 2)"

text \<open>Iterators are positions in the array. Subtracting a number from one adds it.\<close>

datatype iter_op = IterInc | IterDec | IterPlus nat | IterMinus nat | IterPlusAssign nat | IterMinusAssign nat

fun iter_apply :: "iter_op \<Rightarrow> int \<Rightarrow> int" where
  "iter_apply IterInc i = i + 1"
| "iter_apply IterDec i = i - 1"
| "iter_apply (IterPlus a) i = i + int a"
| "iter_apply (IterMinus a) i = i + int a"
| "iter_apply (IterPlusAssign a) i = i + int a"
| "iter_apply (IterMinusAssign a) i = i - int a"

definition iter_diff :: "int \<Rightarrow> int \<Rightarrow> int" where
  "iter_diff i j = i - j"

section \<open>Cells\<close>

definition cell_get :: "'a option list option \<Rightarrow> nat \<Rightarrow> 'a res" where
  "cell_get d i =
     (case d of
        None \<Rightarrow> Inl Undefined
      | Some cs \<Rightarrow> if i < length cs then (case cs ! i of None \<Rightarrow> Inl Undefined | Some x \<Rightarrow> Inr x) else Inl Undefined)"

definition cell_put :: "'a option list option \<Rightarrow> nat \<Rightarrow> 'a option \<Rightarrow> ('a option list option) res" where
  "cell_put d i x =
     (case d of
        None \<Rightarrow> Inl Undefined
      | Some cs \<Rightarrow> if i < length cs then Inr (Some (cs[i := x])) else Inl Undefined)"

section \<open>Operations\<close>

definition vec_cap :: "nat \<Rightarrow> 'a vec" where
  "vec_cap cap = \<lparr>vdata = (if cap \<noteq> 0 then Some (replicate cap None) else None), vsize = 0, vcap = cap\<rparr>"

definition vec_new :: "'a vec" where
  "vec_new = vec_cap VEC_DEFAULT_SIZE"

text \<open>A block that is resized in place keeps the cells both sizes have; otherwise only the objects move.
  Resizing a null block succeeds.\<close>

definition reserve :: "bool \<Rightarrow> 'a vec \<Rightarrow> nat \<Rightarrow> 'a vec" where
  "reserve inplace v cap =
     (let cap = (if cap < vsize v then vsize v else cap) in
      case vdata v of
        None \<Rightarrow> if cap \<noteq> 0 then v\<lparr>vdata := Some (replicate cap None), vcap := cap\<rparr> else v\<lparr>vcap := cap\<rparr>
      | Some cs \<Rightarrow>
          let cs' = (if inplace then take cap cs @ replicate (cap - length cs) None
                     else take (vsize v) cs @ replicate (cap - vsize v) None)
          in v\<lparr>vdata := Some cs', vcap := cap\<rparr>)"

definition vec_at :: "'a vec \<Rightarrow> nat \<Rightarrow> 'a res" where
  "vec_at v i =
     (if i > vsize v then Inl (Fatal ''vector access out of bounds!'')
      else if vdata v = None then Inl (Fatal ''vector data null (uninitialized)!'')
      else cell_get (vdata v) i)"

text \<open>Assignment through the reference that the operator returns.\<close>

definition vec_store :: "'a vec \<Rightarrow> nat \<Rightarrow> 'a \<Rightarrow> 'a vec res" where
  "vec_store v i x =
     (if i > vsize v then Inl (Fatal ''vector access out of bounds!'')
      else if vdata v = None then Inl (Fatal ''vector data null (uninitialized)!'')
      else rbind (cell_put (vdata v) i (Some x)) (\<lambda>d. Inr (v\<lparr>vdata := d\<rparr>)))"

definition vec_last :: "'a vec \<Rightarrow> 'a res" where
  "vec_last v = cell_get (vdata v) (sub64 (vsize v) 1)"

definition vec_place :: "'a vec \<Rightarrow> 'a \<Rightarrow> 'a vec res" where
  "vec_place v x = rbind (cell_put (vdata v) (vsize v) (Some x)) (\<lambda>d. Inr (v\<lparr>vdata := d, vsize := vsize v + 1\<rparr>))"

definition push_back :: "bool \<Rightarrow> 'a vec \<Rightarrow> 'a \<Rightarrow> 'a vec res" where
  "push_back inplace v x =
     (let v = (if vsize v \<ge> vcap v then reserve inplace v (growfun (vcap v)) else v) in vec_place v x)"

definition push_back_move :: "bool \<Rightarrow> 'a vec \<Rightarrow> 'a \<Rightarrow> 'a vec res" where
  "push_back_move inplace v x =
     (let v = (if vsize v \<ge> vcap v then reserve inplace v (growfun (vcap v)) else v) in vec_place v x)"

definition emplace_back :: "bool \<Rightarrow> 'a vec \<Rightarrow> 'a \<Rightarrow> 'a vec res" where
  "emplace_back inplace v x =
     (let v = (if vsize v \<ge> vcap v then reserve inplace v (growfun (vcap v)) else v) in
      if (vsize v \<noteq> 0 \<or> vcap v \<noteq> 0) \<and> vdata v = None
      then Inl (Fatal ''Invalid vector state'') else vec_place v x)"

definition vec_append :: "bool \<Rightarrow> 'a vec \<Rightarrow> 'a \<Rightarrow> 'a vec res" where
  "vec_append inplace v x = vec_place (reserve inplace v (vsize v + 1)) x"

primrec emplace_all :: "bool \<Rightarrow> 'a vec \<Rightarrow> 'a list \<Rightarrow> 'a vec res" where
  "emplace_all inplace v [] = Inr v"
| "emplace_all inplace v (x # xs) = rbind (emplace_back inplace v x) (\<lambda>v. emplace_all inplace v xs)"

definition vec_list_init :: "bool \<Rightarrow> 'a list \<Rightarrow> 'a vec res" where
  "vec_list_init inplace items =
     (let cap = align64 (length items) 8; v = vec_cap cap in
      if cap \<noteq> 0 then emplace_all inplace v items else Inr v)"

text \<open>Constructing the elements of another vector one by one in the cells of this one.\<close>

fun construct_from :: "'a option list option \<Rightarrow> 'a vec \<Rightarrow> nat \<Rightarrow> nat \<Rightarrow> ('a option list option) res" where
  "construct_from d src i 0 = Inr d"
| "construct_from d src i (Suc n) =
     rbind (vec_at src i) (\<lambda>x. rbind (cell_put d i (Some x)) (\<lambda>d. construct_from d src (i + 1) n))"

definition vec_copy :: "bool \<Rightarrow> 'a vec \<Rightarrow> 'a vec res" where
  "vec_copy inplace src =
     (let v = (reserve inplace \<lparr>vdata = None, vsize = 0, vcap = VEC_DEFAULT_SIZE\<rparr> (vcap src))\<lparr>vsize := vsize src\<rparr> in
      rbind (construct_from (vdata v) src 0 (vsize src)) (\<lambda>d. Inr (v\<lparr>vdata := d\<rparr>)))"

definition vec_move :: "'a vec \<Rightarrow> 'a vec \<times> 'a vec" where
  "vec_move src = (src, \<lparr>vdata = None, vsize = 0, vcap = 0\<rparr>)"

definition vec_assign :: "bool \<Rightarrow> 'a vec \<Rightarrow> 'a vec \<Rightarrow> 'a vec res" where
  "vec_assign inplace v src =
     (let v = (reserve inplace v (vcap src))\<lparr>vsize := vsize src\<rparr> in
      rbind (construct_from (vdata v) src 0 (vsize src)) (\<lambda>d. Inr (v\<lparr>vdata := d\<rparr>)))"

text \<open>Move assignment drops the old buffer without freeing it.\<close>

definition vec_move_assign :: "'a vec \<Rightarrow> 'a vec \<Rightarrow> 'a vec \<times> 'a vec" where
  "vec_move_assign v src = (src, \<lparr>vdata = None, vsize = 0, vcap = 0\<rparr>)"

definition vec_destroy :: "'a vec \<Rightarrow> 'a vec" where
  "vec_destroy v = v\<lparr>vdata := None\<rparr>"

fun vec_eq_loop :: "'a vec \<Rightarrow> 'a vec \<Rightarrow> nat \<Rightarrow> nat \<Rightarrow> bool res" where
  "vec_eq_loop v w i 0 = Inr True"
| "vec_eq_loop v w i (Suc n) =
     rbind (cell_get (vdata v) i) (\<lambda>x. rbind (cell_get (vdata w) i) (\<lambda>y.
     if x \<noteq> y then Inr False else vec_eq_loop v w (i + 1) n))"

definition vec_eq :: "'a vec \<Rightarrow> 'a vec \<Rightarrow> bool res" where
  "vec_eq v w = (if vsize w \<noteq> vsize v then Inr False else vec_eq_loop v w 0 (vsize v))"

text \<open>The two loops of \<^verbatim>\<open>resize\<close>: destroying from the end and constructing default objects.\<close>

primrec destroy_tail :: "nat \<Rightarrow> 'a vec \<Rightarrow> 'a vec res" where
  "destroy_tail 0 v = Inr v"
| "destroy_tail (Suc n) v =
     rbind (cell_put (vdata v) (vsize v - 1) None) (\<lambda>d. destroy_tail n (v\<lparr>vdata := d, vsize := vsize v - 1\<rparr>))"

primrec construct_tail :: "'a \<Rightarrow> nat \<Rightarrow> 'a vec \<Rightarrow> 'a vec res" where
  "construct_tail dflt 0 v = Inr v"
| "construct_tail dflt (Suc n) v = rbind (vec_place v dflt) (construct_tail dflt n)"

definition resize :: "bool \<Rightarrow> 'a \<Rightarrow> 'a vec \<Rightarrow> nat \<Rightarrow> 'a vec res" where
  "resize inplace dflt v n =
     (let v = reserve inplace v n in
      if n < vsize v then destroy_tail (vsize v - n) v
      else if n > vsize v then construct_tail dflt (n - vsize v) v
      else Inr v)"

definition pop :: "'a vec \<Rightarrow> ('a \<times> 'a vec) res" where
  "pop v =
     (if vsize v = 0 then Inl (Fatal ''Tried to pop an empty stack!'')
      else let v = v\<lparr>vsize := vsize v - 1\<rparr> in rbind (cell_get (vdata v) (vsize v)) (\<lambda>x. Inr (x, v)))"

text \<open>The element that is moved is read at the old size, one behind the last.\<close>

definition swap_remove :: "'a vec \<Rightarrow> nat \<Rightarrow> 'a vec res" where
  "swap_remove v i =
     (if i \<ge> vsize v then Inl (Fatal ''swap_remove: idx out of bounds!'')
      else rbind (cell_get (vdata v) (vsize v)) (\<lambda>x.
           rbind (cell_put (vdata v) i (Some x)) (\<lambda>d. Inr (v\<lparr>vdata := d, vsize := vsize v - 1\<rparr>))))"

section \<open>Vectors as lists\<close>

definition vec_ok :: "'a vec \<Rightarrow> bool" where
  "vec_ok v =
     (case vdata v of
        None \<Rightarrow> vsize v = 0 \<and> vcap v = 0
      | Some cs \<Rightarrow> vsize v \<le> length cs \<and> vcap v = length cs \<and> (\<forall>i < vsize v. cs ! i \<noteq> None))"

definition vec_list :: "'a vec \<Rightarrow> 'a list" where
  "vec_list v = (case vdata v of None \<Rightarrow> [] | Some cs \<Rightarrow> map the (take (vsize v) cs))"

lemma vec_cases:
  assumes "vec_ok v"
  obtains "vdata v = None" "vsize v = 0" "vcap v = 0"
    | xs ys where "vdata v = Some (map Some xs @ ys)" "vsize v = length xs" "vcap v = length xs + length ys"
proof (cases "vdata v")
  case None
  then show ?thesis using assms that(1) by (simp add: vec_ok_def)
next
  case (Some cs)
  have ok: "vsize v \<le> length cs" "vcap v = length cs" "\<forall>i < vsize v. cs ! i \<noteq> None"
    using assms Some by (simp_all add: vec_ok_def)
  let ?xs = "map the (take (vsize v) cs)"
  have "take (vsize v) cs = map Some ?xs"
    using ok by (intro nth_equalityI) auto
  then have "cs = map Some ?xs @ drop (vsize v) cs"
    by (metis append_take_drop_id)
  then show ?thesis
    using that(2) [of ?xs "drop (vsize v) cs"] Some ok by simp
qed

lemma vec_repr:
  assumes "vdata v = Some (map Some xs @ ys)" "vsize v = length xs" "vcap v = length xs + length ys"
  shows "vec_ok v" "vec_list v = xs"
  using assms by (simp_all add: vec_ok_def vec_list_def nth_append comp_def)

lemma vec_empty: "vdata v = None \<Longrightarrow> vec_list v = []"
  by (simp add: vec_list_def)

lemma length_vec_list [simp]: "vec_ok v \<Longrightarrow> length (vec_list v) = vsize v"
  by (cases v rule: vec_cases) (simp_all add: vec_repr vec_empty)

lemma vec_cap_ok [simp]: "vec_ok (vec_cap cap)" "vec_list (vec_cap cap) = []"
  by (simp_all add: vec_ok_def vec_list_def vec_cap_def)

text \<open>The buffer may move or be resized in place; the elements stay, and there is room for the capacity.\<close>

lemma reserve_ok:
  assumes "vec_ok v"
  shows "vec_ok (reserve b v cap)" "vec_list (reserve b v cap) = vec_list v" "vsize (reserve b v cap) = vsize v"
    "vcap (reserve b v cap) = max cap (vsize v)"
proof -
  have "vec_ok (reserve b v cap) \<and> vec_list (reserve b v cap) = vec_list v \<and> vsize (reserve b v cap) = vsize v \<and>
      vcap (reserve b v cap) = max cap (vsize v)"
    using assms
  proof (cases rule: vec_cases)
    case 1
    then show ?thesis by (auto simp: reserve_def vec_ok_def vec_list_def)
  next
    case (2 xs ys)
    let ?cap = "max cap (length xs)"
    let ?zs = "if b then take (?cap - length xs) ys @ replicate (?cap - (length xs + length ys)) None else replicate (?cap - length xs) None"
    have "vdata (reserve b v cap) = Some (map Some xs @ ?zs)" "vsize (reserve b v cap) = length xs"
      "vcap (reserve b v cap) = ?cap"
      using 2 by (auto simp: reserve_def Let_def max_def)
    moreover have "length xs + length ?zs = ?cap" by auto
    ultimately show ?thesis using vec_repr [of "reserve b v cap" xs ?zs] vec_repr [OF 2] 2 by simp
  qed
  then show "vec_ok (reserve b v cap)" "vec_list (reserve b v cap) = vec_list v" "vsize (reserve b v cap) = vsize v"
    "vcap (reserve b v cap) = max cap (vsize v)" by blast+
qed

lemma vec_place_ok:
  assumes "vec_ok v" "vsize v < vcap v"
  obtains v' where "vec_place v x = Inr v'" "vec_ok v'" "vec_list v' = vec_list v @ [x]" "vcap v' = vcap v" "vsize v' = vsize v + 1"
  using assms(1)
proof (cases rule: vec_cases)
  case 1
  then show ?thesis using assms(2) by simp
next
  case (2 xs ys)
  with assms(2) obtain y zs where ys: "ys = y # zs" by (cases ys) auto
  let ?v = "v\<lparr>vdata := Some (map Some (xs @ [x]) @ zs), vsize := length xs + 1\<rparr>"
  have "vec_place v x = Inr ?v"
    using 2 ys by (simp add: vec_place_def cell_put_def list_update_append)
  moreover have r: "vdata ?v = Some (map Some (xs @ [x]) @ zs)" "vsize ?v = length (xs @ [x])"
    "vcap ?v = length (xs @ [x]) + length zs"
    using 2 ys by simp_all
  ultimately show ?thesis using that [of ?v] vec_repr [OF 2] vec_repr [OF r] 2 by simp
qed

lemma growfun_grows: "cap < 2 ^ 63 \<Longrightarrow> cap < growfun cap"
  by (simp add: growfun_def mul64_def)

text \<open>The part that the three ways of appending share.\<close>

lemma grow_ok:
  fixes b :: bool
  assumes "vec_ok v" "vcap v < 2 ^ 63"
  defines "w \<equiv> if vsize v \<ge> vcap v then reserve b v (growfun (vcap v)) else v"
  shows "vec_ok w" "vec_list w = vec_list v" "vsize w < vcap w" "vdata w \<noteq> None"
proof -
  have "vsize v \<le> vcap v" using assms(1) by (cases rule: vec_cases) simp_all
  then show "vec_ok w" "vec_list w = vec_list v" "vsize w < vcap w"
    using assms(2) growfun_grows [of "vcap v"] reserve_ok [OF assms(1)] assms(1) by (auto simp: w_def max_def)
  then show "vdata w \<noteq> None" by (auto simp: vec_ok_def split: option.splits)
qed

lemma push_back_ok:
  assumes "vec_ok v" "vcap v < 2 ^ 63"
  obtains v' where "push_back b v x = Inr v'" "vec_ok v'" "vec_list v' = vec_list v @ [x]"
  using grow_ok [OF assms, where b = b] vec_place_ok that unfolding push_back_def Let_def by metis

lemma emplace_back_eq:
  assumes "vec_ok v" "vcap v < 2 ^ 63"
  shows "emplace_back b v x = push_back b v x" "push_back_move b v x = push_back b v x"
  using grow_ok(4) [OF assms, where b = b]
  by (simp_all only: emplace_back_def push_back_def push_back_move_def Let_def simp_thms if_False)

lemma vec_append_ok:
  assumes "vec_ok v"
  obtains v' where "vec_append b v x = Inr v'" "vec_ok v'" "vec_list v' = vec_list v @ [x]" "vcap v' = vsize v + 1"
proof -
  have "vsize (reserve b v (vsize v + 1)) < vcap (reserve b v (vsize v + 1))"
    using reserve_ok [OF assms] by simp
  from vec_place_ok [OF reserve_ok(1) [OF assms] this, of x] show ?thesis
    using that reserve_ok [OF assms] by (auto simp: vec_append_def)
qed

lemma emplace_all_ok:
  assumes "vec_ok v" "vsize v + length xs \<le> vcap v" "vcap v < 2 ^ 63"
  obtains v' where "emplace_all b v xs = Inr v'" "vec_ok v'" "vec_list v' = vec_list v @ xs"
  using assms
proof (induction xs arbitrary: v thesis)
  case (Cons x xs)
  have lt: "vsize v < vcap v" using Cons.prems(3) by simp
  obtain w where w: "vec_place v x = Inr w" "vec_ok w" "vec_list w = vec_list v @ [x]" "vcap w = vcap v" "vsize w = vsize v + 1"
    by (rule vec_place_ok [OF Cons.prems(2) lt])
  have e: "emplace_back b v x = Inr w"
    using emplace_back_eq [OF Cons.prems(2,4)] w(1) lt by (simp add: push_back_def)
  obtain v' where "emplace_all b w xs = Inr v'" "vec_ok v'" "vec_list v' = vec_list w @ xs"
    using Cons.IH [of w] w Cons.prems(3,4) by auto
  then show ?case using Cons.prems(1) e w(3) by simp
qed simp

lemma vec_at_ok: "vec_ok v \<Longrightarrow> i < vsize v \<Longrightarrow> vec_at v i = Inr (vec_list v ! i) \<and> cell_get (vdata v) i = Inr (vec_list v ! i)"
  by (cases v rule: vec_cases) (simp_all add: vec_at_def cell_get_def vec_repr nth_append)

lemma vec_store_ok:
  assumes "vec_ok v" "i < vsize v"
  obtains v' where "vec_store v i x = Inr v'" "vec_ok v'" "vec_list v' = (vec_list v)[i := x]"
  using assms(1)
proof (cases rule: vec_cases)
  case (2 xs ys)
  let ?v = "v\<lparr>vdata := Some (map Some (xs[i := x]) @ ys)\<rparr>"
  have "vec_store v i x = Inr ?v"
    using 2 assms(2) by (simp add: vec_store_def cell_put_def list_update_append map_update)
  moreover have r: "vdata ?v = Some (map Some (xs[i := x]) @ ys)" "vsize ?v = length (xs[i := x])" "vcap ?v = length (xs[i := x]) + length ys"
    using 2 by simp_all
  ultimately show ?thesis using that [of ?v] vec_repr [OF 2] vec_repr [OF r] by simp
qed (use assms(2) in simp)

lemma construct_from_ok:
  assumes "vec_ok src" "i + n = vsize src" "length ys = n + length zs" "length xs = i"
  shows "construct_from (Some (map Some xs @ ys)) src i n = Inr (Some (map Some (xs @ drop i (vec_list src)) @ drop n ys))"
  using assms
proof (induction n arbitrary: i xs ys)
  case (Suc n)
  then obtain y ys' where ys: "ys = y # ys'" by (cases ys) auto
  have at: "vec_at src i = Inr (vec_list src ! i)"
    using vec_at_ok [OF Suc.prems(1), of i] Suc.prems(2) by simp
  have "cell_put (Some (map Some xs @ ys)) i (Some (vec_list src ! i)) = Inr (Some (map Some (xs @ [vec_list src ! i]) @ ys'))"
    using Suc.prems(4) ys by (simp add: cell_put_def list_update_append)
  moreover have "drop i (vec_list src) = vec_list src ! i # drop (Suc i) (vec_list src)"
    using Suc.prems(1,2) by (intro Cons_nth_drop_Suc [symmetric]) simp
  ultimately show ?case
    using Suc.IH [of "Suc i" ys' "xs @ [vec_list src ! i]"] Suc.prems ys at by simp
qed simp

lemma fill_ok:
  assumes "vec_ok src" "vdata v = Some (map Some xs @ ys)" "length xs = k" "vsize src \<le> length xs + length ys"
    "vcap v = length xs + length ys"
  obtains v' where "rbind (construct_from (vdata v) src 0 (vsize src)) (\<lambda>d. Inr (v\<lparr>vsize := vsize src, vdata := d\<rparr>)) = Inr v'"
    "vec_ok v'" "vec_list v' = vec_list src"
proof -
  let ?cs = "map Some xs @ ys"
  let ?v = "v\<lparr>vsize := vsize src, vdata := Some (map Some (vec_list src) @ drop (vsize src) ?cs)\<rparr>"
  have "construct_from (vdata v) src 0 (vsize src) = Inr (Some (map Some (vec_list src) @ drop (vsize src) ?cs))"
    using construct_from_ok [OF assms(1), of 0 "vsize src" ?cs "drop (vsize src) ?cs" "[]"] assms(2,4) by simp
  moreover have r: "vdata ?v = Some (map Some (vec_list src) @ drop (vsize src) ?cs)" "vsize ?v = length (vec_list src)"
    "vcap ?v = length (vec_list src) + length (drop (vsize src) ?cs)"
    using assms by simp_all
  ultimately show ?thesis using that [of ?v] vec_repr [OF r] by simp
qed

lemma vec_assign_ok:
  assumes "vec_ok v" "vec_ok src"
  obtains v' where "vec_assign b v src = Inr v'" "vec_ok v'" "vec_list v' = vec_list src"
proof -
  have "vsize src \<le> vcap src" using assms(2) by (cases rule: vec_cases) simp_all
  note r = reserve_ok [OF assms(1), of b "vcap src"]
  from r(1) show ?thesis
  proof (cases rule: vec_cases)
    case 1
    then have "vsize src = 0" using r(4) \<open>vsize src \<le> vcap src\<close> by simp
    then show ?thesis
      using that [of "(reserve b v (vcap src))\<lparr>vsize := 0\<rparr>"] 1 assms(2) length_vec_list [OF assms(2)]
      by (simp add: vec_assign_def Let_def vec_ok_def vec_list_def)
  next
    case (2 xs ys)
    have "vsize src \<le> length xs + length ys" using 2 r(4) \<open>vsize src \<le> vcap src\<close> by simp
    from fill_ok [OF assms(2) 2(1) refl this 2(3)] obtain v' where v':
      "rbind (construct_from (vdata (reserve b v (vcap src))) src 0 (vsize src))
        (\<lambda>d. Inr ((reserve b v (vcap src))\<lparr>vsize := vsize src, vdata := d\<rparr>)) = Inr v'"
      "vec_ok v'" "vec_list v' = vec_list src" by blast
    then show ?thesis using that [of v'] by (simp add: vec_assign_def Let_def)
  qed
qed

lemma vec_copy_eq: "vec_copy b src = vec_assign b vec_new src"
  by (simp add: vec_copy_def vec_assign_def vec_new_def vec_cap_def VEC_DEFAULT_SIZE_def)

lemma vec_eq_loop_ok:
  "vec_ok v \<Longrightarrow> vec_ok w \<Longrightarrow> vsize w = vsize v \<Longrightarrow> i + n = vsize v \<Longrightarrow>
   vec_eq_loop v w i n = Inr (drop i (vec_list v) = drop i (vec_list w))"
proof (induction n arbitrary: i)
  case (Suc n)
  have "drop i (vec_list u) = vec_list u ! i # drop (Suc i) (vec_list u)" if "u = v \<or> u = w" for u
    using Suc.prems that by (intro Cons_nth_drop_Suc [symmetric]) auto
  then show ?case using Suc by (auto simp: vec_at_ok)
qed simp

lemma construct_tail_ok:
  assumes "vec_ok v" "vsize v + n \<le> vcap v"
  obtains v' where "construct_tail d n v = Inr v'" "vec_ok v'" "vec_list v' = vec_list v @ replicate n d"
  using assms
proof (induction n arbitrary: v thesis)
  case (Suc n)
  have "vsize v < vcap v" using Suc.prems(3) by simp
  from vec_place_ok [OF Suc.prems(2) this, of d] obtain w where w: "vec_place v d = Inr w" "vec_ok w"
    "vec_list w = vec_list v @ [d]" "vcap w = vcap v" "vsize w = vsize v + 1" by blast
  obtain v' where "construct_tail d n w = Inr v'" "vec_ok v'" "vec_list v' = vec_list w @ replicate n d"
    using Suc.IH [of w] w Suc.prems(3) by auto
  then show ?case using Suc.prems(1) w by (simp add: replicate_append_same)
qed simp

lemma destroy_tail_ok:
  assumes "vec_ok v" "n \<le> vsize v"
  obtains v' where "destroy_tail n v = Inr v'" "vec_ok v'" "vec_list v' = take (vsize v - n) (vec_list v)"
  using assms
proof (induction n arbitrary: v thesis)
  case (Suc n)
  from Suc.prems(2) show ?case
  proof (cases rule: vec_cases)
    case (2 xs ys)
    with Suc.prems(3) obtain zs z where xs: "xs = zs @ [z]" by (cases xs rule: rev_cases) auto
    let ?w = "v\<lparr>vdata := Some (map Some zs @ None # ys), vsize := vsize v - 1\<rparr>"
    have put: "cell_put (vdata v) (vsize v - 1) None = Inr (Some (map Some zs @ None # ys))"
      using 2 xs by (simp add: cell_put_def list_update_append)
    have r: "vdata ?w = Some (map Some zs @ None # ys)" "vsize ?w = length zs" "vcap ?w = length zs + length (None # ys)"
      using 2 xs by simp_all
    obtain v' where "destroy_tail n ?w = Inr v'" "vec_ok v'" "vec_list v' = take (vsize ?w - n) (vec_list ?w)"
      using Suc.IH [of ?w] vec_repr [OF r] r(2) Suc.prems(3) 2 xs by auto
    then show ?thesis using Suc.prems(1) put vec_repr [OF 2] vec_repr [OF r] 2 xs by simp
  qed (use Suc.prems(3) in simp)
qed simp

lemma resize_ok:
  assumes "vec_ok v"
  obtains v' where "resize b d v n = Inr v'" "vec_ok v'"
    "vec_list v' = take n (vec_list v) @ replicate (n - vsize v) d"
proof -
  note r = reserve_ok [OF assms, of b n]
  consider "n < vsize v" | "vsize v < n" | "n = vsize v" by linarith
  then show ?thesis
  proof cases
    case 1
    have "vsize (reserve b v n) - n \<le> vsize (reserve b v n)" by simp
    from destroy_tail_ok [OF r(1) this] obtain v' where "destroy_tail (vsize (reserve b v n) - n) (reserve b v n) = Inr v'"
      "vec_ok v'" "vec_list v' = take (vsize (reserve b v n) - (vsize (reserve b v n) - n)) (vec_list (reserve b v n))" by blast
    then show ?thesis using that [of v'] 1 r by (simp add: resize_def Let_def)
  next
    case 2
    have "vsize (reserve b v n) + (n - vsize v) \<le> vcap (reserve b v n)" using r(3,4) 2 by simp
    from construct_tail_ok [OF r(1) this, of d] obtain v' where "construct_tail d (n - vsize v) (reserve b v n) = Inr v'"
      "vec_ok v'" "vec_list v' = vec_list (reserve b v n) @ replicate (n - vsize v) d" by blast
    then show ?thesis using that [of v'] 2 r assms by (simp add: resize_def Let_def)
  next
    case 3
    then show ?thesis using that [of "reserve b v n"] r assms by (simp add: resize_def Let_def)
  qed
qed

lemma pop_ok:
  assumes "vec_ok v" "vec_list v \<noteq> []"
  obtains v' where "pop v = Inr (last (vec_list v), v')" "vec_ok v'" "vec_list v' = butlast (vec_list v)"
  using assms(1)
proof (cases rule: vec_cases)
  case (2 xs ys)
  with assms(2) vec_repr [OF 2] obtain zs z where xs: "xs = zs @ [z]" by (cases xs rule: rev_cases) auto
  let ?v = "v\<lparr>vsize := vsize v - 1\<rparr>"
  have r: "vdata ?v = Some (map Some zs @ Some z # ys)" "vsize ?v = length zs" "vcap ?v = length zs + length (Some z # ys)"
    using 2 xs by simp_all
  have "pop v = Inr (z, ?v)"
    using 2 xs by (simp add: pop_def cell_get_def nth_append)
  then show ?thesis using that [of ?v] vec_repr [OF 2] vec_repr [OF r] xs by simp
qed (use assms(2) in \<open>simp add: vec_empty\<close>)

section \<open>Appending\<close>

text \<open>What a client of a container that only grows may rely on.\<close>

locale appender =
  fixes ok :: "'s \<Rightarrow> bool"
    and contents :: "'s \<Rightarrow> 'a list"
    and app :: "'s \<Rightarrow> 'a \<Rightarrow> 's res"
  assumes app_ok: "ok s \<Longrightarrow> \<exists>s'. app s x = Inr s' \<and> ok s' \<and> contents s' = contents s @ [x]"
begin

primrec app_all :: "'s \<Rightarrow> 'a list \<Rightarrow> 's res" where
  "app_all s [] = Inr s"
| "app_all s (x # xs) = rbind (app s x) (\<lambda>s. app_all s xs)"

lemma app_all_ok: "ok s \<Longrightarrow> \<exists>s'. app_all s xs = Inr s' \<and> ok s' \<and> contents s' = contents s @ xs"
proof (induction xs arbitrary: s)
  case (Cons x xs)
  from app_ok [OF Cons.prems, of x] obtain t where t: "app s x = Inr t" "ok t" "contents t = contents s @ [x]" by blast
  from Cons.IH [OF t(2)] t show ?case by auto
qed simp

end

interpretation vec_plus: appender vec_ok vec_list "vec_append b" for b
  by unfold_locales (metis vec_append_ok)

section \<open>Properties\<close>



text \<open>\<^verbatim>\<open>swap_remove\<close> takes the element it moves from behind the last one: on a full vector, or where that cell holds
  no object, removing any element is undefined.\<close>

theorem swap_remove_undefined:
  assumes "vec_ok v" and "i < vsize v" and "vsize v = vcap v \<or> (\<exists>cs. vdata v = Some cs \<and> cs ! vsize v = None)"
  shows "swap_remove v i = Inl Undefined"
  using assms by (auto simp: swap_remove_def cell_get_def vec_ok_def split: option.splits)

theorem swap_remove_undefined_witness:
  "swap_remove \<lparr>vdata = Some [Some (1::nat), Some 2, None], vsize = 2, vcap = 3\<rparr> 0 = Inl Undefined"
proof -
  have "vec_ok \<lparr>vdata = Some [Some (1::nat), Some 2, None], vsize = 2, vcap = 3\<rparr>"
    by (auto simp: vec_ok_def less_2_cases_iff)
  then show ?thesis by (rule swap_remove_undefined) simp_all
qed

end
