(* ===== verification/KString.thy ===== *)
theory KString
  imports CString Vector
begin

text \<open>
  The string classes of \<^verbatim>\<open>util/storage.hh\<close>: \<^verbatim>\<open>StringView\<close>, the iterator that splits a string at a delimiter,
  and \<^verbatim>\<open>String\<close>, a vector of characters with a terminator in the cell behind the last one.
\<close>

section \<open>Views\<close>

text \<open>The characters from the pointer of the view to the terminator of the string it points into, and the
  size of the view.\<close>

record view =
  vstr :: string
  vlen :: nat

text \<open>Reading a character of a terminated string by index; behind the terminator this is undefined.\<close>

definition char_at :: "string \<Rightarrow> nat \<Rightarrow> char res" where
  "char_at s i = (if i < length s then Inr (s ! i) else if i = length s then Inr NUL else Inl Undefined)"

fun view_eq_loop :: "string \<Rightarrow> string \<Rightarrow> nat \<Rightarrow> nat \<Rightarrow> bool res" where
  "view_eq_loop rhs s i 0 = rbind (char_at rhs i) (\<lambda>c. Inr (c = NUL))"
| "view_eq_loop rhs s i (Suc n) =
     rbind (char_at rhs i) (\<lambda>a. rbind (char_at s i) (\<lambda>b.
     if a \<noteq> b then Inr False else view_eq_loop rhs s (i + 1) n))"

definition view_eq :: "view \<Rightarrow> string \<Rightarrow> bool res" where
  "view_eq v rhs = view_eq_loop rhs (vstr v) 0 (vlen v)"

definition view_neq :: "view \<Rightarrow> string \<Rightarrow> bool res" where
  "view_neq v rhs = rbind (view_eq v rhs) (\<lambda>b. Inr (\<not> b))"

fun starts_with_loop :: "string \<Rightarrow> string \<Rightarrow> nat \<Rightarrow> nat \<Rightarrow> bool res" where
  "starts_with_loop str s i n =
     (case n of
        0 \<Rightarrow> rbind (char_at s i) (\<lambda>c. Inr (c = NUL))
      | Suc n \<Rightarrow> rbind (char_at s i) (\<lambda>c.
          if c = NUL then Inr True
          else rbind (char_at str i) (\<lambda>d. if c \<noteq> d then Inr False else starts_with_loop str s (i + 1) n)))"

declare starts_with_loop.simps [simp del]

definition starts_with :: "view \<Rightarrow> string \<Rightarrow> bool res" where
  "starts_with v s = starts_with_loop (vstr v) s 0 (vlen v)"

fun ends_with_loop :: "string \<Rightarrow> string \<Rightarrow> nat \<Rightarrow> nat \<Rightarrow> nat \<Rightarrow> bool res" where
  "ends_with_loop str s off i 0 = Inr True"
| "ends_with_loop str s off i (Suc n) =
     rbind (char_at str (off + i)) (\<lambda>a. rbind (char_at s i) (\<lambda>b.
     if a \<noteq> b then Inr False else ends_with_loop str s off (i + 1) n))"

definition ends_with :: "view \<Rightarrow> string \<Rightarrow> bool res" where
  "ends_with v s =
     (let s_size = unat (strlen s) in
      if s_size > vlen v then Inr False else ends_with_loop (vstr v) s (vlen v - s_size) 0 s_size)"

text \<open>The conversions read on behind the end of the view, and the unsigned one is the signed one.\<close>

definition view_to_int :: "view \<Rightarrow> nat \<Rightarrow> int res" where
  "view_to_int v b = str_to_int (vstr v) b"

definition view_to_uint :: "view \<Rightarrow> nat \<Rightarrow> nat res" where
  "view_to_uint v b = rbind (str_to_int (vstr v) b) (\<lambda>x. Inr (nat (x mod 2 ^ 64)))"

section \<open>Splitting\<close>

record split_iter =
  it_str :: string
  it_delim :: char

fun seg_len :: "string \<Rightarrow> char \<Rightarrow> nat" where
  "seg_len [] d = 0"
| "seg_len (c # s) d = (if c \<noteq> NUL \<and> c \<noteq> d then Suc (seg_len s d) else 0)"

definition split_deref :: "split_iter \<Rightarrow> view" where
  "split_deref it = \<lparr>vstr = it_str it, vlen = seg_len (it_str it) (it_delim it)\<rparr>"

text \<open>Advancing skips the segment and one character more, also where that is the terminator; the iterator is
  then behind the string.\<close>

definition split_inc :: "split_iter \<Rightarrow> split_iter option" where
  "split_inc it =
     (case drop (seg_len (it_str it) (it_delim it)) (it_str it) of
        [] \<Rightarrow> None
      | _ # s \<Rightarrow> Some (it\<lparr>it_str := s\<rparr>))"

primrec split_add :: "split_iter \<Rightarrow> nat \<Rightarrow> split_iter res" where
  "split_add it 0 = Inr it"
| "split_add it (Suc n) = (case split_inc it of None \<Rightarrow> Inl Undefined | Some it \<Rightarrow> split_add it n)"

definition split_neq :: "split_iter \<Rightarrow> split_iter \<Rightarrow> bool" where
  "split_neq it rhs = (\<not> (deref (it_str rhs) = NUL \<and> deref (it_str it) = NUL))"

definition split_end :: split_iter where
  "split_end = \<lparr>it_str = [], it_delim = CHR '' ''\<rparr>"

definition split_str :: "string \<Rightarrow> char \<Rightarrow> split_iter" where
  "split_str s c = \<lparr>it_str = s, it_delim = c\<rparr>"

text \<open>A loop over all segments.\<close>

function split_all :: "split_iter \<Rightarrow> view list res" where
  "split_all it =
     (if split_neq it split_end
      then (case split_inc it of
              None \<Rightarrow> Inl Undefined
            | Some it' \<Rightarrow> rbind (split_all it') (\<lambda>vs. Inr (split_deref it # vs)))
      else Inr [])"
  by pat_completeness auto
termination
proof (relation "measure (\<lambda>it. length (it_str it))", goal_cases)
  case (2 it it')
  then obtain c s where d: "drop (seg_len (it_str it) (it_delim it)) (it_str it) = c # s" "it' = it\<lparr>it_str := s\<rparr>"
    by (auto simp: split_inc_def split: list.splits)
  from arg_cong [OF d(1), of length] d(2) show ?case by simp
qed simp

declare split_all.simps [simp del]

section \<open>Strings\<close>

type_synonym kstring = "char vec"

definition put_char :: "kstring \<Rightarrow> nat \<Rightarrow> char \<Rightarrow> kstring res" where
  "put_char v i c = rbind (cell_put (vdata v) i (Some c)) (\<lambda>d. Inr (v\<lparr>vdata := d\<rparr>))"

text \<open>\<^verbatim>\<open>memcpy\<close> of the first characters of a string into the cells.\<close>

fun copy_chars :: "kstring \<Rightarrow> nat \<Rightarrow> string \<Rightarrow> nat \<Rightarrow> nat \<Rightarrow> kstring res" where
  "copy_chars v off s i 0 = Inr v"
| "copy_chars v off s i (Suc n) =
     rbind (char_at s i) (\<lambda>c. rbind (put_char v (off + i) c) (\<lambda>v. copy_chars v off s (i + 1) n))"

definition string_new :: kstring where
  "string_new = vec_new"

definition string_resize :: "bool \<Rightarrow> kstring \<Rightarrow> nat \<Rightarrow> kstring res" where
  "string_resize b v n =
     rbind (resize b NUL v n) (\<lambda>v. let v = reserve b v (n + 1) in put_char v (vsize v) NUL)"

definition string_of :: "string \<Rightarrow> kstring res" where
  "string_of s =
     (let cap = unat (strlen s) + 1; v = (vec_cap cap)\<lparr>vsize := cap - 1\<rparr> in
      rbind (copy_chars v 0 s 0 (vsize v + 1)) (\<lambda>v. put_char v (vsize v) NUL))"

definition string_sub :: "string \<Rightarrow> nat \<Rightarrow> kstring res" where
  "string_sub s n =
     (let v = (vec_cap (n + 1))\<lparr>vsize := n\<rparr> in
      rbind (copy_chars v 0 s 0 n) (\<lambda>v. put_char v (vsize v) NUL))"

definition string_init :: "bool \<Rightarrow> string \<Rightarrow> kstring res" where
  "string_init b items = rbind (vec_list_init b items) (\<lambda>v. put_char v (vsize v) NUL)"

text \<open>Copying takes the characters and the terminator into a block with room for the characters only.\<close>

fun copy_cells :: "kstring \<Rightarrow> kstring \<Rightarrow> nat \<Rightarrow> nat \<Rightarrow> kstring res" where
  "copy_cells v src i 0 = Inr v"
| "copy_cells v src i (Suc n) =
     rbind (cell_get (vdata src) i) (\<lambda>c. rbind (put_char v i c) (\<lambda>v. copy_cells v src (i + 1) n))"

definition string_copy :: "kstring \<Rightarrow> kstring res" where
  "string_copy src =
     (if vsize src \<noteq> 0
      then copy_cells ((vec_cap (vsize src))\<lparr>vsize := vsize src\<rparr>) src 0 (vsize src + 1)
      else Inr vec_new)"

definition string_assign :: "kstring \<Rightarrow> kstring \<Rightarrow> kstring res" where
  "string_assign v src =
     copy_cells \<lparr>vdata = Some (replicate (vsize src) None), vsize = vsize src, vcap = vsize src\<rparr> src 0 (vsize src + 1)"

text \<open>The move constructor passes its argument on as an lvalue and so copies the vector, without the
  terminator.\<close>

definition string_move :: "bool \<Rightarrow> kstring \<Rightarrow> kstring res" where
  "string_move b src = vec_copy b src"

definition string_move_assign :: "kstring \<Rightarrow> kstring \<Rightarrow> kstring \<times> kstring" where
  "string_move_assign v src = (src, \<lparr>vdata = None, vsize = 0, vcap = 0\<rparr>)"

definition string_append :: "bool \<Rightarrow> kstring \<Rightarrow> string \<Rightarrow> kstring res" where
  "string_append b v s =
     (let len = unat (strlen s); v = reserve b v (vsize v + len + 1) in
      rbind (copy_chars v (vsize v) s 0 len) (\<lambda>v.
      let v = v\<lparr>vsize := vsize v + len\<rparr> in put_char v (vsize v) NUL))"

definition string_append_char :: "bool \<Rightarrow> kstring \<Rightarrow> char \<Rightarrow> kstring res" where
  "string_append_char b v c = rbind (vec_append b v c) (\<lambda>v. put_char v (vsize v) NUL)"

definition string_split :: "kstring \<Rightarrow> char \<Rightarrow> split_iter" where
  "string_split v c = split_str (vec_list v) c"

definition materialize :: "view \<Rightarrow> kstring res" where
  "materialize v = string_sub (vstr v) (vlen v)"

section \<open>Correctness\<close>

lemma seg_len_append:
  assumes "NUL \<notin> set p" "d \<notin> set p" "s = [] \<or> hd s = d"
  shows "seg_len (p @ s) d = length p"
  using assms by (induction p) (cases s; auto)+

lemma split_all_end: "split_all (split_str [] d) = Inr []"
  by (simp add: split_all.simps split_neq_def split_str_def split_end_def)

lemma split_all_step:
  assumes "NUL \<notin> set p" "d \<notin> set p" "d \<noteq> NUL"
  shows "split_all (split_str (p @ d # s) d) =
    rbind (split_all (split_str s d)) (\<lambda>vs. Inr (\<lparr>vstr = p @ d # s, vlen = length p\<rparr> # vs))"
proof -
  have "deref (p @ d # s) \<noteq> NUL" using assms by (cases p) auto
  then show ?thesis
    using seg_len_append [OF assms(1,2), of "d # s"]
    by (subst split_all.simps) (simp add: split_neq_def split_str_def split_end_def split_inc_def split_deref_def)
qed

lemma split_all_tail:
  assumes "NUL \<notin> set p" "d \<notin> set p" "p \<noteq> []"
  shows "split_all (split_str p d) = Inl Undefined"
proof -
  have "deref p \<noteq> NUL" using assms by (cases p) auto
  then show ?thesis
    using seg_len_append [OF assms(1,2), of "[]"]
    by (subst split_all.simps) (simp add: split_neq_def split_str_def split_end_def split_inc_def)
qed

definition segments :: "char \<Rightarrow> string list \<Rightarrow> string" where
  "segments d ps = concat (map (\<lambda>p. p @ [d]) ps)"

lemma split_all_segments:
  assumes "d \<noteq> NUL" "\<forall>p \<in> set ps. NUL \<notin> set p \<and> d \<notin> set p" "NUL \<notin> set t" "d \<notin> set t"
  shows "if t = [] then \<exists>vs. split_all (split_str (segments d ps @ t) d) = Inr vs \<and> map (\<lambda>v. take (vlen v) (vstr v)) vs = ps
    else split_all (split_str (segments d ps @ t) d) = Inl Undefined"
  using assms(2)
proof (induction ps)
  case Nil
  then show ?case using assms(3,4) by (auto simp: segments_def split_all_end split_all_tail)
next
  case (Cons p ps)
  then have "split_all (split_str (segments d (p # ps) @ t) d) =
      rbind (split_all (split_str (segments d ps @ t) d)) (\<lambda>vs. Inr (\<lparr>vstr = segments d (p # ps) @ t, vlen = length p\<rparr> # vs))"
    using split_all_step [of p d "segments d ps @ t"] assms(1) by (simp add: segments_def)
  then show ?case using Cons by (auto simp: segments_def split: if_splits)
qed

definition str_holds :: "kstring \<Rightarrow> string \<Rightarrow> bool" where
  "str_holds v s = (vec_ok v \<and> vec_list v = s \<and> cell_get (vdata v) (vsize v) = Inr NUL)"

lemma copy_chars_ok:
  assumes "vdata v = Some (map Some xs @ ys)" "off + i = length xs" "n \<le> length ys" "i + n \<le> length s + 1"
  shows "copy_chars v off s i n = Inr (v\<lparr>vdata := Some (map Some (xs @ take n (drop i (s @ [NUL]))) @ drop n ys)\<rparr>)"
  using assms
proof (induction n arbitrary: v xs ys i)
  case 0
  then show ?case by (cases v) simp
next
  case (Suc n)
  then obtain y ys' where ys: "ys = y # ys'" by (cases ys) auto
  let ?c = "(s @ [NUL]) ! i"
  have c: "char_at s i = Inr ?c" and d: "drop i (s @ [NUL]) = ?c # drop (Suc i) (s @ [NUL])"
    using Suc.prems(4) by (auto simp: char_at_def nth_append intro!: Cons_nth_drop_Suc [symmetric])
  let ?w = "v\<lparr>vdata := Some (map Some (xs @ [?c]) @ ys')\<rparr>"
  have p: "put_char v (off + i) ?c = Inr ?w"
    using Suc.prems(1,2) ys by (simp add: put_char_def cell_put_def list_update_append)
  have "copy_chars ?w off s (i + 1) n =
      Inr (?w\<lparr>vdata := Some (map Some ((xs @ [?c]) @ take n (drop (i + 1) (s @ [NUL]))) @ drop n ys')\<rparr>)"
    using Suc.prems ys by (intro Suc.IH) simp_all
  then show ?case unfolding d using c p ys by simp
qed

lemma terminate_ok:
  assumes "vdata v = Some (map Some xs @ y # ys)" "vsize v = length xs" "vcap v = length xs + Suc (length ys)"
  obtains v' where "put_char v (vsize v) NUL = Inr v'" "str_holds v' xs"
proof -
  let ?v = "v\<lparr>vdata := Some (map Some xs @ Some NUL # ys)\<rparr>"
  have r: "vdata ?v = Some (map Some xs @ Some NUL # ys)" "vsize ?v = length xs" "vcap ?v = length xs + length (Some NUL # ys)"
    using assms by simp_all
  have "put_char v (vsize v) NUL = Inr ?v"
    using assms by (simp add: put_char_def cell_put_def list_update_append)
  moreover have "str_holds ?v xs"
    using vec_repr [OF r] r by (simp add: str_holds_def cell_get_def nth_append)
  ultimately show ?thesis using that by blast
qed

lemma strlen_short:
  assumes "NUL \<notin> set s" "length s < 256"
  shows "unat (strlen s) = length s"
proof -
  have "cstr s = s" using assms(1) by (induction s) auto
  then show ?thesis
    using assms(2) by (simp add: strlen_def strlen_loop_eq unat_of_nat take_bit_eq_mod)
qed

lemma string_of_ok:
  assumes "NUL \<notin> set s" "length s < 256"
  obtains v where "string_of s = Inr v" "str_holds v s"
proof -
  let ?n = "length s"
  let ?v = "(vec_cap (?n + 1))\<lparr>vsize := ?n\<rparr> :: kstring"
  let ?w = "?v\<lparr>vdata := Some (map Some (s @ [NUL]))\<rparr>"
  have c: "copy_chars ?v 0 s 0 (?n + 1) = Inr ?w"
    using copy_chars_ok [of ?v "[]" "replicate (?n + 1) None" 0 0 "?n + 1" s] by (simp add: vec_cap_def)
  have r: "vdata ?w = Some (map Some s @ Some NUL # [])" "vsize ?w = length s" "vcap ?w = length s + Suc (length [])"
    by (simp_all add: vec_cap_def)
  obtain v where "put_char ?w (vsize ?w) NUL = Inr v" "str_holds v s"
    by (rule terminate_ok [OF r])
  then show ?thesis using that c by (simp add: string_of_def strlen_short [OF assms] Let_def)
qed

lemma string_append_ok:
  assumes "str_holds v t" "NUL \<notin> set s" "length s < 256"
  obtains v' where "string_append b v s = Inr v'" "str_holds v' (t @ s)"
proof -
  have ok: "vec_ok v" "vec_list v = t" using assms(1) by (simp_all add: str_holds_def)
  let ?n = "length s"
  let ?r = "reserve b v (vsize v + ?n + 1)"
  note r = reserve_ok [OF ok(1), of b "vsize v + ?n + 1"]
  from r(1) show ?thesis
  proof (cases rule: vec_cases)
    case 1
    then show ?thesis using r(4) by simp
  next
    case (2 xs ys)
    have xs: "xs = t" using vec_repr [OF 2] r(2) ok(2) by simp
    have ys: "length ys \<ge> ?n + 1" using 2 r(3,4) by simp
    then obtain y zs where yz: "drop ?n ys = y # zs" by (cases "drop ?n ys") auto
    let ?w = "?r\<lparr>vdata := Some (map Some (xs @ s) @ y # zs)\<rparr>"
    have c: "copy_chars ?r (vsize ?r) s 0 ?n = Inr ?w"
      using copy_chars_ok [OF 2(1), of "vsize ?r" 0 ?n s] 2 ys yz by simp
    let ?u = "?w\<lparr>vsize := vsize ?w + ?n\<rparr>"
    have "length ys = ?n + Suc (length zs)" using arg_cong [OF yz, of length] ys by simp
    then have u: "vdata ?u = Some (map Some (xs @ s) @ y # zs)" "vsize ?u = length (xs @ s)"
      "vcap ?u = length (xs @ s) + Suc (length zs)"
      using 2 by simp_all
    obtain v' where "put_char ?u (vsize ?u) NUL = Inr v'" "str_holds v' (xs @ s)"
      by (rule terminate_ok [OF u])
    then show ?thesis using that c xs by (simp add: string_append_def strlen_short [OF assms(2,3)] Let_def)
  qed
qed

section \<open>Properties\<close>

text \<open>A loop over the segments of a string visits exactly the segments if each of them ends in the delimiter, and
  otherwise steps over the terminator and reads behind the string.\<close>

theorem split_all_spec:
  assumes "d \<noteq> NUL" and "\<forall>p \<in> set ps. NUL \<notin> set p \<and> d \<notin> set p" and "NUL \<notin> set t" and "d \<notin> set t"
  shows "if t = []
    then \<exists>vs. split_all (split_str (segments d ps @ t) d) = Inr vs \<and> map (\<lambda>v. take (vlen v) (vstr v)) vs = ps
    else split_all (split_str (segments d ps @ t) d) = Inl Undefined"
  by (rule split_all_segments [OF assms])

theorem split_all_spec_witness: "split_all (split_str ''ls /a'' CHR '' '') = Inl Undefined"
  using split_all_spec [of "CHR '' ''" "[''ls'']" "''/a''"] by (simp add: segments_def)



end
