(* ===== verification/Containers.thy ===== *)
theory Containers
  imports Bitmap KString
begin

text \<open>
  The remaining containers: \<^verbatim>\<open>Array\<close>, \<^verbatim>\<open>Opt\<close> and \<^verbatim>\<open>Span\<close> of \<^verbatim>\<open>util/storage.hh\<close>, \<^verbatim>\<open>variant\<close> of \<^verbatim>\<open>util/variant.hh\<close>,
  \<^verbatim>\<open>unique_ptr\<close> of \<^verbatim>\<open>util/smartptrs.hh\<close>, the bitmap on the heap, \<^verbatim>\<open>Arena\<close> of \<^verbatim>\<open>util/arena.hh\<close>, and the parser of
  \<^verbatim>\<open>util/guid.hh\<close>.
\<close>

section \<open>Array, Opt, Span\<close>

text \<open>An array is a list of its fixed length. The check of the index lets the length through.\<close>

definition array_init :: "'a \<Rightarrow> nat \<Rightarrow> 'a list \<Rightarrow> 'a list res" where
  "array_init dflt n items =
     (if length items \<le> n then Inr (items @ replicate (n - length items) dflt)
      else Inl (Fatal ''Assert failed: items.__size_ <= size''))"

definition array_of :: "'a list \<Rightarrow> 'a list" where
  "array_of items = map (\<lambda>i. items ! i) [0..<length items]"

definition array_copy :: "'a list \<Rightarrow> 'a list" where
  "array_copy src = map (\<lambda>i. src ! i) [0..<length src]"

definition array_assign :: "'a list \<Rightarrow> 'a list \<Rightarrow> 'a list" where
  "array_assign a src = map (\<lambda>i. src ! i) [0..<length src]"

definition array_at :: "'a list \<Rightarrow> nat \<Rightarrow> 'a res" where
  "array_at a i =
     (if i > length a then Inl (Fatal ''array<> access out of bounds!'')
      else if i < length a then Inr (a ! i) else Inl Undefined)"

definition array_put :: "'a list \<Rightarrow> nat \<Rightarrow> 'a \<Rightarrow> 'a list res" where
  "array_put a i x =
     (if i > length a then Inl (Fatal ''array<> access out of bounds!'')
      else if i < length a then Inr (a[i := x]) else Inl Undefined)"

fun array_eq :: "'a list \<Rightarrow> 'a list \<Rightarrow> bool" where
  "array_eq (x # a) (y # b) = (if x \<noteq> y then False else array_eq a b)"
| "array_eq [] [] = True"
| "array_eq _ _ = False"

record 'a opt =
  stored :: "'a option"
  opresent :: bool

definition opt_of :: "'a \<Rightarrow> 'a opt" where
  "opt_of x = \<lparr>stored = Some x, opresent = True\<rparr>"

definition opt_none :: "'a opt" where
  "opt_none = \<lparr>stored = None, opresent = False\<rparr>"

definition expect :: "'a opt \<Rightarrow> string \<Rightarrow> 'a res" where
  "expect x error =
     (if \<not> opresent x then Inl (Fatal (''Optional not present: '' @ error))
      else case stored x of Some y \<Rightarrow> Inr y | None \<Rightarrow> Inl Undefined)"

definition opt_emplace :: "'a opt \<Rightarrow> 'a \<Rightarrow> 'a opt" where
  "opt_emplace x y = \<lparr>stored = Some y, opresent = True\<rparr>"

record 'a span =
  sp_first :: "'a list"
  sp_size :: nat

definition span_of_vec :: "'a vec \<Rightarrow> 'a span" where
  "span_of_vec v = \<lparr>sp_first = vec_list v, sp_size = vsize v\<rparr>"

definition span_at :: "'a span \<Rightarrow> nat \<Rightarrow> 'a res" where
  "span_at s i =
     (if \<not> i < sp_size s then Inl (Fatal ''Assert failed: idx < size'')
      else if i < length (sp_first s) then Inr (sp_first s ! i) else Inl Undefined)"

section \<open>Variants and unique pointers\<close>

text \<open>The alternatives are numbered; \<open>tag\<close> is the number of an object's type. The number of no alternative is
  255, the value of \<^verbatim>\<open>inv\<close>.\<close>

definition variant_inv :: nat where
  "variant_inv = 255"

record 'a variant =
  vstorage :: "'a option"
  active :: nat

definition variant_new :: "'a variant" where
  "variant_new = \<lparr>vstorage = None, active = variant_inv\<rparr>"

definition variant_of :: "nat \<Rightarrow> 'a \<Rightarrow> 'a variant" where
  "variant_of tag x = \<lparr>vstorage = Some x, active = tag\<rparr>"

definition variant_emplace :: "'a variant \<Rightarrow> nat \<Rightarrow> 'a \<Rightarrow> 'a variant res" where
  "variant_emplace v tag x =
     (if active v \<noteq> variant_inv then Inl (Fatal ''variant already has an active element!'')
      else Inr \<lparr>vstorage = Some x, active = tag\<rparr>)"

definition variant_get :: "'a variant \<Rightarrow> nat \<Rightarrow> 'a res" where
  "variant_get v tag =
     (if active v = variant_inv then Inl (Fatal ''variant has no active element!'')
      else if tag \<noteq> active v then Inl (Fatal ''Type mismatch!'')
      else case vstorage v of Some x \<Rightarrow> Inr x | None \<Rightarrow> Inl Undefined)"

definition variant_destroy :: "'a variant \<Rightarrow> 'a variant" where
  "variant_destroy v = (if active v = variant_inv then v else \<lparr>vstorage = None, active = variant_inv\<rparr>)"

text \<open>A unique pointer is an address or null; moving it hands over the object, assigning deletes the old one.
  The second component is the object that is deleted.\<close>

definition uptr_move :: "nat option \<Rightarrow> nat option \<times> nat option" where
  "uptr_move src = (src, None)"

definition uptr_assign :: "nat option \<Rightarrow> nat option \<Rightarrow> (nat option \<times> nat option) \<times> nat option" where
  "uptr_assign p src = ((src, None), p)"

section \<open>Bitmap on the heap\<close>

text \<open>The words are those of the vector's block and \<open>hb_vsize\<close> is the size of the vector, which the constructor
  leaves at 0: the skeleton only gets the address. \<open>blk\<close> is the fresh block.\<close>

record heapbitmap =
  hb_bm :: bitmap
  hb_vsize :: nat

definition hb_words :: "nat \<Rightarrow> nat" where
  "hb_words n = align64 n 64 div 64"

definition hb_new :: "64 word list \<Rightarrow> nat \<Rightarrow> bool \<Rightarrow> heapbitmap res" where
  "hb_new blk elems defa = rbind (bitmap_init blk elems defa) (\<lambda>b. Inr \<lparr>hb_bm = b, hb_vsize = 0\<rparr>)"

definition hb_resize :: "heapbitmap \<Rightarrow> nat \<Rightarrow> heapbitmap" where
  "hb_resize hb newsize =
     (let n = hb_words newsize; k = hb_vsize hb; ws = buffer (hb_bm hb);
          ws = (if n > k then take k ws @ replicate (n - k) 0 else take k ws)
      in \<lparr>hb_bm = \<lparr>buffer = ws, sz = newsize\<rparr>, hb_vsize = n\<rparr>)"

section \<open>Arena\<close>

text \<open>The arena uses the buffer of its vector directly; the size of the vector stays 0.\<close>

record 'a arena =
  ar_data :: "'a vec"
  ar_slots :: heapbitmap

definition arena_new :: "64 word list \<Rightarrow> nat \<Rightarrow> 'a arena res" where
  "arena_new blk cap = rbind (hb_new blk cap False) (\<lambda>hb. Inr \<lparr>ar_data = vec_cap cap, ar_slots = hb\<rparr>)"

definition arena_resize :: "bool \<Rightarrow> 'a arena \<Rightarrow> nat \<Rightarrow> 'a arena" where
  "arena_resize b ar newsize =
     \<lparr>ar_data = reserve b (ar_data ar) newsize, ar_slots = hb_resize (ar_slots ar) newsize\<rparr>"

definition arena_take :: "'a arena \<Rightarrow> (nat \<times> 'a arena) res" where
  "arena_take ar =
     rbind (find_and_set (hb_bm (ar_slots ar)) 0) (\<lambda>(i, bm). Inr (i, ar\<lparr>ar_slots := (ar_slots ar)\<lparr>hb_bm := bm\<rparr>\<rparr>))"

definition arena_place :: "'a arena \<Rightarrow> nat \<Rightarrow> 'a \<Rightarrow> (nat \<times> 'a arena) res" where
  "arena_place ar i x =
     rbind (cell_put (vdata (ar_data ar)) i (Some x)) (\<lambda>d.
     Inr (trunc32 i, ar\<lparr>ar_data := (ar_data ar)\<lparr>vdata := d\<rparr>\<rparr>))"

definition arena_push_back :: "bool \<Rightarrow> 'a arena \<Rightarrow> 'a \<Rightarrow> (nat \<times> 'a arena) res" where
  "arena_push_back b ar x =
     rbind (arena_take ar) (\<lambda>(i, ar).
     if i = NPOS
     then rbind (arena_take (arena_resize b ar (growfun (vcap (ar_data ar))))) (\<lambda>(i, ar). arena_place ar i x)
     else arena_place ar i x)"

definition arena_emplace_back :: "bool \<Rightarrow> 'a arena \<Rightarrow> 'a \<Rightarrow> (nat \<times> 'a arena) res" where
  "arena_emplace_back b ar x =
     rbind (arena_take ar) (\<lambda>(i, ar).
     if i = NPOS
     then rbind (arena_take (arena_resize b ar (mul64 (vcap (ar_data ar)) 4))) (\<lambda>(i, ar). arena_place ar i x)
     else arena_place ar i x)"

primrec arena_push_all :: "bool \<Rightarrow> 'a arena \<Rightarrow> 'a list \<Rightarrow> 'a arena res" where
  "arena_push_all b ar [] = Inr ar"
| "arena_push_all b ar (x # xs) = rbind (arena_push_back b ar x) (\<lambda>(i, ar). arena_push_all b ar xs)"

definition arena_init :: "bool \<Rightarrow> 64 word list \<Rightarrow> 'a list \<Rightarrow> 'a arena res" where
  "arena_init b blk items = rbind (arena_new blk (length items)) (\<lambda>ar. arena_push_all b ar items)"

definition arena_remove :: "'a arena \<Rightarrow> nat \<Rightarrow> 'a arena res" where
  "arena_remove ar i =
     rbind (cell_put (vdata (ar_data ar)) i None) (\<lambda>d.
     rbind (bitmap_set (hb_bm (ar_slots ar)) i False) (\<lambda>bm.
     Inr \<lparr>ar_data = (ar_data ar)\<lparr>vdata := d\<rparr>, ar_slots = (ar_slots ar)\<lparr>hb_bm := bm\<rparr>\<rparr>))"

definition arena_get :: "'a arena \<Rightarrow> nat \<Rightarrow> 'a res" where
  "arena_get ar i = cell_get (vdata (ar_data ar)) i"

text \<open>The first used slot; without one the search leaves the bitmap.\<close>

function arena_first :: "bitmap \<Rightarrow> nat \<Rightarrow> nat res" where
  "arena_first bm i = (case bitmap_get bm i of Inl e \<Rightarrow> Inl e | Inr u \<Rightarrow> if u then Inr i else arena_first bm (i + 1))"
  by pat_completeness auto
termination
  by (relation "measure (\<lambda>(bm, i). sz bm - i)") (auto simp: bitmap_get_def split: if_splits)

declare arena_first.simps [simp del]

function arena_inc :: "bitmap \<Rightarrow> nat \<Rightarrow> nat \<Rightarrow> nat res" where
  "arena_inc bm cap i =
     (if i < cap then case bitmap_get bm i of Inl e \<Rightarrow> Inl e | Inr u \<Rightarrow> if u then Inr i else arena_inc bm cap (i + 1)
      else Inr i)"
  by pat_completeness auto
termination
  by (relation "measure (\<lambda>(bm, cap, i). cap - i)") auto

declare arena_inc.simps [simp del]

definition arena_begin :: "'a arena \<Rightarrow> nat res" where
  "arena_begin ar = arena_first (hb_bm (ar_slots ar)) 0"

definition arena_next :: "'a arena \<Rightarrow> nat \<Rightarrow> nat res" where
  "arena_next ar i = arena_inc (hb_bm (ar_slots ar)) (vcap (ar_data ar)) (i + 1)"

definition arena_end :: "'a arena \<Rightarrow> nat" where
  "arena_end ar = vcap (ar_data ar)"

section \<open>GUIDs\<close>

record guid =
  Data1 :: "32 word"
  Data2 :: "16 word"
  Data3 :: "16 word"
  Data4 :: "8 word list"

definition guid_raw :: "guid \<Rightarrow> 128 word" where
  "guid_raw g =
     ucast (Data1 g) OR push_bit 32 (ucast (Data2 g)) OR push_bit 48 (ucast (Data3 g)) OR
     push_bit 64 (ucast (Data4 g ! 0)) OR push_bit 72 (ucast (Data4 g ! 1)) OR push_bit 80 (ucast (Data4 g ! 2)) OR
     push_bit 88 (ucast (Data4 g ! 3)) OR push_bit 96 (ucast (Data4 g ! 4)) OR push_bit 104 (ucast (Data4 g ! 5)) OR
     push_bit 112 (ucast (Data4 g ! 6)) OR push_bit 120 (ucast (Data4 g ! 7))"

definition parse_hex_digit :: "char \<Rightarrow> nat res" where
  "parse_hex_digit c =
     (if CHR ''0'' \<le> c \<and> c \<le> CHR ''9'' then Inr (ch c - ch CHR ''0'')
      else if CHR ''a'' \<le> c \<and> c \<le> CHR ''f'' then Inr (10 + ch c - ch CHR ''a'')
      else if CHR ''A'' \<le> c \<and> c \<le> CHR ''F'' then Inr (10 + ch c - ch CHR ''A'')
      else Inl (Fatal ''he''))"

fun parse_hex_loop :: "string \<Rightarrow> nat \<Rightarrow> nat \<Rightarrow> nat \<Rightarrow> nat res" where
  "parse_hex_loop s i 0 result = Inr result"
| "parse_hex_loop s i (Suc n) result =
     rbind (char_at s i) (\<lambda>c. rbind (parse_hex_digit c) (\<lambda>d.
     parse_hex_loop s (i + 1) n (result OR push_bit (4 * n) d)))"

definition parse_hex :: "nat \<Rightarrow> string \<Rightarrow> nat res" where
  "parse_hex digits s = parse_hex_loop s 0 digits 0"

primrec parse_bytes :: "nat \<Rightarrow> string \<Rightarrow> 8 word list res" where
  "parse_bytes 0 s = Inr []"
| "parse_bytes (Suc n) s =
     rbind (parse_hex 2 s) (\<lambda>x. rbind (parse_bytes n (drop 2 s)) (\<lambda>xs. Inr (of_nat x # xs)))"

definition make_guid_helper :: "string \<Rightarrow> guid res" where
  "make_guid_helper s =
     rbind (parse_hex 8 s) (\<lambda>d1.
     let s = drop (8 + 1) s in
     rbind (parse_hex 4 s) (\<lambda>d2.
     let s = drop (4 + 1) s in
     rbind (parse_hex 4 s) (\<lambda>d3.
     let s = drop (4 + 1) s in
     rbind (parse_hex 2 s) (\<lambda>x0.
     let s = drop 2 s in
     rbind (parse_hex 2 s) (\<lambda>x1.
     let s = drop (2 + 1) s in
     rbind (parse_bytes 6 s) (\<lambda>xs.
     Inr \<lparr>Data1 = of_nat d1, Data2 = of_nat d2, Data3 = of_nat d3, Data4 = of_nat x0 # of_nat x1 # xs\<rparr>))))))"

definition make_guid :: "string \<Rightarrow> guid res" where
  "make_guid s =
     (if length s = 38
      then if s ! 0 \<noteq> CHR ''{'' \<or> s ! 37 \<noteq> CHR ''}'' then Inl (Fatal ''he2'') else make_guid_helper (tl s)
      else make_guid_helper s)"

section \<open>Behaviour of the arena\<close>

text \<open>The slots the bitmap knows lie inside the block, and every used slot holds an object.\<close>

definition arena_ok :: "'a arena \<Rightarrow> bool" where
  "arena_ok ar \<longleftrightarrow>
     (let bm = hb_bm (ar_slots ar); cs = (case vdata (ar_data ar) of None \<Rightarrow> [] | Some cs \<Rightarrow> cs) in
      bitmap_wf bm \<and> sz bm \<le> vcap (ar_data ar) \<and> vcap (ar_data ar) < 2 ^ 31 \<and> length cs = vcap (ar_data ar) \<and>
      (\<forall>i < sz bm. bits bm i \<longrightarrow> cs ! i \<noteq> None))"

text \<open>The words of the vector are part of the bitmap and hold no bit behind its end.\<close>

definition slots_fit :: "heapbitmap \<Rightarrow> bool" where
  "slots_fit hb \<longleftrightarrow> hb_vsize hb \<le> length (buffer (hb_bm hb)) \<and>
     (\<forall>i. sz (hb_bm hb) \<le> i \<and> i < 64 * hb_vsize hb \<longrightarrow> \<not> bits (hb_bm hb) i)"

lemma hb_words_ge: "n < 2 ^ 63 \<Longrightarrow> n \<le> 64 * hb_words n"
  using align64_ge [of 64 n] align64_dvd [of 64 n] by (auto simp: hb_words_def)

lemma hb_resize_bits:
  assumes "slots_fit hb" and "sz (hb_bm hb) \<le> i" and "i < newsize" and "newsize < 2 ^ 63"
  shows "bitmap_wf (hb_bm (hb_resize hb newsize))" and "sz (hb_bm (hb_resize hb newsize)) = newsize"
    and "\<not> bits (hb_bm (hb_resize hb newsize)) i"
proof -
  have n: "newsize \<le> 64 * hb_words newsize" using assms(4) by (rule hb_words_ge)
  show "bitmap_wf (hb_bm (hb_resize hb newsize))" and "sz (hb_bm (hb_resize hb newsize)) = newsize"
    using n assms(1,4) by (auto simp: hb_resize_def bitmap_wf_def Let_def slots_fit_def)
  have "i div 64 < hb_words newsize" using n assms(3) by auto
  moreover have "\<not> bits (hb_bm hb) i" if "i div 64 < hb_vsize hb"
    using that assms(1,2) by (auto simp: slots_fit_def)
  ultimately show "\<not> bits (hb_bm (hb_resize hb newsize)) i"
    using assms(1) by (auto simp: hb_resize_def Let_def bits_def slots_fit_def nth_append)
qed

lemma arena_place_ok:
  assumes "vdata (ar_data ar) = Some cs" and "i < length cs" and "i < 2 ^ 32"
  shows "arena_place ar i x = Inr (i, ar\<lparr>ar_data := (ar_data ar)\<lparr>vdata := Some (cs[i := Some x])\<rparr>\<rparr>)"
  using assms by (simp add: arena_place_def cell_put_def trunc32_def)

lemma arena_take_ok:
  assumes "bitmap_wf (hb_bm (ar_slots ar))" and "i < sz (hb_bm (ar_slots ar))" and "\<not> bits (hb_bm (ar_slots ar)) i"
  obtains j bm where "arena_take ar = Inr (j, ar\<lparr>ar_slots := (ar_slots ar)\<lparr>hb_bm := bm\<rparr>\<rparr>)" and "j \<le> i"
    and "\<not> bits (hb_bm (ar_slots ar)) j" and "bitmap_wf bm" and "sz bm = sz (hb_bm (ar_slots ar))"
    and "bits bm = (bits (hb_bm (ar_slots ar)))(j := True)" and "j \<noteq> NPOS"
proof -
  obtain j bm where "find_and_set (hb_bm (ar_slots ar)) 0 = Inr (j, bm)" and "j \<le> i"
    and "\<not> bits (hb_bm (ar_slots ar)) j" and "bitmap_wf bm" and "sz bm = sz (hb_bm (ar_slots ar))"
    and "bits bm = (bits (hb_bm (ar_slots ar)))(j := True)"
    using slots.take_free [OF assms] by blast
  moreover have "j \<noteq> NPOS" using wf_below_NPOS [OF assms(1), of j] \<open>j \<le> i\<close> assms(2) by simp
  ultimately show thesis using that by (simp add: arena_take_def)
qed

lemma arena_take_full:
  assumes "bitmap_wf (hb_bm (ar_slots ar))" and "\<forall>i < sz (hb_bm (ar_slots ar)). bits (hb_bm (ar_slots ar)) i"
  shows "arena_take ar = Inr (NPOS, ar)"
  using slots.take_full [OF assms] by (simp add: arena_take_def)

section \<open>Properties\<close>



text \<open>As long as the arena has a free slot, an insertion finds one, stores the object there, and leaves
  every other object and the other slots alone.\<close>

theorem arena_push_spec:
  assumes "arena_ok ar" and "i < sz (hb_bm (ar_slots ar))" and "\<not> bits (hb_bm (ar_slots ar)) i"
  shows "\<exists>j ar'. arena_push_back b ar x = Inr (j, ar') \<and> j \<le> i \<and> \<not> bits (hb_bm (ar_slots ar)) j \<and>
    arena_ok ar' \<and> (\<forall>k. arena_get ar' k = (if k = j then Inr x else arena_get ar k)) \<and>
    bits (hb_bm (ar_slots ar')) = (bits (hb_bm (ar_slots ar)))(j := True)"
proof -
  have wf: "bitmap_wf (hb_bm (ar_slots ar))" using assms(1) by (simp add: arena_ok_def Let_def)
  obtain cs where cs: "vdata (ar_data ar) = Some cs" "length cs = vcap (ar_data ar)"
    using assms(1,2) by (auto simp: arena_ok_def Let_def split: option.splits)
  obtain j bm where t: "arena_take ar = Inr (j, ar\<lparr>ar_slots := (ar_slots ar)\<lparr>hb_bm := bm\<rparr>\<rparr>)" and j: "j \<le> i"
    "\<not> bits (hb_bm (ar_slots ar)) j" "bitmap_wf bm" "sz bm = sz (hb_bm (ar_slots ar))"
    "bits bm = (bits (hb_bm (ar_slots ar)))(j := True)" "j \<noteq> NPOS"
    by (rule arena_take_ok [OF wf assms(2,3)])
  have lt: "j < length cs" "j < 2 ^ 32"
    using assms(1,2) j(1) cs by (auto simp: arena_ok_def Let_def)
  let ?ar = "ar\<lparr>ar_slots := (ar_slots ar)\<lparr>hb_bm := bm\<rparr>, ar_data := (ar_data ar)\<lparr>vdata := Some (cs[j := Some x])\<rparr>\<rparr>"
  have "arena_push_back b ar x = Inr (j, ?ar)"
    using t j(6) arena_place_ok [of "ar\<lparr>ar_slots := (ar_slots ar)\<lparr>hb_bm := bm\<rparr>\<rparr>" cs j x] cs lt
    by (simp add: arena_push_back_def)
  moreover have "arena_ok ?ar"
    using assms(1) cs j lt by (auto simp: arena_ok_def Let_def nth_list_update)
  moreover have "\<forall>k. arena_get ?ar k = (if k = j then Inr x else arena_get ar k)"
    using cs lt by (auto simp: arena_get_def cell_get_def)
  ultimately show ?thesis using j by (intro exI [of _ j] exI [of _ ?ar]) simp
qed

definition example_arena :: "nat arena" where
  "example_arena = \<lparr>ar_data = \<lparr>vdata = Some (Some 10 # replicate 63 None), vsize = 0, vcap = 64\<rparr>,
     ar_slots = \<lparr>hb_bm = \<lparr>buffer = [1], sz = 64\<rparr>, hb_vsize = 0\<rparr>\<rparr>"

theorem arena_push_spec_witness:
  "arena_ok example_arena \<and> (\<exists>j ar'. arena_push_back False example_arena 20 = Inr (j, ar') \<and> arena_get ar' j = Inr 20)"
proof -
  have ok: "arena_ok example_arena"
    by (simp add: arena_ok_def example_arena_def bitmap_wf_def bits_def Let_def bit_1_iff)
  show ?thesis
    using arena_push_spec [OF ok, of 1 False 20] ok by (auto simp: example_arena_def bits_def bit_1_iff)
qed

text \<open>When a full arena grows, the vector behind it still counts no elements, so a block that cannot be
  resized in place is replaced by a raw one and every object is lost. The vector of the bitmap counts no words
  before the first growth either, which then clears all marks: the insertion overwrites slot 0.\<close>

theorem arena_growth_loses_items:
  assumes "arena_ok ar" and full: "\<forall>i < sz (hb_bm (ar_slots ar)). bits (hb_bm (ar_slots ar)) i"
    and fit: "slots_fit (ar_slots ar)" and "vsize (ar_data ar) = 0"
  shows "\<exists>j ar'. arena_push_back b ar x = Inr (j, ar') \<and> arena_get ar' j = Inr x \<and>
    vcap (ar_data ar') = growfun (vcap (ar_data ar)) \<and>
    (\<not> b \<longrightarrow> (\<forall>k. k \<noteq> j \<longrightarrow> arena_get ar' k = Inl Undefined)) \<and>
    (hb_vsize (ar_slots ar) = 0 \<longrightarrow> j = 0)"
proof -
  define cap where "cap = growfun (vcap (ar_data ar))"
  have wf: "bitmap_wf (hb_bm (ar_slots ar))" and le: "sz (hb_bm (ar_slots ar)) \<le> vcap (ar_data ar)"
    and small: "vcap (ar_data ar) < 2 ^ 31"
    using assms(1) by (auto simp: arena_ok_def Let_def)
  have cap: "vcap (ar_data ar) < cap" "cap < 2 ^ 63" "cap \<le> 2 ^ 32" "0 < cap"
    using small by (auto simp: cap_def growfun_def mul64_small)
  define ar1 where "ar1 = arena_resize b ar cap"
  have grown: "\<exists>cs. vdata (ar_data ar1) = Some cs \<and> length cs = cap \<and> (b \<or> (\<forall>k < cap. cs ! k = None))"
    using assms(1,4) cap(1,4)
    by (auto simp: ar1_def arena_resize_def reserve_def arena_ok_def Let_def split: option.splits)
  then obtain cs where cs: "vdata (ar_data ar1) = Some cs" "length cs = cap" "b \<or> (\<forall>k < cap. cs ! k = None)" by blast
  define i where "i = (if hb_vsize (ar_slots ar) = 0 then 0 else vcap (ar_data ar))"
  have i: "i < cap" using cap by (simp add: i_def)
  have bm: "bitmap_wf (hb_bm (ar_slots ar1))" "sz (hb_bm (ar_slots ar1)) = cap"
    using hb_resize_bits [OF fit le cap(1,2)] by (simp_all add: ar1_def arena_resize_def)
  have "\<not> bits (hb_bm (ar_slots ar1)) i"
    using hb_resize_bits(3) [OF fit le cap(1,2)] hb_words_ge [OF cap(2)] cap(4)
    by (auto simp: ar1_def arena_resize_def i_def hb_resize_def bits_def Let_def)
  then obtain j bm' where t: "arena_take ar1 = Inr (j, ar1\<lparr>ar_slots := (ar_slots ar1)\<lparr>hb_bm := bm'\<rparr>\<rparr>)" and j: "j \<le> i"
    using arena_take_ok [OF bm(1), of i thesis] i bm(2) by blast
  let ?ar = "ar1\<lparr>ar_slots := (ar_slots ar1)\<lparr>hb_bm := bm'\<rparr>, ar_data := (ar_data ar1)\<lparr>vdata := Some (cs[j := Some x])\<rparr>\<rparr>"
  have "arena_push_back b ar x = Inr (j, ?ar)"
    using t cs j i cap(3) arena_take_full [OF wf full]
      arena_place_ok [of "ar1\<lparr>ar_slots := (ar_slots ar1)\<lparr>hb_bm := bm'\<rparr>\<rparr>" cs j x]
    by (simp add: arena_push_back_def ar1_def cap_def)
  moreover have "arena_get ?ar j = Inr x \<and> (\<not> b \<longrightarrow> (\<forall>k. k \<noteq> j \<longrightarrow> arena_get ?ar k = Inl Undefined))"
    using cs i j by (auto simp: arena_get_def cell_get_def)
  moreover have "vcap (ar_data ?ar) = cap"
    using assms(4) cap(4) by (auto simp: ar1_def arena_resize_def reserve_def Let_def split: option.splits)
  ultimately show ?thesis
    using j by (intro exI [of _ j] exI [of _ ?ar]) (simp add: cap_def i_def split: if_splits)
qed

definition full_arena :: "nat arena" where
  "full_arena = \<lparr>ar_data = \<lparr>vdata = Some (replicate 64 (Some 10)), vsize = 0, vcap = 64\<rparr>,
     ar_slots = \<lparr>hb_bm = \<lparr>buffer = [- 1], sz = 64\<rparr>, hb_vsize = 0\<rparr>\<rparr>"

theorem arena_growth_loses_items_witness:
  "arena_get full_arena 1 = Inr 10 \<and> (\<exists>ar'. arena_push_back False full_arena 20 = Inr (0, ar') \<and> arena_get ar' 1 = Inl Undefined)"
proof -
  have ok: "arena_ok full_arena" "slots_fit (ar_slots full_arena)" "vsize (ar_data full_arena) = 0"
    "\<forall>i < sz (hb_bm (ar_slots full_arena)). bits (hb_bm (ar_slots full_arena)) i"
    by (auto simp: arena_ok_def slots_fit_def full_arena_def bitmap_wf_def bits_def Let_def)
  show ?thesis
    using arena_growth_loses_items [OF ok(1,4,2,3), of False 20] by (auto simp: full_arena_def arena_get_def cell_get_def)
qed

end
