(* ===== verification/HashMap.thy ===== *)
theory HashMap
  imports LinkedList KString
begin

text \<open>
  The hash functions and the container \<^verbatim>\<open>HashMap\<close> of \<^verbatim>\<open>util/storage.hh\<close>: a vector of linked lists of
  pairs. The operator \<^verbatim>\<open>[]\<close> returns a reference, here the bucket and the link that hold the pair.
\<close>

section \<open>Hash functions\<close>

function pow128_loop :: "nat \<Rightarrow> nat \<Rightarrow> nat \<Rightarrow> nat" where
  "pow128_loop a b num = (if b = 0 then num else pow128_loop a (b - 1) (num * a mod 2 ^ 128))"
  by pat_completeness auto
termination
  by (relation "measure (\<lambda>(a, b, num). b)") auto

declare pow128_loop.simps [simp del]

definition pow128 :: "nat \<Rightarrow> nat \<Rightarrow> nat" where
  "pow128 a b = pow128_loop a b 1"

definition hash_u64 :: "nat \<Rightarrow> nat \<Rightarrow> nat" where
  "hash_u64 key n = key mod n"

definition valueperchar :: nat where
  "valueperchar = 53"

text \<open>Characters are signed.\<close>

definition schar :: "char \<Rightarrow> int" where
  "schar c = (if ch c < 128 then int (ch c) else int (ch c) - 256)"

text \<open>The first character is taken before the loop tests for the terminator.\<close>

fun hash_cstr_loop :: "string \<Rightarrow> nat \<Rightarrow> int \<Rightarrow> int" where
  "hash_cstr_loop [] i acc = acc"
| "hash_cstr_loop (c # s) i acc =
     (if c = NUL then acc
      else hash_cstr_loop s (i + 1) ((acc + int (pow128 valueperchar i) * schar c) mod 2 ^ 64))"

definition hash_cstr :: "string \<Rightarrow> nat \<Rightarrow> nat res" where
  "hash_cstr s n =
     (if s = [] then Inl Undefined
      else Inr (nat (hash_cstr_loop (tl s) 1 (schar (hd s) mod 2 ^ 64)) mod n))"

fun hash_string_loop :: "string \<Rightarrow> nat \<Rightarrow> int \<Rightarrow> int" where
  "hash_string_loop [] i acc = acc"
| "hash_string_loop (c # s) i acc =
     hash_string_loop s (i + 1) ((acc + int (pow128 valueperchar i) * schar c) mod 2 ^ 64)"

definition hash_string :: "string \<Rightarrow> nat \<Rightarrow> nat" where
  "hash_string s n = nat (hash_string_loop s 0 0) mod n"

section \<open>The map\<close>

type_synonym ('k, 'v) bucket = "('k \<times> 'v) llist"

record ('k, 'v) hashmap =
  entries :: "('k, 'v) bucket vec"
  hm_size :: nat

definition hm_defsize :: nat where
  "hm_defsize = 1024"

definition hm_new :: "bool \<Rightarrow> nat \<Rightarrow> ('k, 'v) hashmap res" where
  "hm_new b n = rbind (resize b ll_empty (vec_cap n) n) (\<lambda>v. Inr \<lparr>entries = v, hm_size = n\<rparr>)"

definition hm_default :: "bool \<Rightarrow> ('k, 'v) hashmap res" where
  "hm_default b = hm_new b hm_defsize"

text \<open>The search loops over a bucket end at the flagged link or at the key. A bucket in which no link is flagged is
  searched in a circle, so as many steps as it has links are enough to see that a search does not end.\<close>

fun find_link :: "nat \<Rightarrow> ('k, 'v) bucket \<Rightarrow> 'k \<Rightarrow> nat option \<Rightarrow> nat option res" where
  "find_link fuel l k None = Inr None"
| "find_link 0 l k (Some a) = Inl Hang"
| "find_link (Suc fuel) l k (Some a) =
     rbind (link_at l (Some a)) (\<lambda>a.
     if fst (ldata (ll_links l a)) = k then Inr (Some a) else find_link fuel l k (iter_next l a))"

type_synonym 'k hashfun = "'k \<Rightarrow> nat \<Rightarrow> nat"

definition hm_ref :: "'k hashfun \<Rightarrow> 'v \<Rightarrow> ('k, 'v) hashmap \<Rightarrow> 'k \<Rightarrow> nat \<Rightarrow> ((nat \<times> nat) \<times> ('k, 'v) hashmap) res" where
  "hm_ref h dflt m key addr =
     (let b = h key (hm_size m) in
      rbind (vec_at (entries m) b) (\<lambda>l.
      if ll_size l = 0
      then rbind (ll_push_front l addr (key, dflt)) (\<lambda>l.
           rbind (vec_store (entries m) b l) (\<lambda>v. Inr ((b, addr), m\<lparr>entries := v\<rparr>)))
      else rbind (find_link (ll_size l) l key (ll_first l)) (\<lambda>r.
           case r of Some a \<Rightarrow> Inr ((b, a), m) | None \<Rightarrow> Inl (Fatal ''Nincs ilyen elem!''))))"

definition ref_get :: "('k, 'v) hashmap \<Rightarrow> nat \<times> nat \<Rightarrow> 'v res" where
  "ref_get m r = rbind (vec_at (entries m) (fst r)) (\<lambda>l. Inr (snd (ldata (ll_links l (snd r)))))"

definition ref_put :: "('k, 'v) hashmap \<Rightarrow> nat \<times> nat \<Rightarrow> 'v \<Rightarrow> ('k, 'v) hashmap res" where
  "ref_put m r x =
     rbind (vec_at (entries m) (fst r)) (\<lambda>l.
     let n = ll_links l (snd r); l = set_link l (snd r) (n\<lparr>ldata := (fst (ldata n), x)\<rparr>) in
     rbind (vec_store (entries m) (fst r) l) (\<lambda>v. Inr (m\<lparr>entries := v\<rparr>)))"

definition hm_has :: "'k hashfun \<Rightarrow> ('k, 'v) hashmap \<Rightarrow> 'k \<Rightarrow> bool res" where
  "hm_has h m key =
     rbind (vec_at (entries m) (h key (hm_size m))) (\<lambda>l.
     rbind (find_link (ll_size l) l key (ll_first l)) (\<lambda>r. Inr (r \<noteq> None)))"

text \<open>Removal follows \<^verbatim>\<open>next\<close> until it is back at the first link.\<close>

fun ring_find :: "nat \<Rightarrow> ('k, 'v) bucket \<Rightarrow> 'k \<Rightarrow> nat \<Rightarrow> nat \<Rightarrow> nat option res" where
  "ring_find 0 l k f a = Inl Hang"
| "ring_find (Suc fuel) l k f a =
     rbind (link_at l (Some a)) (\<lambda>a.
     if fst (ldata (ll_links l a)) = k then Inr (Some a)
     else case nxt (ll_links l a) of
            None \<Rightarrow> Inl Undefined
          | Some n \<Rightarrow> if n = f then Inr None else ring_find fuel l k f n)"

definition hm_remove :: "'k hashfun \<Rightarrow> ('k, 'v) hashmap \<Rightarrow> 'k \<Rightarrow> ('k, 'v) hashmap res" where
  "hm_remove h m key =
     (let b = h key (hm_size m) in
      rbind (vec_at (entries m) b) (\<lambda>l.
      if ll_size l = 0 then Inl (Fatal ''Tried to delete non-existent element!'')
      else rbind (ll_get_link l 0) (\<lambda>f.
           rbind (ring_find (ll_size l) l key f f) (\<lambda>r.
           case r of
             None \<Rightarrow> Inl (Fatal ''Element not found!'')
           | Some a \<Rightarrow> rbind (ll_remove l a) (\<lambda>l. rbind (vec_store (entries m) b l) (\<lambda>v. Inr (m\<lparr>entries := v\<rparr>)))))))"

text \<open>All pairs in the order of the buckets, as the iterator visits them.\<close>

fun bucket_pairs :: "('k, 'v) bucket list \<Rightarrow> ('k \<times> 'v) list res" where
  "bucket_pairs [] = Inr []"
| "bucket_pairs (l # ls) =
     rbind (ll_iter (ll_size l) l (ll_first l)) (\<lambda>as.
     rbind (bucket_pairs ls) (\<lambda>ps. Inr (map (\<lambda>a. ldata (ll_links l a)) as @ ps)))"

definition hm_pairs :: "('k, 'v) hashmap \<Rightarrow> ('k \<times> 'v) list res" where
  "hm_pairs m = bucket_pairs (vec_list (entries m))"

section \<open>Correctness\<close>

text \<open>Since a new key only ever enters an empty bucket, no bucket holds more than one pair.\<close>

definition bucket_holds :: "('k, 'v) bucket \<Rightarrow> ('k \<times> 'v) option \<Rightarrow> bool" where
  "bucket_holds l r =
     (case r of
        None \<Rightarrow> ll_rep l []
      | Some p \<Rightarrow> \<exists>a. ll_rep l [a] \<and> ldata (ll_links l a) = p)"

definition hm_rep :: "'k hashfun \<Rightarrow> ('k, 'v) hashmap \<Rightarrow> ('k \<times> 'v) option list \<Rightarrow> bool" where
  "hm_rep h m rs =
     (vec_ok (entries m) \<and> list_all2 bucket_holds (vec_list (entries m)) rs \<and> hm_size m = length rs \<and>
      (\<forall>i p. i < length rs \<and> rs ! i = Some p \<longrightarrow> h (fst p) (length rs) = i))"

definition hm_map :: "'k hashfun \<Rightarrow> ('k \<times> 'v) option list \<Rightarrow> 'k \<Rightarrow> 'v option" where
  "hm_map h rs k =
     (case rs ! h k (length rs) of None \<Rightarrow> None | Some (k', v) \<Rightarrow> if k' = k then Some v else None)"

lemma ll_empty_rep: "ll_rep ll_empty []"
  by (simp add: ll_rep_def ll_empty_def ring_def)

lemma hm_new_ok:
  obtains m where "hm_new b n = Inr m" "hm_rep h m (replicate n None)"
proof -
  let ?v = "vec_cap n :: ('a, 'b) bucket vec"
  obtain v where v: "resize b ll_empty ?v n = Inr v" "vec_ok v"
    "vec_list v = take n (vec_list ?v) @ replicate (n - vsize ?v) ll_empty"
    by (rule resize_ok [OF vec_cap_ok(1)])
  have "vec_list v = replicate n ll_empty" using v(3) by (simp add: vec_cap_def vec_list_def)
  then have "hm_rep h \<lparr>entries = v, hm_size = n\<rparr> (replicate n None)"
    using v(2) by (auto simp: hm_rep_def bucket_holds_def ll_empty_rep list_all2_conv_all_nth)
  then show ?thesis using that v(1) by (simp add: hm_new_def)
qed

lemma hm_bucket:
  assumes "hm_rep h m rs" "i < length rs"
  obtains l where "vec_at (entries m) i = Inr l" "bucket_holds l (rs ! i)" "vec_list (entries m) ! i = l"
proof -
  have "length (vec_list (entries m)) = length rs" "vec_ok (entries m)"
    using assms(1) by (auto simp: hm_rep_def dest: list_all2_lengthD)
  then show ?thesis
    using that vec_at_ok [of "entries m" i] assms by (auto simp: hm_rep_def list_all2_conv_all_nth)
qed

lemma hm_store:
  assumes "hm_rep h m rs" "i < length rs" "bucket_holds l r" "\<And>p. r = Some p \<Longrightarrow> h (fst p) (length rs) = i"
  obtains v where "vec_store (entries m) i l = Inr v" "hm_rep h (m\<lparr>entries := v\<rparr>) (rs[i := r])"
    "vec_list v = (vec_list (entries m))[i := l]" "vec_ok v"
proof -
  have len: "length (vec_list (entries m)) = length rs" and ok: "vec_ok (entries m)"
    using assms(1) by (auto simp: hm_rep_def dest: list_all2_lengthD)
  then have "i < vsize (entries m)" using assms(2) by simp
  from vec_store_ok [OF ok this, of l] obtain v where v: "vec_store (entries m) i l = Inr v" "vec_ok v"
    "vec_list v = (vec_list (entries m))[i := l]" by blast
  moreover have "hm_rep h (m\<lparr>entries := v\<rparr>) (rs[i := r])"
    using assms v(2,3) by (auto simp: hm_rep_def nth_list_update intro!: list_all2_update_cong)
  ultimately show ?thesis using that by blast
qed

lemma find_link_empty: "ll_rep l [] \<Longrightarrow> find_link n l k (ll_first l) = Inr None"
  by (simp add: ll_rep_def)

lemma find_link_single:
  assumes "ll_rep l [a]"
  shows "find_link (Suc n) l k (ll_first l) = Inr (if fst (ldata (ll_links l a)) = k then Some a else None)"
    "ring_find (Suc n) l k a a = Inr (if fst (ldata (ll_links l a)) = k then Some a else None)"
    "ll_get_link l 0 = Inr a"
  using assms by (auto simp: ll_rep_def link_at_def iter_next_def ring_def ll_get_link_def)

lemma ref_put_bucket:
  assumes "ll_rep l [a]"
  shows "bucket_holds (set_link l a ((ll_links l a)\<lparr>ldata := p\<rparr>)) (Some p)"
  using assms by (auto simp: bucket_holds_def ll_rep_def set_link_def ring_def intro!: exI [of _ a])

text \<open>The statement \<^verbatim>\<open>m[key] = x\<close>.\<close>

definition hm_put :: "'k hashfun \<Rightarrow> 'v \<Rightarrow> ('k, 'v) hashmap \<Rightarrow> 'k \<Rightarrow> nat \<Rightarrow> 'v \<Rightarrow> ('k, 'v) hashmap res" where
  "hm_put h dflt m key addr x = rbind (hm_ref h dflt m key addr) (\<lambda>(r, m). ref_put m r x)"

lemma hm_ref_ok:
  assumes rep: "hm_rep h m rs" and i: "h k (length rs) = i" "i < length rs"
    and fresh: "\<And>l. vec_at (entries m) i = Inr l \<Longrightarrow> addr \<notin> ll_live l"
  shows "case rs ! i of
      None \<Rightarrow> \<exists>m'. hm_ref h d m k addr = Inr ((i, addr), m') \<and> hm_rep h m' (rs[i := Some (k, d)]) \<and>
        ll_rep (vec_list (entries m') ! i) [addr]
    | Some (k', v) \<Rightarrow> if k' = k then \<exists>a. hm_ref h d m k addr = Inr ((i, a), m) \<and> ll_rep (vec_list (entries m) ! i) [a]
        else hm_ref h d m k addr = Inl (Fatal ''Nincs ilyen elem!'')"
proof -
  have n: "hm_size m = length rs" "vec_ok (entries m)" "length (vec_list (entries m)) = length rs"
    using rep by (auto simp: hm_rep_def dest: list_all2_lengthD)
  obtain l where l: "vec_at (entries m) i = Inr l" "bucket_holds l (rs ! i)" "vec_list (entries m) ! i = l"
    by (rule hm_bucket [OF rep i(2)])
  show ?thesis
  proof (cases "rs ! i")
    case None
    then have e: "ll_rep l []" "ll_size l = 0" using l(2) by (simp_all add: bucket_holds_def ll_rep_def)
    obtain l' where l': "ll_push_front l addr (k, d) = Inr l'" "ll_rep l' [addr]" "ll_contents l' [addr] = [(k, d)]"
      using push_front_ok [OF e(1) fresh [OF l(1)], of "(k, d)"] by (auto simp: ll_contents_def)
    have h: "bucket_holds l' (Some (k, d))" using l'(2,3) by (auto simp: bucket_holds_def ll_contents_def)
    obtain v where v: "vec_store (entries m) i l' = Inr v" "hm_rep h (m\<lparr>entries := v\<rparr>) (rs[i := Some (k, d)])"
      "vec_list v = (vec_list (entries m))[i := l']" "vec_ok v"
      by (rule hm_store [OF rep i(2) h]) (use i(1) in auto)
    have "hm_ref h d m k addr = Inr ((i, addr), m\<lparr>entries := v\<rparr>)"
      by (simp add: hm_ref_def n(1) i(1) l(1) e(2) l'(1) v(1))
    then show ?thesis using None v(2,3) l'(2) i(2) n(3) by simp
  next
    case (Some p)
    then obtain a where a: "ll_rep l [a]" "ldata (ll_links l a) = p" using l(2) by (auto simp: bucket_holds_def)
    have s: "ll_size l = Suc 0" using a(1) by (simp add: ll_rep_def)
    obtain k' v where p: "p = (k', v)" by (cases p)
    show ?thesis
      using Some find_link_single(1) [OF a(1), of 0 k] a l(3) p
      by (auto simp: hm_ref_def n(1) i(1) l(1) s)
  qed
qed

lemma hm_map_put:
  assumes "h k (length rs) < length rs" "\<And>k' v. rs ! h k (length rs) = Some (k', v) \<Longrightarrow> k' = k"
  shows "hm_map h (rs[h k (length rs) := Some (k, x)]) = (hm_map h rs)(k \<mapsto> x)"
    "hm_map h (rs[h k (length rs) := None]) = (hm_map h rs)(k := None)"
  using assms by (auto simp: hm_map_def fun_eq_iff nth_list_update split: option.splits)

lemma ref_put_ok:
  assumes "hm_rep h m rs" "h k (length rs) < length rs" "rs ! h k (length rs) = Some (k, y)"
    "ll_rep (vec_list (entries m) ! h k (length rs)) [a]"
  obtains m' where "ref_put m (h k (length rs), a) x = Inr m'" "hm_rep h m' (rs[h k (length rs) := Some (k, x)])"
proof -
  let ?i = "h k (length rs)"
  obtain l where l: "vec_at (entries m) ?i = Inr l" "bucket_holds l (rs ! ?i)" "vec_list (entries m) ! ?i = l"
    by (rule hm_bucket [OF assms(1,2)])
  have a: "ll_rep l [a]" using assms(4) l(3) by simp
  then have d: "ldata (ll_links l a) = (k, y)"
    using l(2) assms(3) by (auto simp: bucket_holds_def ll_rep_def)
  note h = ref_put_bucket [OF a, of "(k, x)"]
  obtain v where v: "vec_store (entries m) ?i (set_link l a ((ll_links l a)\<lparr>ldata := (k, x)\<rparr>)) = Inr v"
    "hm_rep h (m\<lparr>entries := v\<rparr>) (rs[?i := Some (k, x)])"
    by (rule hm_store [OF assms(1,2) h]) auto
  then show ?thesis using that l(1) d by (simp add: ref_put_def)
qed

section \<open>Properties\<close>

text \<open>C23: A hash map that started empty stands for a partial map with at most one key per bucket. For a key that is present
  or whose bucket is empty, assignment updates the map at the key; for any other key it stops, although there is room.
  \<^verbatim>\<open>has\<close> tells whether a key is present, and \<^verbatim>\<open>remove\<close> removes a key that is present and stops on others.\<close>

theorem hashmap_spec:
  assumes rep: "hm_rep h m rs" and i: "h k (length rs) < length rs"
    and fresh: "\<And>l. vec_at (entries m) (h k (length rs)) = Inr l \<Longrightarrow> addr \<notin> ll_live l"
  shows "hm_has h m k = Inr (hm_map h rs k \<noteq> None) \<and>
    (if rs ! h k (length rs) = None \<or> hm_map h rs k \<noteq> None
     then \<exists>m' rs'. hm_put h d m k addr x = Inr m' \<and> hm_rep h m' rs' \<and> hm_map h rs' = (hm_map h rs)(k \<mapsto> x)
     else hm_put h d m k addr x = Inl (Fatal ''Nincs ilyen elem!'')) \<and>
    (if hm_map h rs k \<noteq> None
     then \<exists>m' rs'. hm_remove h m k = Inr m' \<and> hm_rep h m' rs' \<and> hm_map h rs' = (hm_map h rs)(k := None)
     else \<exists>e. hm_remove h m k = Inl (Fatal e))"
proof -
  let ?i = "h k (length rs)"
  have n: "hm_size m = length rs" "length (vec_list (entries m)) = length rs"
    using rep by (auto simp: hm_rep_def dest: list_all2_lengthD)
  obtain l where l: "vec_at (entries m) ?i = Inr l" "bucket_holds l (rs ! ?i)" "vec_list (entries m) ! ?i = l"
    by (rule hm_bucket [OF rep i])
  note r = hm_ref_ok [OF rep refl i fresh, of d]
  consider "rs ! ?i = None" | v where "rs ! ?i = Some (k, v)" | k' v where "rs ! ?i = Some (k', v)" "k' \<noteq> k"
    by (cases "rs ! ?i") auto
  then show ?thesis
  proof cases
    case 1
    then have e: "ll_rep l []" "ll_size l = 0" using l(2) by (simp_all add: bucket_holds_def ll_rep_def)
    obtain m' where m': "hm_ref h d m k addr = Inr ((?i, addr), m')" "hm_rep h m' (rs[?i := Some (k, d)])"
      "ll_rep (vec_list (entries m') ! ?i) [addr]" using r 1 by auto
    obtain m'' where "ref_put m' (?i, addr) x = Inr m''" "hm_rep h m'' (rs[?i := Some (k, x)])"
      by (rule ref_put_ok [of h m' "rs[?i := Some (k, d)]" k d addr x]) (use m' i in auto)
    then have "hm_put h d m k addr x = Inr m''" "hm_rep h m'' (rs[?i := Some (k, x)])"
      by (simp_all add: hm_put_def m'(1))
    moreover have "hm_map h (rs[?i := Some (k, x)]) = (hm_map h rs)(k \<mapsto> x)"
      using hm_map_put(1) [of h k rs x] i 1 by simp
    ultimately show ?thesis
      using 1 find_link_empty [OF e(1)] e(2) by (auto simp: hm_has_def hm_remove_def n(1) l(1) hm_map_def)
  next
    case (2 v)
    then obtain b where b: "ll_rep l [b]" "ldata (ll_links l b) = (k, v)" using l(2) by (auto simp: bucket_holds_def)
    have s: "ll_size l = Suc 0" using b(1) by (simp add: ll_rep_def)
    obtain a where a: "hm_ref h d m k addr = Inr ((?i, a), m)" "ll_rep (vec_list (entries m) ! ?i) [a]"
      using r 2 by auto
    obtain m'' where "ref_put m (?i, a) x = Inr m''" "hm_rep h m'' (rs[?i := Some (k, x)])"
      by (rule ref_put_ok [OF rep i 2 a(2)])
    then have put: "hm_put h d m k addr x = Inr m''" "hm_rep h m'' (rs[?i := Some (k, x)])"
      by (simp_all add: hm_put_def a(1))
    obtain l' where l': "ll_remove l b = Inr l'" "ll_rep l' []" using remove_only [OF b(1)] by blast
    obtain w where "vec_store (entries m) ?i l' = Inr w" "hm_rep h (m\<lparr>entries := w\<rparr>) (rs[?i := None])"
      by (rule hm_store [OF rep i, of l' None]) (use l'(2) in \<open>auto simp: bucket_holds_def\<close>)
    then have "hm_remove h m k = Inr (m\<lparr>entries := w\<rparr>)" "hm_rep h (m\<lparr>entries := w\<rparr>) (rs[?i := None])"
      using find_link_single(2) [OF b(1), of 0 k] find_link_single(3) [OF b(1)] b(2) l'(1) by (simp_all add: hm_remove_def n(1) l(1) s)
    moreover have "hm_has h m k = Inr True" "hm_map h rs k = Some v"
      using find_link_single(1) [OF b(1), of 0 k] b(2) 2 by (simp_all add: hm_has_def n(1) l(1) s hm_map_def)
    ultimately show ?thesis using put hm_map_put(1) [of h k rs x] hm_map_put(2) [of h k rs] i 2 by auto
  next
    case (3 k' v)
    then obtain b where b: "ll_rep l [b]" "ldata (ll_links l b) = (k', v)" using l(2) by (auto simp: bucket_holds_def)
    have s: "ll_size l = Suc 0" using b(1) by (simp add: ll_rep_def)
    have "hm_ref h d m k addr = Inl (Fatal ''Nincs ilyen elem!'')" using r 3 by auto
    then show ?thesis
      using find_link_single(1,2) [OF b(1), of 0 k] find_link_single(3) [OF b(1)] b(2) 3
      by (simp add: hm_put_def hm_has_def hm_remove_def n(1) l(1) s hm_map_def)
  qed
qed

theorem hashmap_spec_witness:
  "\<exists>m. hm_new True 8 = Inr m \<and>
    (\<exists>m' rs'. hm_put hash_u64 (0 :: nat) m 11 1 7 = Inr m' \<and> hm_rep hash_u64 m' rs' \<and> hm_map hash_u64 rs' 11 = Some 7)"
proof -
  obtain m :: "(nat, nat) hashmap" where m: "hm_new True 8 = Inr m" "hm_rep hash_u64 m (replicate 8 None)"
    by (rule hm_new_ok)
  have i: "hash_u64 11 (length (replicate 8 (None :: (nat \<times> nat) option))) = 3" by (simp add: hash_u64_def)
  have v: "vec_at (entries m) 3 = Inr ll_empty"
    using m(1) by (simp add: hm_new_def resize_def reserve_def vec_cap_def Let_def eval_nat_numeral vec_place_def cell_put_def)
      (auto simp: vec_at_def cell_get_def)
  have "l = ll_empty" if "vec_at (entries m) 3 = Inr l" for l using that v by simp
  then have f: "1 \<notin> ll_live l" if "vec_at (entries m) 3 = Inr l" for l using that by (simp add: ll_empty_def)
  have "\<exists>m' rs'. hm_put hash_u64 (0 :: nat) m 11 1 7 = Inr m' \<and> hm_rep hash_u64 m' rs' \<and>
      hm_map hash_u64 rs' = (hm_map hash_u64 (replicate 8 None))(11 \<mapsto> 7)"
    using hashmap_spec [OF m(2), of 11 1 0 7] f unfolding i by simp
  then show ?thesis using m(1) by (metis fun_upd_same)
qed

end
