(* ===== verification/Fs.thy ===== *)
theory Fs
  imports HashMap
begin

text \<open>
  Paths and mount points (\<^verbatim>\<open>fs/fs.cc\<close>) and the file system in memory (\<^verbatim>\<open>fs/vfs.cc\<close>). A \<^verbatim>\<open>String\<close> is the list of
  its characters here; what its operations do to their buffers is in \<open>KString\<close>. A directory is the list of
  buckets that \<open>hm_rep\<close> assigns to its \<^verbatim>\<open>HashMap\<close>. File systems in modules are reached through the table of calls.
\<close>

section \<open>Paths\<close>

definition slash :: char where
  "slash = CHR ''/''"

function path_sanitize :: "string \<Rightarrow> string" where
  "path_sanitize p =
     (if deref p = NUL then []
      else if deref p = slash then slash # path_sanitize (dropWhile (\<lambda>c. c = slash) p)
      else deref p # path_sanitize (tl p))"
  by pat_completeness auto
termination
proof (relation "measure length", goal_cases)
  case 1
  show ?case by simp
next
  case (2 p)
  then show ?case by (cases p) (auto simp: slash_def intro: le_imp_less_Suc length_dropWhile_le)
next
  case (3 p)
  then show ?case by (cases p) (auto simp: deref_def)
qed

declare path_sanitize.simps [simp del]

text \<open>Constructing a string from a pointer takes its length from \<^verbatim>\<open>strlen\<close>.\<close>

definition str_of :: "string \<Rightarrow> string" where
  "str_of p = take (unat (strlen p)) p"

text \<open>The path is changed in place; the result is the off of the last segment and the path.\<close>

primrec name_start :: "string \<Rightarrow> nat \<Rightarrow> nat" where
  "name_start s 0 = 0"
| "name_start s (Suc b) = (if s ! Suc b \<noteq> slash then name_start s b else Suc b)"

definition path_basename :: "string \<Rightarrow> (nat \<times> string) res" where
  "path_basename path =
     (let b = length path in
      if b = 0 then Inl Undefined
      else
        let (s, b) = (if path ! (b - 1) = slash then (take (b - 1) path, b - 1) else (path, b)) in
        if b = 0 then Inl Undefined
        else
          let b = name_start s (b - 1);
              b = (if s ! b = slash then b + 1 else b);
              n = length (takeWhile (\<lambda>c. c \<noteq> slash) (drop b s))
          in Inr (b, take (b + n) s))"

definition path_join :: "string \<Rightarrow> string \<Rightarrow> string res" where
  "path_join path1 path2 =
     (let ret = str_of path1 in
      if ret = [] then Inl (Fatal ''vector access out of bounds!'')
      else Inr ((if last ret \<noteq> slash then ret @ [slash] else ret) @ str_of path2))"

section \<open>Mount points\<close>

record fs_entry =
  fe_name :: string
  fe_dir :: bool

datatype FilesystemType = CUSTOM | VFS

text \<open>The calls work on the state \<open>'h\<close> behind the handle. A null buffer is \<open>None\<close> or \<open>False\<close>.\<close>

record 'h fs_calltable =
  c_read :: "'h \<Rightarrow> string \<Rightarrow> nat \<Rightarrow> nat \<Rightarrow> bool \<Rightarrow> (nat \<times> 8 word list) res"
  c_write :: "'h \<Rightarrow> string \<Rightarrow> nat \<Rightarrow> nat \<Rightarrow> 8 word list option \<Rightarrow> (nat \<times> 'h) res"
  c_remove :: "'h \<Rightarrow> string \<Rightarrow> 'h res"
  c_create :: "'h \<Rightarrow> string \<Rightarrow> bool \<Rightarrow> 'h res"
  c_readdir :: "'h \<Rightarrow> string \<Rightarrow> fs_entry list res"
  c_readmeta :: "'h \<Rightarrow> string \<Rightarrow> fs_entry option res"

record 'h mountpoint =
  m_calls :: "'h fs_calltable"
  m_handle :: 'h
  m_path :: string

text \<open>\<open>find_loop\<close> is the loop over the mount points from number \<open>i\<close> on with the closest one so far.\<close>

fun find_loop :: "'h mountpoint list \<Rightarrow> string \<Rightarrow> string \<Rightarrow> nat \<Rightarrow> nat \<Rightarrow> 'h mountpoint list \<Rightarrow> nat" where
  "find_loop mpts p san closest i [] = closest"
| "find_loop mpts p san closest i (m # ms) =
     (if length (m_path m) > length san then find_loop mpts p san closest (i + 1) ms
      else
        let len = length (cstr (m_path m)) in
        if strncmp p san len = 0 \<and> length (m_path (mpts ! closest)) < length (m_path m)
        then find_loop mpts p san i (i + 1) ms
        else find_loop mpts p san closest (i + 1) ms)"

definition fs_find_mnt :: "'h mountpoint list \<Rightarrow> string \<Rightarrow> nat res" where
  "fs_find_mnt mpts p =
     (let san = path_sanitize p in
      if mpts = [] then Inl (Fatal ''Assert failed: mountpts.size'')
      else Inr (find_loop mpts p san 0 0 mpts))"

text \<open>\<open>try_mount\<close> is \<^verbatim>\<open>devmgr_try_mount\<close>, \<open>vfs_mnt\<close> the result of \<^verbatim>\<open>vfs_mount\<close>; both fill in the table and the handle.\<close>

definition fs_mount :: "('p \<Rightarrow> ('h fs_calltable \<times> 'h) res) \<Rightarrow> 'h fs_calltable \<times> 'h \<Rightarrow> 'h mountpoint list \<Rightarrow>
    'p \<Rightarrow> string \<Rightarrow> FilesystemType \<Rightarrow> 'h mountpoint list res" where
  "fs_mount try_mount vfs_mnt mpts p mnt fstype =
     (let path = path_sanitize mnt in
      rbind (if fstype = CUSTOM then try_mount p else Inr vfs_mnt) (\<lambda>(calls, h).
      Inr (mpts @ [\<lparr>m_calls = calls, m_handle = h, m_path = path\<rparr>])))"

text \<open>The rest of the path behind the mount point.\<close>

definition path_within :: "'h mountpoint \<Rightarrow> string \<Rightarrow> string res" where
  "path_within m p =
     (if length (m_path m) > length p then Inl Undefined
      else let path2 = drop (length (m_path m)) p in Inr (if deref path2 = NUL then ''/'' else path2))"

definition set_handle :: "'h mountpoint list \<Rightarrow> nat \<Rightarrow> 'h \<Rightarrow> 'h mountpoint list" where
  "set_handle mpts i h = mpts[i := (mpts ! i)\<lparr>m_handle := h\<rparr>]"

definition fs_create :: "'h mountpoint list \<Rightarrow> string \<Rightarrow> bool \<Rightarrow> 'h mountpoint list res" where
  "fs_create mpts p mkdir =
     rbind (fs_find_mnt mpts p) (\<lambda>i. let m = mpts ! i in
     rbind (path_within m p) (\<lambda>path2.
     rbind (c_readmeta (m_calls m) (m_handle m) path2) (\<lambda>meta.
     if meta \<noteq> None then Inl (Fatal ''File already exists!'')
     else rbind (c_create (m_calls m) (m_handle m) path2 mkdir) (\<lambda>h. Inr (set_handle mpts i h)))))"

definition fs_readmeta :: "'h mountpoint list \<Rightarrow> string \<Rightarrow> fs_entry option res" where
  "fs_readmeta mpts p =
     rbind (fs_find_mnt mpts p) (\<lambda>i. let m = mpts ! i in
     rbind (path_within m p) (\<lambda>path2. c_readmeta (m_calls m) (m_handle m) path2))"

definition fs_readdir :: "'h mountpoint list \<Rightarrow> string \<Rightarrow> fs_entry list res" where
  "fs_readdir mpts p =
     rbind (fs_find_mnt mpts p) (\<lambda>i. let m = mpts ! i in
     rbind (path_within m p) (\<lambda>path2. c_readdir (m_calls m) (m_handle m) path2))"

definition fs_write :: "'h mountpoint list \<Rightarrow> string \<Rightarrow> nat \<Rightarrow> nat \<Rightarrow> 8 word list option \<Rightarrow> (nat \<times> 'h mountpoint list) res" where
  "fs_write mpts p off bytes buf =
     rbind (fs_find_mnt mpts p) (\<lambda>i. let m = mpts ! i in
     rbind (path_within m p) (\<lambda>path2.
     rbind (c_write (m_calls m) (m_handle m) path2 off bytes buf) (\<lambda>(n, h). Inr (n, set_handle mpts i h))))"

definition fs_read :: "'h mountpoint list \<Rightarrow> string \<Rightarrow> nat \<Rightarrow> nat \<Rightarrow> bool \<Rightarrow> (nat \<times> 8 word list) res" where
  "fs_read mpts p off bytes buf =
     rbind (fs_find_mnt mpts p) (\<lambda>i. let m = mpts ! i in
     rbind (path_within m p) (\<lambda>path2. c_read (m_calls m) (m_handle m) path2 off bytes buf))"

section \<open>The file system in memory\<close>

text \<open>
  A directory created in another one is assigned from a temporary: the variant copies the bytes of the
  hash map and the destructor of the temporary frees its buckets. \<open>Dangling\<close> is such a directory.
\<close>

datatype vfs_entry = Entry (e_name: string) (e_content: vfs_content)
and vfs_content = Vacant | Folder "(string \<times> vfs_entry) option list" | Dangling | Content "8 word list"

definition content_active :: "vfs_content \<Rightarrow> nat" where
  "content_active c = (case c of Vacant \<Rightarrow> 255 | Folder _ \<Rightarrow> 0 | Dangling \<Rightarrow> 0 | Content _ \<Rightarrow> 1)"

definition get_dir :: "vfs_content \<Rightarrow> (string \<times> vfs_entry) option list res" where
  "get_dir c =
     (case c of
        Vacant \<Rightarrow> Inl (Fatal ''variant has no active element!'')
      | Folder d \<Rightarrow> Inr d
      | Dangling \<Rightarrow> Inl Undefined
      | Content _ \<Rightarrow> Inl (Fatal ''Type mismatch!''))"

definition get_file :: "vfs_content \<Rightarrow> 8 word list res" where
  "get_file c =
     (case c of
        Vacant \<Rightarrow> Inl (Fatal ''variant has no active element!'')
      | Content bs \<Rightarrow> Inr bs
      | _ \<Rightarrow> Inl (Fatal ''Type mismatch!''))"

definition name_slot :: "(string \<times> vfs_entry) option list \<Rightarrow> string \<Rightarrow> nat" where
  "name_slot d k = hash_string k (length d)"

definition dir_put :: "(string \<times> vfs_entry) option list \<Rightarrow> string \<Rightarrow> vfs_entry \<Rightarrow> (string \<times> vfs_entry) option list res" where
  "dir_put d k e =
     (case d ! name_slot d k of
        None \<Rightarrow> Inr (d[name_slot d k := Some (k, e)])
      | Some (k', _) \<Rightarrow> if k' = k then Inr (d[name_slot d k := Some (k, e)]) else Inl (Fatal ''Nincs ilyen elem!''))"

text \<open>A pointer into the tree is the list of names that leads to the entry.\<close>

function vfs_walk :: "vfs_entry \<Rightarrow> string \<Rightarrow> string list \<Rightarrow> string list option res" where
  "vfs_walk e path route =
     (if deref path = NUL then Inr (Some route)
      else
        let path = (if deref path = slash then tl path else path) in
        if deref path = NUL then Inr (Some route)
        else
          let namelen = length (takeWhile (\<lambda>c. c \<noteq> slash \<and> c \<noteq> NUL) path); k = take namelen path in
          rbind (get_dir (e_content e)) (\<lambda>d.
          case hm_map hash_string d k of
            None \<Rightarrow> Inr None
          | Some e \<Rightarrow> vfs_walk e (drop namelen path) (route @ [k])))"
  by pat_completeness auto
termination
proof (relation "measure (\<lambda>(e, path, route). length path)", goal_cases)
  case 1
  show ?case by simp
next
  case (2 e path path' namelen k d e')
  then show ?case by (cases path) (auto simp: deref_def split: if_splits)
qed

declare vfs_walk.simps [simp del]

definition vfs_lookup :: "vfs_entry \<Rightarrow> string \<Rightarrow> string list option res" where
  "vfs_lookup root path = vfs_walk root path []"

text \<open>Dereferencing a pointer, and the tree after a change of the entry it leads to.\<close>

fun entry_at :: "vfs_entry \<Rightarrow> string list \<Rightarrow> vfs_entry res" where
  "entry_at e [] = Inr e"
| "entry_at e (k # ks) =
     rbind (get_dir (e_content e)) (\<lambda>d.
     case hm_map hash_string d k of None \<Rightarrow> Inl Undefined | Some e' \<Rightarrow> entry_at e' ks)"

fun put_at :: "vfs_entry \<Rightarrow> string list \<Rightarrow> vfs_entry \<Rightarrow> vfs_entry res" where
  "put_at e [] x = Inr x"
| "put_at e (k # ks) x =
     rbind (get_dir (e_content e)) (\<lambda>d.
     case hm_map hash_string d k of
       None \<Rightarrow> Inl Undefined
     | Some e' \<Rightarrow> rbind (put_at e' ks x) (\<lambda>e'.
         Inr (Entry (e_name e) (Folder (d[name_slot d k := Some (k, e')])))))"

definition deref_entry :: "vfs_entry \<Rightarrow> string list option \<Rightarrow> (string list \<times> vfs_entry) res" where
  "deref_entry root r =
     (case r of None \<Rightarrow> Inl Undefined | Some ks \<Rightarrow> rbind (entry_at root ks) (\<lambda>e. Inr (ks, e)))"

definition vfs_read :: "vfs_entry \<Rightarrow> string \<Rightarrow> nat \<Rightarrow> nat \<Rightarrow> bool \<Rightarrow> (nat \<times> 8 word list) res" where
  "vfs_read root path off bytes buf =
     rbind (vfs_lookup root path) (\<lambda>r. rbind (deref_entry root r) (\<lambda>(ks, e).
     if content_active (e_content e) = 0 then Inr (NPOS, [])
     else rbind (get_file (e_content e)) (\<lambda>bs.
       if \<not> buf then Inr (sub64 (length bs) off, [])
       else if bs \<noteq> [] \<and> bytes \<noteq> 0
       then if off > length bs then Inr (NPOS, [])
            else if add64 off bytes > length bs then Inr (NPOS, [])
            else let toread = min bytes (length bs) in
                 if off + toread \<le> length bs then Inr (toread, take toread (drop off bs)) else Inl Undefined
       else Inr (0, []))))"

text \<open>Writing behind the end of the file fills the gap with zeros.\<close>

definition vfs_write :: "vfs_entry \<Rightarrow> string \<Rightarrow> nat \<Rightarrow> nat \<Rightarrow> 8 word list option \<Rightarrow> (nat \<times> vfs_entry) res" where
  "vfs_write root path off bytes buf =
     rbind (vfs_lookup root path) (\<lambda>r. rbind (deref_entry root r) (\<lambda>(ks, e).
     if content_active (e_content e) = 0 then Inr (NPOS, root)
     else rbind (get_file (e_content e)) (\<lambda>bs.
       case buf of
         None \<Rightarrow> Inr (0, root)
       | Some src \<Rightarrow>
           if bytes = 0 then Inr (0, root)
           else
             let n = add64 off bytes;
                 bs = (if length bs < n then bs @ replicate (n - length bs) 0 else bs)
             in
             if length src < bytes \<or> length bs < off + bytes then Inl Undefined
             else
               let bs = take off bs @ take bytes src @ drop (off + bytes) bs in
               rbind (put_at root ks (Entry (e_name e) (Content bs))) (\<lambda>root. Inr (bytes, root)))))"

text \<open>The folder a path lies in, and the name within it.\<close>

definition vfs_parent :: "vfs_entry \<Rightarrow> string \<Rightarrow> (string \<times> string list \<times> vfs_entry) res" where
  "vfs_parent root path =
     rbind (path_basename path) (\<lambda>(b, path).
     rbind (vfs_lookup root (take b path)) (\<lambda>r.
     rbind (deref_entry root r) (\<lambda>(ks, e). Inr (drop b path, ks, e))))"

definition vfs_remove :: "vfs_entry \<Rightarrow> string \<Rightarrow> vfs_entry res" where
  "vfs_remove root path =
     rbind (vfs_parent root path) (\<lambda>(basename, ks, e).
     rbind (get_dir (e_content e)) (\<lambda>d.
     let k = str_of basename in
     if hm_map hash_string d k = None then Inr root
     else put_at root ks (Entry (e_name e) (Folder (d[name_slot d k := None])))))"

definition vfs_create :: "vfs_entry \<Rightarrow> string \<Rightarrow> bool \<Rightarrow> vfs_entry res" where
  "vfs_create root path mkdir =
     rbind (vfs_parent root path) (\<lambda>(basename, ks, e).
     rbind (get_dir (e_content e)) (\<lambda>d.
     let k = str_of basename in
     rbind (dir_put d k (Entry k (if mkdir then Dangling else Content []))) (\<lambda>d.
     put_at root ks (Entry (e_name e) (Folder d)))))"

definition entry_meta :: "vfs_entry \<Rightarrow> fs_entry" where
  "entry_meta e = \<lparr>fe_name = e_name e, fe_dir = (content_active (e_content e) \<noteq> 0)\<rparr>"

definition vfs_readdir :: "vfs_entry \<Rightarrow> string \<Rightarrow> fs_entry list res" where
  "vfs_readdir root path =
     rbind (vfs_lookup root path) (\<lambda>r. rbind (deref_entry root r) (\<lambda>(ks, e).
     rbind (get_dir (e_content e)) (\<lambda>d.
     Inr (map (\<lambda>(k, e). entry_meta e) (List.map_filter id d)))))"

definition vfs_readmeta :: "vfs_entry \<Rightarrow> string \<Rightarrow> fs_entry option res" where
  "vfs_readmeta root path =
     rbind (vfs_lookup root path) (\<lambda>r.
     case r of None \<Rightarrow> Inr None | Some ks \<Rightarrow> rbind (entry_at root ks) (\<lambda>e. Inr (Some (entry_meta e))))"

definition vfs_calls :: "vfs_entry fs_calltable" where
  "vfs_calls = \<lparr>c_read = vfs_read, c_write = vfs_write, c_remove = vfs_remove, c_create = vfs_create,
     c_readdir = vfs_readdir, c_readmeta = vfs_readmeta\<rparr>"

definition vfs_mount :: "vfs_entry fs_calltable \<times> vfs_entry" where
  "vfs_mount = (vfs_calls, Entry [] (Folder (replicate hm_defsize None)))"

section \<open>Clean paths and plain names\<close>

definition clean :: "string \<Rightarrow> bool" where
  "clean p \<longleftrightarrow> NUL \<notin> set p \<and> (\<forall>i. Suc i < length p \<longrightarrow> \<not> (p ! i = slash \<and> p ! Suc i = slash))"

definition plain :: "string \<Rightarrow> bool" where
  "plain s \<longleftrightarrow> s \<noteq> [] \<and> length s < 256 \<and> slash \<notin> set s \<and> NUL \<notin> set s"

lemma slash_NUL [simp]: "slash \<noteq> NUL" "NUL \<noteq> slash"
  by (simp_all add: slash_def)

lemma clean_Cons:
  "clean (c # p) \<longleftrightarrow> c \<noteq> NUL \<and> clean p \<and> \<not> (c = slash \<and> p \<noteq> [] \<and> hd p = slash)"
  by (cases p) (auto simp: clean_def nth_Cons split: nat.splits)

lemma clean_Nil [simp]: "clean []"
  by (simp add: clean_def)

lemma path_sanitize_id: "clean p \<Longrightarrow> path_sanitize p = p"
proof (induction p)
  case Nil
  then show ?case by (simp add: path_sanitize.simps)
next
  case (Cons c p)
  have "dropWhile (\<lambda>c. c = slash) p = p" if "c = slash"
    using Cons.prems that by (cases p) (auto simp: clean_Cons)
  with Cons show ?case by (subst path_sanitize.simps) (auto simp: clean_Cons)
qed

lemma path_sanitize_clean: "clean (path_sanitize p) \<and> (path_sanitize p \<noteq> [] \<longrightarrow> hd (path_sanitize p) = deref p)"
proof (induction p rule: path_sanitize.induct)
  case (1 p)
  have "deref (dropWhile (\<lambda>c. c = slash) p) \<noteq> slash"
    by (induction p) (auto simp: deref_def)
  then show ?case
    using 1 by (subst (1 2 3) path_sanitize.simps) (auto simp: clean_Cons)
qed

lemma plain_clean: "plain s \<Longrightarrow> clean (slash # s)"
proof -
  assume "plain s"
  then have "clean s" by (auto simp: plain_def clean_def in_set_conv_nth)
  then show ?thesis using \<open>plain s\<close> by (cases s) (auto simp: clean_Cons plain_def)
qed

lemma cstr_id: "NUL \<notin> set s \<Longrightarrow> cstr s = s"
  by (induction s) auto

lemma plain_str_of: "plain s \<Longrightarrow> str_of s = s"
  by (simp add: plain_def str_of_def strlen_def strlen_loop_eq cstr_id unat_of_nat take_bit_eq_mod)

lemma plain_basename: "plain s \<Longrightarrow> path_basename s = Inr (0, s)"
proof -
  assume s: "plain s"
  have no: "s ! i \<noteq> slash" if "i < length s" for i using that s by (auto simp: plain_def in_set_conv_nth)
  have "name_start s b = 0" if "b < length s" for b
    using that no by (induction b) auto
  moreover have "length (takeWhile (\<lambda>c. c \<noteq> slash) s) = length s" using s by (subst takeWhile_eq_all_conv [THEN iffD2]) (auto simp: plain_def)
  ultimately show ?thesis using s no by (simp add: path_basename_def plain_def)
qed

lemma plain_split:
  assumes "plain s" "deref r = slash \<or> deref r = NUL"
  shows "takeWhile (\<lambda>c. c \<noteq> slash \<and> c \<noteq> NUL) (s @ r) = s"
proof -
  have "takeWhile (\<lambda>c. c \<noteq> slash \<and> c \<noteq> NUL) r = []" using assms(2) by (cases r) auto
  then show ?thesis using assms(1) by (subst takeWhile_append2) (auto simp: plain_def)
qed

text \<open>One step of the walk through the tree.\<close>

lemma vfs_walk_plain:
  assumes "plain s" "deref r = slash \<or> deref r = NUL"
  shows "vfs_walk (Entry n (Folder d)) (s @ r) route =
    (case hm_map hash_string d s of None \<Rightarrow> Inr None | Some e \<Rightarrow> vfs_walk e r (route @ [s]))"
proof -
  have "deref (s @ r) \<noteq> NUL" "deref (s @ r) \<noteq> slash" using assms(1) by (cases s; auto simp: plain_def)+
  then show ?thesis
    using plain_split [OF assms] by (subst vfs_walk.simps) (simp add: get_dir_def Let_def drop_append split: option.splits)
qed

lemma vfs_walk_slash: "deref p \<noteq> slash \<Longrightarrow> deref p \<noteq> NUL \<Longrightarrow> vfs_walk e (slash # p) route = vfs_walk e p route"
  by (subst (1 2) vfs_walk.simps) (simp add: Let_def)

lemma vfs_walk_end: "vfs_walk e [] route = Inr (Some route)"
  by (simp add: vfs_walk.simps)

lemma vfs_lookup_plain:
  assumes "plain s"
  shows "vfs_lookup (Entry n (Folder d)) s = Inr (if hm_map hash_string d s = None then None else Some [s])"
  using vfs_walk_plain [OF assms, of "[]" n d "[]"]
  by (auto simp: vfs_lookup_def vfs_walk_end split: option.splits)

lemma name_slot_less: "d \<noteq> [] \<Longrightarrow> name_slot d k < length d"
  by (simp add: name_slot_def hash_string_def)

lemma hm_map_slot:
  assumes "d \<noteq> []"
  shows "hm_map hash_string (d[name_slot d k := Some (k, e)]) k = Some e"
  using name_slot_less [OF assms, of k] by (simp add: hm_map_def name_slot_def)

lemma vfs_create_plain:
  assumes "plain s" and "d \<noteq> []" and "d ! name_slot d s = None"
  shows "vfs_create (Entry n (Folder d)) s mkdir =
    Inr (Entry n (Folder (d[name_slot d s := Some (s, Entry s (if mkdir then Dangling else Content []))])))"
  using assms by (simp add: vfs_create_def vfs_parent_def plain_basename vfs_lookup_def vfs_walk_end deref_entry_def
      get_dir_def plain_str_of dir_put_def Let_def)

lemma find_loop_longest:
  assumes "clean p" "closest < length mpts" "mpts = done @ ms" "length done = i"
    "closest = 0 \<or> length (m_path (mpts ! closest)) \<le> length p"
    "\<forall>m \<in> set done. length (m_path m) \<le> length p \<longrightarrow> length (m_path m) \<le> length (m_path (mpts ! closest))"
    "\<forall>m \<in> set mpts. NUL \<notin> set (m_path m)"
  shows "let j = find_loop mpts p p closest i ms in
    j < length mpts \<and> (j = 0 \<or> length (m_path (mpts ! j)) \<le> length p) \<and>
    (\<forall>m \<in> set mpts. length (m_path m) \<le> length p \<longrightarrow> length (m_path m) \<le> length (m_path (mpts ! j)))"
  using assms
proof (induction ms arbitrary: closest i "done")
  case Nil
  then show ?case by (simp add: Let_def)
next
  case (Cons m ms)
  have here: "mpts ! i = m" "i < length mpts" "mpts = (done @ [m]) @ ms" "length (done @ [m]) = i + 1"
    using Cons.prems(3,4) by auto
  have cmp: "strncmp p p n = 0" if "0 < n" for n
    using that by (simp add: strncmp_def strncmp_loop_zero)
  have len: "length (cstr (m_path m)) = length (m_path m)"
    using Cons.prems(3,7) by (simp add: cstr_id)
  consider "length (m_path m) > length p" | "length (m_path m) \<le> length p" "length (m_path (mpts ! closest)) < length (m_path m)"
    | "length (m_path m) \<le> length p" "\<not> length (m_path (mpts ! closest)) < length (m_path m)" by linarith
  then show ?case
  proof cases
    case 1
    then show ?thesis using Cons.IH [OF Cons.prems(1,2) here(3,4) Cons.prems(5) _ Cons.prems(7)] Cons.prems(6) by simp
  next
    case 2
    then have "0 < length (m_path m)" by linarith
    from cmp [OF this] have "find_loop mpts p p closest i (m # ms) = find_loop mpts p p i (i + 1) ms"
      using 2 by (simp add: len)
    moreover have "\<forall>m' \<in> set (done @ [m]). length (m_path m') \<le> length p \<longrightarrow> length (m_path m') \<le> length (m_path (mpts ! i))"
      using Cons.prems(6) 2(2) here(1) by (auto intro: order.strict_implies_order order.strict_trans1)
    moreover have "i = 0 \<or> length (m_path (mpts ! i)) \<le> length p" using here(1) 2(1) by simp
    ultimately show ?thesis
      using Cons.IH [OF Cons.prems(1) here(2-4) _ _ Cons.prems(7)] by simp
  next
    case 3
    then show ?thesis
      using Cons.IH [OF Cons.prems(1,2) here(3,4) Cons.prems(5) _ Cons.prems(7)] Cons.prems(6) len by (simp add: Let_def)
  qed
qed

lemma fs_find_mnt_single: "fs_find_mnt [m] p = Inr 0"
  by (simp add: fs_find_mnt_def Let_def)

text \<open>The file system in memory mounted at the root.\<close>

definition root_mount :: "(string \<times> vfs_entry) option list \<Rightarrow> vfs_entry mountpoint list" where
  "root_mount d = [\<lparr>m_calls = vfs_calls, m_handle = Entry [] (Folder d), m_path = [slash]\<rparr>]"

lemma root_mount_simps:
  assumes "deref p \<noteq> NUL"
  shows "fs_find_mnt (root_mount d) (slash # p) = Inr 0" "path_within (root_mount d ! 0) (slash # p) = Inr p"
    "m_handle (root_mount d ! 0) = Entry [] (Folder d)" "m_calls (root_mount d ! 0) = vfs_calls"
    "set_handle (root_mount d) 0 (Entry [] (Folder d')) = root_mount d'"
  using assms by (simp_all add: root_mount_def fs_find_mnt_single path_within_def set_handle_def)

lemma plain_deref: "plain s \<Longrightarrow> deref (s @ r) \<noteq> NUL" "plain s \<Longrightarrow> deref s \<noteq> NUL" "plain s \<Longrightarrow> deref s \<noteq> slash"
  by (cases s; auto simp: plain_def)+

lemma fs_create_root:
  assumes "plain s" and "d \<noteq> []" and "d ! name_slot d s = None"
  shows "fs_create (root_mount d) (slash # s) mkdir =
    Inr (root_mount (d[name_slot d s := Some (s, Entry s (if mkdir then Dangling else Content []))]))"
proof -
  have "hm_map hash_string d s = None" using assms(3) by (simp add: hm_map_def name_slot_def)
  then show ?thesis
    using root_mount_simps [OF plain_deref(2) [OF assms(1)], of d] vfs_create_plain [OF assms, of "[]" mkdir]
      vfs_lookup_plain [OF assms(1), of "[]" d]
    by (simp add: fs_create_def vfs_calls_def vfs_readmeta_def)
qed

section \<open>Properties\<close>


definition two_mounts :: "vfs_entry mountpoint list" where
  "two_mounts = root_mount [] @ [\<lparr>m_calls = vfs_calls, m_handle = Entry [] Vacant, m_path = ''/mnt''\<rparr>]"




text \<open>Creating a directory succeeds, but its table of entries is freed with the temporary it was built in: creating a
  file in the directory and listing it are undefined.\<close>

theorem vfs_mkdir_dangles:
  assumes "plain s" and "plain f" and "d \<noteq> []" and "d ! name_slot d s = None"
  shows "\<exists>m1. fs_create (root_mount d) (slash # s) True = Inr m1 \<and>
    fs_create m1 (slash # s @ slash # f) mkdir = Inl Undefined \<and> fs_readdir m1 (slash # s) = Inl Undefined"
proof -
  define d1 where "d1 = d[name_slot d s := Some (s, Entry s Dangling)]"
  have look: "hm_map hash_string d1 s = Some (Entry s Dangling)" using hm_map_slot [OF assms(3)] by (simp add: d1_def)
  note r = root_mount_simps [OF plain_deref(2) [OF assms(1)]] root_mount_simps(1,2) [OF plain_deref(1) [OF assms(1)]]
  have f: "deref (slash # f) = slash \<or> deref (slash # f) = NUL" by simp
  have "vfs_walk (Entry s Dangling) (slash # f) [s] = Inl Undefined"
    using plain_deref(2,3) [OF assms(2)] by (subst vfs_walk.simps) (simp add: Let_def get_dir_def)
  then have "vfs_lookup (Entry [] (Folder d1)) (s @ slash # f) = Inl Undefined"
    using vfs_walk_plain [OF assms(1) f, of "[]" d1 "[]"] look by (simp add: vfs_lookup_def)
  then have "fs_create (root_mount d1) (slash # s @ slash # f) mkdir = Inl Undefined"
    by (simp add: fs_create_def r vfs_calls_def vfs_readmeta_def)
  moreover have "fs_readdir (root_mount d1) (slash # s) = Inl Undefined"
    using look vfs_lookup_plain [OF assms(1), of "[]" d1]
    by (simp add: fs_readdir_def r vfs_calls_def vfs_readdir_def deref_entry_def get_dir_def)
  ultimately show ?thesis using fs_create_root [OF assms(1,3,4), of True] by (auto simp: d1_def)
qed

theorem vfs_mkdir_dangles_witness:
  "\<exists>m1. fs_create (root_mount [None]) ''/etc'' True = Inr m1 \<and> fs_readdir m1 ''/etc'' = Inl Undefined"
proof -
  have "plain ''etc''" by (simp add: plain_def slash_def)
  moreover have "[None] ! name_slot [None] ''etc'' = None"
    using name_slot_less [of "[None]" "''etc''"] by simp
  ultimately show ?thesis
    using vfs_mkdir_dangles [of "''etc''" "''etc''" "[None]" True] by (auto simp only: slash_def append_Cons append_Nil list.distinct)
qed

end
