(* ===== verification/Fat.thy ===== *)
theory Fat
  imports Containers Fs
begin

text \<open>
  Reading from disks: \<^verbatim>\<open>msd_read\<close> and the partition table (\<^verbatim>\<open>devmgr/msd/msd.cc\<close>), and the FAT32 module
  (\<^verbatim>\<open>modules/fat/src\<close>). The read routine in the call table of a device is the argument \<open>rd\<close>: it takes the number of the
  first sector and the number of sectors and fills a buffer. On-disk structures are read from lists of bytes
  at the offsets their packed declarations give.
\<close>

unbundle bit_operations_syntax

type_synonym bytes = "8 word list"
type_synonym read_fn = "nat \<Rightarrow> nat \<Rightarrow> bytes"

section \<open>Devices and partitions\<close>

text \<open>\<open>buf\<close> is the address of the destination; the bounce buffer has the size rounded up to sectors.\<close>

definition msd_read :: "read_fn \<Rightarrow> nat \<Rightarrow> nat \<Rightarrow> nat \<Rightarrow> bytes res" where
  "msd_read rd off n buf =
     (if isaligned off 512 \<and> isaligned n 512 \<and> isaligned buf 512 then Inr (rd (off div 512) (n div 512))
      else
        let bounce = rd (off div 512) (align64 n 512 div 512) in
        if off mod 512 + n \<le> align64 n 512 then Inr (take n (drop (off mod 512) bounce)) else Inl Undefined)"

definition le16 :: "bytes \<Rightarrow> nat \<Rightarrow> nat" where
  "le16 b i = unat (b ! i) + 256 * unat (b ! (i + 1))"

definition le32 :: "bytes \<Rightarrow> nat \<Rightarrow> nat" where
  "le32 b i = le16 b i + 2 ^ 16 * le16 b (i + 2)"

definition le64 :: "bytes \<Rightarrow> nat \<Rightarrow> nat" where
  "le64 b i = le32 b i + 2 ^ 32 * le32 b (i + 4)"

definition le128 :: "bytes \<Rightarrow> nat \<Rightarrow> nat" where
  "le128 b i = le64 b i + 2 ^ 64 * le64 b (i + 8)"

datatype PartitionType = OTHER | EFI_SYSTEM_PARTITION | MICROSOFT_BASIC_DATA | MICROSOFT_RESERVED | LINUX_FILESYSTEM

record partition =
  pt_type :: PartitionType
  pt_offset :: nat
  pt_size :: nat
  pt_name :: string

record gpt =
  gpt_magic :: bytes
  gpt_rev :: nat
  gpt_size :: nat
  gpt_crc32 :: nat
  gpt_lba :: nat
  gpt_altlba :: nat
  gpt_firstlba :: nat
  gpt_lastlba :: nat
  gpt_guid :: bytes
  gpt_startlba :: nat
  gpt_num_parts :: nat
  gpt_entry_size :: nat
  gpt_partscrc32 :: nat

definition parse_gpt :: "bytes \<Rightarrow> gpt" where
  "parse_gpt b =
     \<lparr>gpt_magic = take 8 b, gpt_rev = le32 b 8, gpt_size = le32 b 12, gpt_crc32 = le32 b 16, gpt_lba = le64 b 24,
      gpt_altlba = le64 b 32, gpt_firstlba = le64 b 40, gpt_lastlba = le64 b 48, gpt_guid = take 16 (drop 56 b),
      gpt_startlba = le64 b 72, gpt_num_parts = le32 b 80, gpt_entry_size = le32 b 84, gpt_partscrc32 = le32 b 88\<rparr>"

record gpt_entry =
  ge_type :: nat
  ge_guid :: nat
  ge_start :: nat
  ge_end :: nat
  ge_attr :: nat
  ge_name :: bytes

definition parse_gpt_entry :: "bytes \<Rightarrow> nat \<Rightarrow> gpt_entry" where
  "parse_gpt_entry b i =
     (let e = take 128 (drop (128 * i) b) in
      \<lparr>ge_type = le128 e 0, ge_guid = le128 e 16, ge_start = le64 e 32, ge_end = le64 e 40, ge_attr = le64 e 48,
       ge_name = take 72 (drop 56 e)\<rparr>)"

definition guid_number :: "string \<Rightarrow> nat" where
  "guid_number s = (case make_guid s of Inr g \<Rightarrow> unat (guid_raw g) | Inl _ \<Rightarrow> 0)"

definition guid2parttype :: "nat \<Rightarrow> PartitionType" where
  "guid2parttype g =
     (if g = guid_number ''C12A7328-F81F-11D2-BA4B-00A0C93EC93B'' then EFI_SYSTEM_PARTITION
      else if g = guid_number ''0FC63DAF-8483-4772-8E79-3D69D8477DE4'' then LINUX_FILESYSTEM
      else if g = guid_number ''EBD0A0A2-B9E5-4433-87C0-68B6B72699C7'' then MICROSOFT_BASIC_DATA
      else if g = guid_number ''E3C9E316-0B5C-4DB8-817D-F92DF00215AE'' then MICROSOFT_RESERVED
      else OTHER)"

definition chr :: "8 word \<Rightarrow> char" where
  "chr b = char_of (unat b)"

text \<open>Constructing a string from a pointer to bytes; without a terminator it reads behind them.\<close>

definition name_of :: "bytes \<Rightarrow> string res" where
  "name_of b = (if 0 \<in> set b then Inr (str_of (map chr (takeWhile (\<lambda>c. c \<noteq> 0) b))) else Inl Undefined)"

text \<open>The loop over the partition entries, four to a sector. \<open>ents\<close> is the sector in the buffer. The type that the identifier
  stands for is computed and dropped. The result is the list of partitions; the first one found is mounted.\<close>

fun scout_loop :: "read_fn \<Rightarrow> nat \<Rightarrow> bytes \<Rightarrow> nat \<Rightarrow> nat \<Rightarrow> partition list \<Rightarrow> partition list res" where
  "scout_loop rd startlba ents i 0 parts = Inr parts"
| "scout_loop rd startlba ents i (Suc n) parts =
     rbind (if i mod 4 = 0 then msd_read rd (mul64 (add64 startlba (align64 i 4 div 4)) 512) 512 0 else Inr ents) (\<lambda>ents.
     let e = parse_gpt_entry ents (i mod 4) in
     if ge_type e = 0 then scout_loop rd startlba ents (i + 1) n parts
     else
       rbind (name_of (ge_name e)) (\<lambda>name.
       scout_loop rd startlba ents (i + 1) n
         (parts @ [\<lparr>pt_type = OTHER, pt_offset = mul64 (ge_start e) 512,
            pt_size = mul64 (sub64 (add64 (ge_end e) 1) (ge_start e)) 512, pt_name = name\<rparr>])))"

definition efi_part :: bytes where
  "efi_part = map of_char ''EFI PART''"

definition msd_scout :: "read_fn \<Rightarrow> partition list res" where
  "msd_scout rd =
     rbind (msd_read rd 512 512 0) (\<lambda>b.
     let hdr = parse_gpt b in
     if gpt_magic hdr \<noteq> efi_part then Inr []
     else scout_loop rd (gpt_startlba hdr) [] 0 (gpt_num_parts hdr) [])"

section \<open>FAT32 structures\<close>

record fat_bpb =
  oem :: bytes
  bytespersector :: nat
  sectorspercluster :: nat
  num_reserved_sectors :: nat
  num_fats :: nat
  num_root_dir_ents :: nat
  num_sectors :: nat
  media_desc_type :: nat
  sectorsperfat :: nat
  sectorspertrack :: nat
  numheads :: nat
  num_hidden_sectors :: nat
  num_sectors_ext :: nat
  ext_sectorsperfat :: nat
  ext_flags :: nat
  ext_fatver :: nat
  ext_rootdir_cluster :: nat
  ext_fsinfo_cluster :: nat
  ext_bootbak_cluster :: nat
  ext_drive_num :: nat
  ext_sign :: nat
  ext_volume_id :: nat
  ext_volume_label :: bytes
  ext_identifier :: bytes
  ext_bootsign :: nat

definition parse_bpb :: "bytes \<Rightarrow> fat_bpb" where
  "parse_bpb b =
     \<lparr>oem = take 8 (drop 3 b), bytespersector = le16 b 11, sectorspercluster = unat (b ! 13), num_reserved_sectors = le16 b 14,
      num_fats = unat (b ! 16), num_root_dir_ents = le16 b 17, num_sectors = le16 b 19, media_desc_type = unat (b ! 21),
      sectorsperfat = le16 b 22, sectorspertrack = le16 b 24, numheads = le16 b 26, num_hidden_sectors = le32 b 28,
      num_sectors_ext = le32 b 32, ext_sectorsperfat = le32 b 36, ext_flags = le16 b 40, ext_fatver = le16 b 42,
      ext_rootdir_cluster = le32 b 44, ext_fsinfo_cluster = le32 b 48, ext_bootbak_cluster = le32 b 52,
      ext_drive_num = unat (b ! 68), ext_sign = unat (b ! 70), ext_volume_id = le32 b 71, ext_volume_label = take 11 (drop 75 b),
      ext_identifier = take 8 (drop 86 b), ext_bootsign = le16 b 514\<rparr>"

text \<open>Dates and times are kept as their 16 bits. \<open>f_raw\<close> are the bytes from the entry on.\<close>

record fat_entry =
  f_simplename :: bytes
  f_attrs :: "8 word"
  f_precisetime :: nat
  f_ctime :: nat
  f_cdate :: nat
  f_adate :: nat
  f_cluster_hi :: nat
  f_mtime :: nat
  f_mdate :: nat
  f_cluster_lo :: nat
  f_size :: nat
  f_raw :: bytes

definition parse_entry :: "bytes \<Rightarrow> fat_entry" where
  "parse_entry b =
     \<lparr>f_simplename = take 11 b, f_attrs = b ! 11, f_precisetime = unat (b ! 13), f_ctime = le16 b 14, f_cdate = le16 b 16,
      f_adate = le16 b 18, f_cluster_hi = le16 b 20, f_mtime = le16 b 22, f_mdate = le16 b 24, f_cluster_lo = le16 b 26,
      f_size = le32 b 28, f_raw = b\<rparr>"

definition entry_no :: "bytes \<Rightarrow> nat \<Rightarrow> fat_entry" where
  "entry_no b i = parse_entry (drop (32 * i) b)"

datatype FatAttrs =
    FAT_RO | FAT_HIDDEN | FAT_SYSTEM | FAT_VOLUME_ID | FAT_DIRECTORY | FAT_ARCHIVE | FAT_LFN

fun fat_attr :: "FatAttrs \<Rightarrow> 8 word" where
  "fat_attr FAT_RO = 0x01"
| "fat_attr FAT_HIDDEN = 0x02"
| "fat_attr FAT_SYSTEM = 0x04"
| "fat_attr FAT_VOLUME_ID = 0x08"
| "fat_attr FAT_DIRECTORY = 0x10"
| "fat_attr FAT_ARCHIVE = 0x20"
| "fat_attr FAT_LFN = 0x01 OR 0x02 OR 0x04 OR 0x08"

declare fat_attr.simps [simp del]

record fat_fshandle =
  h_bpb :: fat_bpb
  h_fat :: "nat list"
  h_fatsize :: nat
  h_dataoffset :: nat

definition clusterfrom :: "nat \<Rightarrow> nat \<Rightarrow> nat" where
  "clusterfrom lo hi = lo OR push_bit 16 hi"

text \<open>The products are computed in 32 bits.\<close>

definition clusteroff :: "fat_fshandle \<Rightarrow> nat \<Rightarrow> nat \<Rightarrow> nat" where
  "clusteroff h lo hi =
     add64 (h_dataoffset h)
       (nat ((int (clusterfrom lo hi) - 2) * int (bytespersector (h_bpb h)) * int (sectorspercluster (h_bpb h)) mod 2 ^ 32))"

definition diskoffset :: "fat_fshandle \<Rightarrow> nat \<Rightarrow> nat res" where
  "diskoffset h cluster =
     (if cluster < 2 then Inl (Fatal ''Assert failed: cluster >= 2'')
      else Inr (add64 (h_dataoffset h) (trunc32 ((cluster - 2) * 512))))"

section \<open>Names\<close>

text \<open>The characters of the three parts of a long name entry; each part is written with a terminator behind it.\<close>

definition lfn_part :: "bytes \<Rightarrow> nat \<Rightarrow> nat \<Rightarrow> bytes" where
  "lfn_part b off n = map (\<lambda>k. b ! (off + 2 * k)) [0..<n]"

definition put_part :: "bytes \<Rightarrow> nat \<Rightarrow> bytes \<Rightarrow> bytes res" where
  "put_part ln pos cs =
     (if pos + length cs < length ln then Inr (take pos ln @ cs @ [0] @ drop (pos + length cs + 1) ln) else Inl Undefined)"

definition put_lfn :: "bytes \<Rightarrow> bytes \<Rightarrow> bytes res" where
  "put_lfn ln b =
     (let order = unat (b ! 0 AND 0x1f) in
      if order = 0 then Inl Undefined
      else
        let pos = (order - 1) * 13 in
        rbind (put_part ln pos (lfn_part b 1 5)) (\<lambda>ln.
        rbind (put_part ln (pos + 5) (lfn_part b 14 6)) (\<lambda>ln.
        put_part ln (pos + 11) (lfn_part b 28 2))))"

text \<open>The short name ends at the first space; the search goes on behind the name.\<close>

definition fat32_getname :: "bytes \<Rightarrow> fat_entry \<Rightarrow> string option res" where
  "fat32_getname longname en =
     (let c = f_simplename en ! 0 in
      if longname ! 0 \<noteq> 0 then rbind (name_of longname) (\<lambda>s. Inr (Some s))
      else if strncmp (map chr (f_simplename en)) ''.'' 1 = 0 then Inr None
      else if strncmp (map chr (f_simplename en)) ''..'' 2 = 0 then Inr None
      else if c = of_char CHR '' '' then Inr None
      else if unat c > 128 then Inr None
      else if of_char CHR '' '' \<notin> set (f_raw en) then Inl Undefined
      else Inr (Some (map chr (takeWhile (\<lambda>c. c \<noteq> of_char CHR '' '') (f_raw en)))))"

section \<open>Lookup\<close>

record lookup_state =
  ls_ent :: bytes
  ls_longname :: bytes
  ls_path :: string
  ls_found :: bool

text \<open>The loop over the sixteen entries of the sector in the buffer. When an entry matches, the buffer is
  replaced by the first sector of the directory and the loop goes on in it at the next index.\<close>

fun lookup_entries :: "read_fn \<Rightarrow> fat_fshandle \<Rightarrow> string \<Rightarrow> nat \<Rightarrow> nat \<Rightarrow> lookup_state \<Rightarrow> (fat_entry + lookup_state) res" where
  "lookup_entries rd h basename i 0 s = Inr (Inr s)"
| "lookup_entries rd h basename i (Suc n) s =
     (let en = entry_no (ls_ent s) i in
      if f_attrs en = 0 then Inr (Inr s)
      else if f_attrs en = (fat_attr FAT_LFN)
      then rbind (put_lfn (ls_longname s) (f_raw en)) (\<lambda>ln. lookup_entries rd h basename (i + 1) n (s\<lparr>ls_longname := ln\<rparr>))
      else if f_attrs en AND (fat_attr FAT_VOLUME_ID) \<noteq> 0 then lookup_entries rd h basename (i + 1) n s
      else
        rbind (fat32_getname (ls_longname s) en) (\<lambda>name.
        case name of
          None \<Rightarrow> lookup_entries rd h basename (i + 1) n s
        | Some nm \<Rightarrow>
            if strcmp basename nm \<noteq> 0 then lookup_entries rd h basename (i + 1) n s
            else if length basename > length (ls_path s) then Inl Undefined
            else
              let path = drop (length basename) (ls_path s) in
              if deref path = NUL then Inr (Inl en)
              else
                rbind (msd_read rd (clusteroff h (f_cluster_lo en) (f_cluster_hi en)) 512 0) (\<lambda>ent.
                lookup_entries rd h basename (i + 1) n
                  (s\<lparr>ls_ent := ent, ls_longname := (ls_longname s)[0 := 0], ls_path := path, ls_found := True\<rparr>))))"

text \<open>Every round of the outer loop consumes at least one character of the path, so its length is enough fuel.\<close>

fun lookup_loop :: "nat \<Rightarrow> read_fn \<Rightarrow> fat_fshandle \<Rightarrow> lookup_state \<Rightarrow> fat_entry res" where
  "lookup_loop fuel rd h s =
     (if deref (ls_path s) = NUL then Inl (Fatal ''File not found!'')
      else case fuel of 0 \<Rightarrow> Inl Hang | Suc fuel \<Rightarrow>
        let path = dropWhile (\<lambda>c. c = slash) (ls_path s) in
        if deref path = NUL then Inr (entry_no (ls_ent s) 0)
        else
          let basename = takeWhile (\<lambda>c. c \<noteq> slash \<and> c \<noteq> NUL) path in
          rbind (lookup_entries rd h basename 0 16 (s\<lparr>ls_path := path, ls_found := False\<rparr>)) (\<lambda>r.
          case r of
            Inl en \<Rightarrow> Inr en
          | Inr s \<Rightarrow> if \<not> ls_found s then Inl (Fatal ''No such file or folder'') else lookup_loop fuel rd h s))"

declare lookup_loop.simps [simp del]

text \<open>The cluster of the root directory is written into the first entry of its first sector.\<close>

definition root_sector :: "bytes \<Rightarrow> bytes" where
  "root_sector b = b[20 := 0, 21 := 0, 26 := 2, 27 := 0]"

definition fat32_lookup :: "read_fn \<Rightarrow> fat_fshandle \<Rightarrow> string \<Rightarrow> fat_entry res" where
  "fat32_lookup rd h path =
     rbind (msd_read rd (h_dataoffset h) 512 0) (\<lambda>b.
     lookup_loop (length path) rd h \<lparr>ls_ent = root_sector b, ls_longname = replicate 256 0, ls_path = path, ls_found = False\<rparr>)"

section \<open>Reading files and directories\<close>

definition fat_next :: "fat_fshandle \<Rightarrow> nat \<Rightarrow> nat res" where
  "fat_next h cluster = (if cluster < length (h_fat h) then Inr (h_fat h ! cluster AND 0x0fffffff) else Inl Undefined)"

fun skip_clusters :: "fat_fshandle \<Rightarrow> nat \<Rightarrow> nat \<Rightarrow> nat res" where
  "skip_clusters h cluster 0 = Inr cluster"
| "skip_clusters h cluster (Suc n) =
     rbind (fat_next h cluster) (\<lambda>fatent.
     if cluster \<ge> 0x0ffffff8 then Inl (Fatal ''File not big enough to skip to offset??'') else skip_clusters h fatent n)"

text \<open>The loop over the clusters of a file. \<open>buf\<close> is the destination or \<open>None\<close>, in which case \<open>bytes\<close> does not change and the
  loop ends with the chain only. The result is the number of bytes and the data.\<close>

fun chain_loop :: "nat \<Rightarrow> read_fn \<Rightarrow> fat_fshandle \<Rightarrow> nat \<Rightarrow> nat \<Rightarrow> nat \<Rightarrow> nat \<Rightarrow> nat option \<Rightarrow> nat \<Rightarrow> bytes \<Rightarrow> (nat \<times> bytes) res" where
  "chain_loop fuel rd h bpc cluster coff n buf done acc =
     (if n = 0 then Inr (done, acc)
      else case fuel of 0 \<Rightarrow> Inl Hang | Suc fuel \<Rightarrow>
        let readlen = min n (bpc - coff) in
        rbind (case buf of None \<Rightarrow> Inr [] | Some a \<Rightarrow> rbind (diskoffset h cluster) (\<lambda>d. msd_read rd (add64 d coff) readlen a)) (\<lambda>data.
        rbind (fat_next h cluster) (\<lambda>fatent.
        if fatent \<ge> 0x0ffffff8 then Inr (done + readlen, acc @ data)
        else chain_loop fuel rd h bpc fatent 0 (if buf = None then n else n - readlen)
               (map_option (\<lambda>a. add64 a readlen) buf) (done + readlen) (acc @ data))))"

declare chain_loop.simps [simp del]

definition bytespercluster :: "fat_fshandle \<Rightarrow> nat" where
  "bytespercluster h = bytespersector (h_bpb h) * sectorspercluster (h_bpb h)"

definition chainread :: "nat \<Rightarrow> read_fn \<Rightarrow> fat_fshandle \<Rightarrow> nat \<Rightarrow> nat \<Rightarrow> nat \<Rightarrow> nat option \<Rightarrow> (nat \<times> bytes) res" where
  "chainread fuel rd h cluster off n buf =
     (let bpc = bytespercluster h; n = (if buf = None then 2 ^ 32 - 1 else n) in
      rbind (skip_clusters h cluster (off div bpc)) (\<lambda>cluster.
      chain_loop fuel rd h bpc cluster (off mod bpc) n buf 0 []))"

definition fat32_read :: "nat \<Rightarrow> read_fn \<Rightarrow> fat_fshandle \<Rightarrow> string \<Rightarrow> nat \<Rightarrow> nat \<Rightarrow> nat option \<Rightarrow> (nat \<times> bytes) res" where
  "fat32_read fuel rd h path off n buf =
     rbind (fat32_lookup rd h path) (\<lambda>e.
     if buf = None
     then if f_attrs e AND (fat_attr FAT_DIRECTORY) \<noteq> 0 then Inl (Fatal ''Assert failed: (e.attrs & DIRECTORY) == 0'') else Inr (f_size e, [])
     else if off > f_size e then Inl (Fatal ''Assert failed: offset <= e.size'')
     else chainread fuel rd h (clusterfrom (f_cluster_lo e) (f_cluster_hi e)) off n buf)"

text \<open>The entries of a directory up to one without attributes.\<close>

fun readdir_loop :: "bytes \<Rightarrow> bytes \<Rightarrow> nat \<Rightarrow> nat \<Rightarrow> fs_entry list res" where
  "readdir_loop tmp ln i 0 = Inl Undefined"
| "readdir_loop tmp ln i (Suc n) =
     (let en = entry_no tmp i; dir = (f_attrs en AND (fat_attr FAT_DIRECTORY) \<noteq> 0) in
      if f_attrs en = 0 then Inr []
      else if f_attrs en = (fat_attr FAT_LFN) then rbind (put_lfn ln (f_raw en)) (\<lambda>ln. readdir_loop tmp ln (i + 1) n)
      else if f_attrs en AND (fat_attr FAT_VOLUME_ID) \<noteq> 0 then readdir_loop tmp ln (i + 1) n
      else
        rbind (if ln ! 0 \<noteq> 0 then rbind (name_of ln) (\<lambda>s. Inr (Some s)) else fat32_getname ln en) (\<lambda>name.
        rbind (readdir_loop tmp (ln[0 := 0]) (i + 1) n) (\<lambda>es.
        Inr (case name of None \<Rightarrow> es | Some nm \<Rightarrow> \<lparr>fe_name = nm, fe_dir = dir\<rparr> # es))))"

text \<open>\<open>tmp\<close> is the address of the buffer, \<open>ln\<close> the raw contents of the one for the long name.\<close>

definition fat32_readdir :: "nat \<Rightarrow> read_fn \<Rightarrow> fat_fshandle \<Rightarrow> string \<Rightarrow> nat \<Rightarrow> bytes \<Rightarrow> fs_entry list res" where
  "fat32_readdir fuel rd h path tmp ln =
     rbind (fat32_lookup rd h ''/'') (\<lambda>_.
     rbind (fat32_lookup rd h path) (\<lambda>e.
     let cluster = clusterfrom (f_cluster_lo e) (f_cluster_hi e) in
     rbind (chainread fuel rd h cluster 0 (2 ^ 64 - 1) None) (\<lambda>(n, _).
     rbind (chainread fuel rd h cluster 0 n (Some tmp)) (\<lambda>(_, b).
     readdir_loop b (ln[0 := 0]) 0 (length b div 32)))))"

definition fat32_write :: "string \<Rightarrow> (nat \<times> fat_fshandle) res" where
  "fat32_write path = Inl (Fatal ''Not implemented!'')"

definition fat32_remove :: "string \<Rightarrow> fat_fshandle res" where
  "fat32_remove path = Inl (Fatal ''Not implemented!'')"

definition fat32_create :: "string \<Rightarrow> fat_fshandle res" where
  "fat32_create path = Inl (Fatal ''Not implemented!'')"

definition fat32_readmeta :: "string \<Rightarrow> fs_entry option res" where
  "fat32_readmeta path = Inl (Fatal ''yes'')"

section \<open>Mounting\<close>

definition parse_fat :: "bytes \<Rightarrow> nat list" where
  "parse_fat b = map (\<lambda>i. le32 b (4 * i)) [0..<length b div 4]"

text \<open>\<open>None\<close> is the result false. The table is read into a buffer at \<open>fatbuf\<close>.\<close>

definition mod_main :: "read_fn \<Rightarrow> nat \<Rightarrow> nat \<Rightarrow> fat_fshandle option res" where
  "mod_main rd offs fatbuf =
     (if offs = 0 then Inl (Fatal ''FAT volume at the start of the drive?'')
      else
        rbind (msd_read rd offs 512 0) (\<lambda>b.
        let bpb = parse_bpb b; bps = bytespersector bpb in
        if bps < 512 \<or> bps > 0x1000 then Inr None
        else if sectorspercluster bpb = 0 then Inr None
        else if num_fats bpb \<noteq> 1 \<and> num_fats bpb \<noteq> 2 then Inr None
        else
          let fatsize = trunc32 (ext_sectorsperfat bpb * bps); fatoffset = add64 offs (num_reserved_sectors bpb * bps) in
          rbind (msd_read rd fatoffset fatsize fatbuf) (\<lambda>f.
          Inr (Some \<lparr>h_bpb = bpb, h_fat = parse_fat f, h_fatsize = fatsize,
            h_dataoffset = add64 fatoffset (mul64 (mul64 (num_fats bpb) (ext_sectorsperfat bpb)) bps)\<rparr>))))"

section \<open>Behaviour\<close>

text \<open>A device whose read routine returns the bytes \<open>d\<close>.\<close>

definition reads :: "read_fn \<Rightarrow> (nat \<Rightarrow> 8 word) \<Rightarrow> bool" where
  "reads rd d \<longleftrightarrow> (\<forall>lba n. rd lba n = map d [lba * 512..<(lba + n) * 512])"

lemma take_drop_upt: "r + n \<le> m \<Longrightarrow> take n (drop r (map d [k..<k + m])) = map d [k + r..<k + r + n]"
  by (rule nth_equalityI) (simp_all add: add.assoc)

lemma msd_read_ok:
  assumes "reads rd d" and "n + 512 \<le> 2 ^ 64" and "off mod 512 + n \<le> align64 n 512"
  shows "msd_read rd off n buf = Inr (map d [off..<off + n])"
proof (cases "isaligned off 512 \<and> isaligned n 512 \<and> isaligned buf 512")
  case True
  then have "off div 512 * 512 = off" "(off div 512 + n div 512) * 512 = off + n"
    by (auto simp: isaligned_def algebra_simps)
  with True show ?thesis using assms(1) by (simp add: msd_read_def reads_def)
next
  case False
  define k A where "k = off div 512 * 512" and "A = align64 n 512"
  have o: "off = k + off mod 512" by (simp add: k_def)
  have "A div 512 * 512 = A"
    using align64_dvd [of 512 n] assms(2) by (simp add: A_def)
  then have "rd (off div 512) (A div 512) = map d [k..<k + A]"
    using assms(1) by (simp add: reads_def k_def algebra_simps)
  then show ?thesis
    unfolding msd_read_def if_not_P [OF False] Let_def A_def [symmetric]
    using assms(3) o take_drop_upt [of "off mod 512" n A d k] by (simp add: A_def [symmetric])
qed

text \<open>A chain of clusters in the table, and the data of a cluster of one sector.\<close>

fun fat_chain :: "fat_fshandle \<Rightarrow> nat list \<Rightarrow> bool" where
  "fat_chain h [] \<longleftrightarrow> False"
| "fat_chain h [c] \<longleftrightarrow> 2 \<le> c \<and> c < 2 ^ 23 \<and> c < length (h_fat h) \<and> h_fat h ! c AND 0x0fffffff \<ge> 0x0ffffff8"
| "fat_chain h (c # c' # cs) \<longleftrightarrow> 2 \<le> c \<and> c < 2 ^ 23 \<and> c < length (h_fat h) \<and> h_fat h ! c AND 0x0fffffff = c' \<and> fat_chain h (c' # cs)"

definition cluster_data :: "(nat \<Rightarrow> 8 word) \<Rightarrow> fat_fshandle \<Rightarrow> nat \<Rightarrow> bytes" where
  "cluster_data d h c = map d [h_dataoffset h + (c - 2) * 512..<h_dataoffset h + (c - 2) * 512 + 512]"

lemma fat_chain_hd: "fat_chain h (c # cs) \<Longrightarrow> 2 \<le> c \<and> c < 2 ^ 23 \<and> c < length (h_fat h)"
  by (cases cs) auto

lemma align_sector: "0 < n \<Longrightarrow> n \<le> 512 \<Longrightarrow> align64 n 512 = 512"
  using align64_ge [of 512 n] align64_less [of 512 n] align64_dvd [of 512 n] by (auto elim!: dvdE)

lemma cluster_read:
  assumes "reads rd d" and "2 \<le> c" "c < 2 ^ 23" and "h_dataoffset h < 2 ^ 63" "512 dvd h_dataoffset h" and "0 < n" "coff + n \<le> 512"
  shows "rbind (diskoffset h c) (\<lambda>x. msd_read rd (add64 x coff) n a) = Inr (take n (drop coff (cluster_data d h c)))"
proof -
  let ?o = "h_dataoffset h + (c - 2) * 512"
  have t: "trunc32 ((c - 2) * 512) = (c - 2) * 512" using assms(3) by (simp add: trunc32_def)
  have a: "add64 (h_dataoffset h) ((c - 2) * 512) = ?o" "add64 ?o coff = ?o + coff"
    using assms(3,4,7) by (simp_all add: add64_def)
  have m: "(?o + coff) mod 512 + n \<le> align64 n 512"
  proof -
    have "(?o + coff) mod 512 = coff mod 512" using assms(5) by (auto elim!: dvdE simp: mod_add_eq [symmetric])
    also have "\<dots> = coff" using assms(6,7) by simp
    finally show ?thesis using assms(6,7) align_sector [of n] by simp
  qed
  have "msd_read rd (?o + coff) n a = Inr (map d [?o + coff..<?o + coff + n])"
    using assms(7) by (intro msd_read_ok [OF assms(1) _ m]) simp
  then show ?thesis
    using assms(2,7) t a take_drop_upt [of coff n 512 d ?o] by (simp add: diskoffset_def cluster_data_def)
qed

lemma length_cluster_data [simp]: "length (cluster_data d h c) = 512"
  by (simp add: cluster_data_def)

lemma take_drop_append: "coff \<le> length xs \<Longrightarrow> length xs - coff \<le> n \<Longrightarrow>
    take n (drop coff (xs @ ys)) = drop coff xs @ take (n - (length xs - coff)) ys"
  by simp

lemma chain_loop_ok:
  assumes disk: "reads rd d" "h_dataoffset h < 2 ^ 63" "512 dvd h_dataoffset h"
  shows "fat_chain h (c # cs) \<Longrightarrow> 0 < n \<Longrightarrow> coff < 512 \<Longrightarrow> coff + n \<le> 512 * length (c # cs) \<Longrightarrow> length (c # cs) \<le> fuel \<Longrightarrow>
    chain_loop fuel rd h 512 c coff n (Some a) m acc = Inr (m + n, acc @ take n (drop coff (concat (map (cluster_data d h) (c # cs)))))"
proof (induction cs arbitrary: c n coff fuel a m acc)
  case Nil
  obtain k where k: "fuel = Suc k" using Nil.prems(5) by (cases fuel) auto
  have n: "min n (512 - coff) = n" "coff + n \<le> 512" using Nil.prems(3,4) by auto
  have "rbind (diskoffset h c) (\<lambda>x. msd_read rd (add64 x coff) n a) = Inr (take n (drop coff (cluster_data d h c)))"
    using Nil.prems by (intro cluster_read [OF disk(1) _ _ disk(2,3)]) auto
  then show ?case
    using Nil.prems n by (subst chain_loop.simps) (simp add: k fat_next_def Let_def)
next
  case (Cons c' cs)
  obtain k where k: "fuel = Suc k" "length (c' # cs) \<le> k" using Cons.prems(5) by (cases fuel) auto
  let ?r = "min n (512 - coff)"
  have c: "2 \<le> c" "c < 2 ^ 23" "c < length (h_fat h)" "h_fat h ! c AND 0x0fffffff = c'" "fat_chain h (c' # cs)"
    using Cons.prems(1) by auto
  have c': "\<not> 0x0ffffff8 \<le> c'" using fat_chain_hd [OF c(5)] by simp
  have read: "rbind (diskoffset h c) (\<lambda>x. msd_read rd (add64 x coff) ?r a) = Inr (take ?r (drop coff (cluster_data d h c)))"
    using Cons.prems(2,3) c(1,2) by (intro cluster_read [OF disk(1) _ _ disk(2,3)]) auto
  have step: "chain_loop fuel rd h 512 c coff n (Some a) m acc =
      chain_loop k rd h 512 c' 0 (n - ?r) (Some (add64 a ?r)) (m + ?r) (acc @ take ?r (drop coff (cluster_data d h c)))"
    using Cons.prems(2) c(3,4) c' read by (subst chain_loop.simps) (simp add: k(1) fat_next_def Let_def)
  show ?case
  proof (cases "n \<le> 512 - coff")
    case True
    then have "?r = n" by simp
    then show ?thesis unfolding step using True by (simp add: chain_loop.simps)
  next
    case False
    then have r: "?r = 512 - coff" by simp
    have "chain_loop k rd h 512 c' 0 (n - ?r) (Some (add64 a ?r)) (m + ?r) (acc @ take ?r (drop coff (cluster_data d h c))) =
        Inr (m + ?r + (n - ?r), (acc @ take ?r (drop coff (cluster_data d h c))) @
          take (n - ?r) (drop 0 (concat (map (cluster_data d h) (c' # cs)))))"
      using Cons.prems(3,4) False r by (intro Cons.IH [OF c(5)] k(2)) auto
    then show ?thesis
      unfolding step r using False Cons.prems(3) by simp
  qed
qed

lemma skip_clusters_ok:
  assumes "fat_chain h cs" and "k < length cs"
  shows "skip_clusters h (hd cs) k = Inr (cs ! k) \<and> fat_chain h (drop k cs)"
  using assms
proof (induction k arbitrary: cs)
  case 0
  then have "cs \<noteq> []" by auto
  then show ?case using 0 by (simp add: hd_conv_nth)
next
  case (Suc k)
  obtain c ds where ds: "cs = c # ds" "k < length ds" using Suc.prems(2) by (cases cs) auto
  obtain c' cs' where cs: "cs = c # c' # cs'" using ds by (cases ds) auto
  have "fat_chain h (c' # cs')" using Suc.prems(1) cs by simp
  from Suc.IH [OF this] have ih: "skip_clusters h c' k = Inr ((c' # cs') ! k)" "fat_chain h (drop k (c' # cs'))"
    using ds cs by auto
  have "fat_chain h (c # c' # cs')" using Suc.prems(1) cs by simp
  then have "fat_next h c = Inr c'" "c < 2 ^ 23" by (simp_all add: fat_next_def)
  then show ?case using ih by (simp add: cs)
qed

lemma chain_size:
  "fat_chain h (c # cs) \<Longrightarrow> coff = 0 \<Longrightarrow> 512 \<le> n \<Longrightarrow> length (c # cs) \<le> fuel \<Longrightarrow>
    chain_loop fuel rd h 512 c coff n None m acc = Inr (m + 512 * length (c # cs), acc)"
proof (induction cs arbitrary: c coff fuel m)
  case Nil
  then show ?case by (subst chain_loop.simps) (cases fuel; auto simp: fat_next_def Let_def)
next
  case (Cons c' cs)
  obtain k where k: "fuel = Suc k" "length (c' # cs) \<le> k" using Cons.prems(4) by (cases fuel) auto
  have c: "c < length (h_fat h)" "h_fat h ! c AND 0x0fffffff = c'" "fat_chain h (c' # cs)" using Cons.prems(1) by auto
  have "\<not> 0x0ffffff8 \<le> c'" using fat_chain_hd [OF c(3)] by simp
  then show ?case
    using Cons.prems(2,3) c Cons.IH [OF c(3) refl Cons.prems(3) k(2), of "m + 512"]
    by (subst chain_loop.simps) (simp add: k(1) fat_next_def Let_def)
qed

lemma concat_clusters:
  "k \<le> length cs \<Longrightarrow> drop (512 * k + r) (concat (map (cluster_data d h) cs)) = drop r (concat (map (cluster_data d h) (drop k cs)))"
proof (induction k arbitrary: cs)
  case 0
  then show ?case by simp
next
  case (Suc k)
  then obtain c cs' where "cs = c # cs'" by (cases cs) auto
  with Suc show ?case by (simp add: add.assoc)
qed

lemma put_part_terminates:
  "put_part ln pos cs = Inr ln' \<Longrightarrow> length ln' = length ln \<and> ln' ! (pos + length cs) = 0"
  by (auto simp: put_part_def nth_append split: if_splits)

section \<open>Properties\<close>


definition tiny_fat :: fat_fshandle where
  "tiny_fat = \<lparr>h_bpb = (parse_bpb (replicate 516 0))\<lparr>bytespersector := 512, sectorspercluster := 1\<rparr>,
     h_fat = [0, 0, 3, 0x0fffffff], h_fatsize = 512, h_dataoffset = 1024\<rparr>"


text \<open>The entries of a long name stand on the disk in descending order. Every entry is written with a terminator behind
  its thirteen characters, which wipes out the first character of the next entry: once the first entry has been written the
  name has at most thirteen characters.\<close>

theorem long_names_cut:
  assumes "put_lfn ln b = Inr ln'" and "b ! 0 AND 0x1f = 1"
  shows "length (takeWhile (\<lambda>c. c \<noteq> 0) ln') \<le> 13"
proof -
  obtain l1 l2 where l: "put_part ln 0 (lfn_part b 1 5) = Inr l1" "put_part l1 5 (lfn_part b 14 6) = Inr l2"
    "put_part l2 11 (lfn_part b 28 2) = Inr ln'"
    using assms by (auto simp: put_lfn_def elim!: rbindE)
  have z: "ln' ! 13 = 0" "length ln' = length l2" using put_part_terminates [OF l(3)] by (auto simp: lfn_part_def)
  have "13 < length ln'" using l(3) z(2) by (auto simp: put_part_def lfn_part_def split: if_splits)
  show ?thesis
  proof (rule ccontr)
    assume long: "\<not> ?thesis"
    then have "takeWhile (\<lambda>c. c \<noteq> 0) ln' ! 13 \<in> set (takeWhile (\<lambda>c. c \<noteq> 0) ln')" by (intro nth_mem) simp
    moreover have "takeWhile (\<lambda>c. c \<noteq> 0) ln' ! 13 = ln' ! 13" using long by (intro takeWhile_nth) simp
    ultimately show False using z(1) by (auto dest: set_takeWhileD)
  qed
qed

theorem long_names_cut_witness:
  "\<exists>ln'. put_lfn (replicate 256 65) (1 # replicate 31 66) = Inr ln' \<and> length (takeWhile (\<lambda>c. c \<noteq> 0) ln') \<le> 13"
proof -
  have "\<exists>ln'. put_lfn (replicate 256 65) (1 # replicate 31 66) = Inr ln'"
    by (simp add: put_lfn_def put_part_def lfn_part_def)
  then obtain ln' where l: "put_lfn (replicate 256 65) (1 # replicate 31 66) = Inr ln'" by blast
  have "(1 # replicate 31 66 :: 8 word list) ! 0 AND 0x1f = 1" by simp
  from long_names_cut [OF l this] l show ?thesis by blast
qed

end
