(* ===== verification/Input.thy ===== *)
theory Input
  imports Bitmap Paging KString
begin

text \<open>
  From the keyboard to the command line: the key state and the line buffer of \<^verbatim>\<open>devmgr/input/input.cc\<close>, the debugging
  commands of \<^verbatim>\<open>cmdline/cmdline.cc\<close>, and the PS/2 module (\<^verbatim>\<open>modules/ps2/src/ps2.cc\<close>). Characters that are
  echoed and lines that are evaluated are recorded in the order in which they occur.
\<close>

unbundle bit_operations_syntax

section \<open>Command line\<close>

datatype callback = Help | MemUsage | Lookup | Peek nat | Custom nat

record command =
  cmd_name :: string
  cmd_callback :: callback
  cmd_desc :: string

text \<open>The commands in the order of their slots.\<close>

record cmdline =
  cmdline_active :: bool
  cmds :: "command list"

definition builtin_cmds :: "command list" where
  "builtin_cmds =
     [\<lparr>cmd_name = ''help'', cmd_callback = Help, cmd_desc = ''Displays all commands''\<rparr>,
      \<lparr>cmd_name = ''mem'', cmd_callback = MemUsage, cmd_desc = ''Show memory usage''\<rparr>,
      \<lparr>cmd_name = ''lookup'', cmd_callback = Lookup, cmd_desc = ''Translate virtual memory address to physical''\<rparr>,
      \<lparr>cmd_name = ''xq'', cmd_callback = Peek 8, cmd_desc = ''Read memory address (QWORD)''\<rparr>,
      \<lparr>cmd_name = ''xl'', cmd_callback = Peek 4, cmd_desc = ''Read memory address (DWORD)''\<rparr>,
      \<lparr>cmd_name = ''xw'', cmd_callback = Peek 2, cmd_desc = ''Read memory address (WORD)''\<rparr>,
      \<lparr>cmd_name = ''xb'', cmd_callback = Peek 1, cmd_desc = ''Read memory address (BYTE)''\<rparr>]"

text \<open>What the commands that read an address answer. The bytes are those at the virtual address, lowest first.\<close>

datatype peeked = NonCanonical | NotMapped | Bytes "8 word list"

definition cmd_peek :: "nat \<Rightarrow> vm \<Rightarrow> (64 word \<Rightarrow> 8 word) \<Rightarrow> split_iter \<Rightarrow> (peeked \<times> vm) res" where
  "cmd_peek n st mem args =
     rbind (view_to_uint (split_deref args) 10) (\<lambda>a.
     let virt = of_nat a :: 64 word; upper = ucast (drop_bit 47 virt) :: 32 word in
     if upper \<noteq> 0xffff8 \<and> upper \<noteq> 0 then Inr (NonCanonical, st)
     else
       let (r, st) = paging_lookup_current st virt in
       if r = - 1 then Inr (NotMapped, st)
       else Inr (Bytes (map (\<lambda>i. mem (virt + of_nat i)) [0..<n]), st))"

definition cmd_lookup :: "vm \<Rightarrow> split_iter \<Rightarrow> ((64 word \<times> 64 word) \<times> vm) res" where
  "cmd_lookup st args =
     rbind (view_to_uint (split_deref args) 10) (\<lambda>a.
     let virt = of_nat a; (phys, st) = paging_lookup_current st virt in Inr ((virt, phys), st))"

text \<open>\<open>buf\<close> is the buffer from its start, with what is left of older lines behind the terminator, which the arguments of a
  command without any are taken from.\<close>

datatype outcome = Ignored | Prompted | Called callback split_iter | Nonsense

fun find_cmd :: "command list \<Rightarrow> split_iter \<Rightarrow> outcome res" where
  "find_cmd [] it = Inr Nonsense"
| "find_cmd (c # cs) it =
     rbind (view_eq (split_deref it) (cmd_name c)) (\<lambda>eq.
     if eq then (case split_inc it of None \<Rightarrow> Inl Undefined | Some args \<Rightarrow> Inr (Called (cmd_callback c) args))
     else find_cmd cs it)"

definition cmdline_evaluate_buffer :: "cmdline \<Rightarrow> string \<Rightarrow> nat \<Rightarrow> outcome res" where
  "cmdline_evaluate_buffer cl buf n =
     (if \<not> cmdline_active cl then Inr Ignored
      else if n = 0 then Inr Prompted
      else find_cmd (cmds cl) (split_str buf (CHR '' '')))"

definition cmdline_set_active :: "bool \<Rightarrow> cmdline \<Rightarrow> cmdline" where
  "cmdline_set_active b cl = cl\<lparr>cmdline_active := b\<rparr>"

section \<open>Keys\<close>

text \<open>The keys numbered from the code after the tilde.\<close>

definition special_keys :: "string list" where
  "special_keys =
     [''F1'', ''F2'', ''F3'', ''F4'', ''F5'', ''F6'', ''F7'', ''F8'', ''F9'', ''F10'', ''F11'', ''F12'',
      ''Insert'', ''DeleteKey'', ''Home'', ''End'', ''PageUp'', ''PageDown'',
      ''ArrowUp'', ''ArrowDown'', ''ArrowLeft'', ''ArrowRight'',
      ''CapsLock'', ''NumLock'', ''ScrollLock'', ''ShiftLeft'', ''ShiftRight'', ''CtrlLeft'', ''CtrlRight'',
      ''AltLeft'', ''AltRight'', ''MetaLeft'', ''MetaRight'', ''Menu'', ''PrintScreen'', ''Pause'',
      ''Numpad0'', ''Numpad1'', ''Numpad2'', ''Numpad3'', ''Numpad4'',
      ''Numpad5'', ''Numpad6'', ''Numpad7'', ''Numpad8'', ''Numpad9'',
      ''NumpadAdd'', ''NumpadSub'', ''NumpadMul'', ''NumpadDiv'', ''NumpadEnter'', ''NumpadDot'']"

definition NUM_SCANCODES :: nat where
  "NUM_SCANCODES = ch (CHR ''~'') + 1 + length special_keys"

definition INPUT_BUFFER_MAX_SIZE :: nat where
  "INPUT_BUFFER_MAX_SIZE = 4096"

definition kbd_translate_hu :: "8 word \<Rightarrow> 32 word" where
  "kbd_translate_hu c =
     (let k = unat c in
      if k = ch (CHR '']'') then 0x151 else if k = ch (CHR ''['') then 0xfa
      else if k = ch (CHR '';'') then 0xe9 else if k = 0x27 then 0xe1 else if k = 0x5c then 0x171
      else if k = ch (CHR '','') then of_nat (ch (CHR '','')) else if k = ch (CHR ''.'') then of_nat (ch (CHR ''.''))
      else if k = ch (CHR ''/'') then of_nat (ch (CHR ''-''))
      else if k = 0x60 then of_nat (ch (CHR ''0'')) else if k = ch (CHR ''0'') then 0xf6
      else if k = ch (CHR ''-'') then 0xfc else if k = ch (CHR ''='') then 0xf3
      else ucast c)"

datatype event = Echo char | Evaluated outcome

record input =
  in_buf :: string
  in_size :: nat
  kbd_state :: bitmap
  kbd_last_key :: "8 word"
  kbd_last_time :: nat
  in_log :: "event list"

definition buf_put :: "input \<Rightarrow> nat \<Rightarrow> char \<Rightarrow> input res" where
  "buf_put st i c = (if i < length (in_buf st) then Inr (st\<lparr>in_buf := (in_buf st)[i := c]\<rparr>) else Inl Undefined)"

definition append_char :: "cmdline \<Rightarrow> input \<Rightarrow> 8 word \<Rightarrow> input res" where
  "append_char cl st sc =
     (let c = kbd_translate_hu sc; b = char_of (unat c) :: char in
      if drop_bit 24 c \<noteq> 0 then Inl (Fatal ''UTF-8 characters with more than 3 code points are not supported!'')
      else if in_size st = INPUT_BUFFER_MAX_SIZE - 1 then Inr st
      else if c AND NOT 0x7f \<noteq> 0 then Inr st
      else
        let st = (if in_size st \<noteq> 0 \<and> c = 8 \<or> c \<noteq> 8 then st\<lparr>in_log := in_log st @ [Echo b]\<rparr> else st) in
        if c = 10 then
          rbind (buf_put st (in_size st) NUL) (\<lambda>st.
          rbind (cmdline_evaluate_buffer cl (in_buf st) (in_size st)) (\<lambda>r.
          buf_put (st\<lparr>in_log := in_log st @ [Evaluated r], in_size := 0\<rparr>) 0 NUL))
        else if c = 8 then
          if in_size st > 0 then let st = st\<lparr>in_size := in_size st - 1\<rparr> in buf_put st (in_size st) NUL else Inr st
        else rbind (buf_put st (in_size st) b) (\<lambda>st. Inr (st\<lparr>in_size := in_size st + 1\<rparr>)))"

text \<open>\<open>buf\<close> and \<open>ws\<close> are what the two new blocks contain.\<close>

definition input_init :: "wm \<Rightarrow> string \<Rightarrow> 64 word list \<Rightarrow> input \<Rightarrow> (input \<times> wm) res" where
  "input_init w buf ws st =
     rbind (wm_alloc w INPUT_BUFFER_MAX_SIZE 16) (\<lambda>(_, w).
     rbind (wm_alloc w (NUM_SCANCODES div 8) 16) (\<lambda>(_, w).
     rbind (bitmap_init ws NUM_SCANCODES False) (\<lambda>b. Inr (st\<lparr>in_buf := buf, kbd_state := b\<rparr>, w))))"

definition kbd_onrepeat :: "cmdline \<Rightarrow> input \<Rightarrow> input res" where
  "kbd_onrepeat cl st =
     rbind (bitmap_get (kbd_state st) (unat (kbd_last_key st))) (\<lambda>held.
     if held then append_char cl st (kbd_last_key st) else Inr st)"

definition kbd_press :: "cmdline \<Rightarrow> nat \<Rightarrow> input \<Rightarrow> 8 word \<Rightarrow> input res" where
  "kbd_press cl now st c =
     rbind (bitmap_get (kbd_state st) (unat c)) (\<lambda>held.
     if held then Inr st
     else
       let st = st\<lparr>kbd_last_key := c, kbd_last_time := now\<rparr> in
       rbind (bitmap_set (kbd_state st) (unat c) True) (\<lambda>b. append_char cl (st\<lparr>kbd_state := b\<rparr>) c))"

definition kbd_release :: "input \<Rightarrow> 8 word \<Rightarrow> input res" where
  "kbd_release st c = rbind (bitmap_set (kbd_state st) (unat c) False) (\<lambda>b. Inr (st\<lparr>kbd_state := b\<rparr>))"

section \<open>The PS/2 controller\<close>

text \<open>The hardware is an argument: what a port answers, how its state changes on an access, and what happens while the driver
  waits.\<close>

record 's ports =
  in8 :: "'s \<Rightarrow> 16 word \<Rightarrow> 8 word \<times> 's"
  out8 :: "'s \<Rightarrow> 16 word \<Rightarrow> 8 word \<Rightarrow> 's"
  wait8 :: "'s \<Rightarrow> 's"

datatype i8042Cmds =
    READ_CFG | WRITE_CFG | SELF_TEST | ENABLE_FIRST | DISABLE_FIRST | ENABLE_SECOND | DISABLE_SECOND | TEST_FIRST | TEST_SECOND

fun i8042_code :: "i8042Cmds \<Rightarrow> 8 word" where
  "i8042_code READ_CFG = 0x20"
| "i8042_code WRITE_CFG = 0x60"
| "i8042_code SELF_TEST = 0xaa"
| "i8042_code ENABLE_FIRST = 0xae"
| "i8042_code DISABLE_FIRST = 0xad"
| "i8042_code ENABLE_SECOND = 0xa8"
| "i8042_code DISABLE_SECOND = 0xa7"
| "i8042_code TEST_FIRST = 0xab"
| "i8042_code TEST_SECOND = 0xa9"

text \<open>Ports \<^verbatim>\<open>CMD\<close> and \<^verbatim>\<open>DATA\<close>. Bit 0 of the status says that there is data to read, bit 1 that the last byte written has not been taken
  yet.\<close>

definition ps2_getsts :: "'s ports \<Rightarrow> 's \<Rightarrow> 8 word \<times> 's" where
  "ps2_getsts hw s = in8 hw s 0x64"

primrec poll_data_available :: "nat \<Rightarrow> 's ports \<Rightarrow> 's \<Rightarrow> bool \<times> 's" where
  "poll_data_available 0 hw s = (let (x, s) = ps2_getsts hw s in (False, s))"
| "poll_data_available (Suc tries) hw s =
     (let (x, s) = ps2_getsts hw s in if \<not> bit x 0 then poll_data_available tries hw (wait8 hw s) else (True, s))"

primrec poll_standby :: "nat \<Rightarrow> 's ports \<Rightarrow> 's \<Rightarrow> 's res" where
  "poll_standby 0 hw s = Inl (Fatal ''Input buffer is not getting cleared!'')"
| "poll_standby (Suc tries) hw s =
     (let (x, s) = ps2_getsts hw s in if bit x 1 then poll_standby tries hw (wait8 hw s) else Inr s)"

definition ps2_read :: "'s ports \<Rightarrow> 's \<Rightarrow> 8 word \<times> 's" where
  "ps2_read hw s = (let (ok, s) = poll_data_available 10 hw s in if ok then in8 hw s 0x60 else (0, s))"

definition ps2_write :: "'s ports \<Rightarrow> 's \<Rightarrow> 8 word \<Rightarrow> 's res" where
  "ps2_write hw s x = rbind (poll_standby 10 hw s) (\<lambda>s. Inr (out8 hw s 0x60 x))"

definition ps2_command :: "'s ports \<Rightarrow> 's \<Rightarrow> i8042Cmds \<Rightarrow> 's res" where
  "ps2_command hw s c = rbind (poll_standby 10 hw s) (\<lambda>s. Inr (out8 hw s 0x64 (i8042_code c)))"

text \<open>The codes from 0x70 are zero as well.\<close>

definition scancode_set2_to_ascii :: "8 word list" where
  "scancode_set2_to_ascii =
     [0x00, 0x00, 0x00, 0x00, 0x00, 0x00, 0x00, 0x00, 0x00, 0x00, 0x00, 0x00, 0x00, 0x09, 0x60, 0x00,
      0x00, 0x00, 0x00, 0x00, 0x00, 0x71, 0x31, 0x00, 0x00, 0x00, 0x7a, 0x73, 0x61, 0x77, 0x32, 0x00,
      0x00, 0x63, 0x78, 0x64, 0x65, 0x34, 0x33, 0x00, 0x00, 0x20, 0x76, 0x66, 0x74, 0x72, 0x35, 0x00,
      0x00, 0x6e, 0x62, 0x68, 0x67, 0x79, 0x36, 0x00, 0x00, 0x00, 0x6d, 0x6a, 0x75, 0x37, 0x38, 0x00,
      0x00, 0x2c, 0x6b, 0x69, 0x6f, 0x30, 0x39, 0x00, 0x00, 0x2e, 0x2f, 0x6c, 0x3b, 0x70, 0x2d, 0x00,
      0x00, 0x00, 0x27, 0x00, 0x5b, 0x3d, 0x00, 0x00, 0x00, 0x00, 0x0a, 0x5d, 0x00, 0x5c, 0x00, 0x00,
      0x00, 0x00, 0x00, 0x00, 0x00, 0x00, 0x08, 0x00, 0x00, 0x00, 0x00, 0x00, 0x00, 0x00, 0x00, 0x00] @ replicate 144 0"

record ps2 =
  released :: bool
  ps2_input :: input

definition handle_code :: "cmdline \<Rightarrow> nat \<Rightarrow> ps2 \<Rightarrow> 8 word \<Rightarrow> ps2 res" where
  "handle_code cl now st code =
     (let key = scancode_set2_to_ascii ! unat code in
      if code = 0xf0 then Inr (st\<lparr>released := True\<rparr>)
      else if code > 0x6f then Inr st
      else if released st then rbind (kbd_release (ps2_input st) key) (\<lambda>i. Inr (st\<lparr>released := False, ps2_input := i\<rparr>))
      else rbind (kbd_press cl now (ps2_input st) key) (\<lambda>i. Inr (st\<lparr>ps2_input := i\<rparr>)))"

definition handlekb :: "cmdline \<Rightarrow> nat \<Rightarrow> 's ports \<Rightarrow> 's \<Rightarrow> ps2 \<Rightarrow> (ps2 \<times> 's) res" where
  "handlekb cl now hw s st = (let (code, s) = ps2_read hw s in rbind (handle_code cl now st code) (\<lambda>st. Inr (st, s)))"

definition handlemouse :: "'s ports \<Rightarrow> 's \<Rightarrow> 's" where
  "handlemouse hw s = snd (ps2_read hw s)"

text \<open>The bit fields of \<^verbatim>\<open>config_byte\<close> by position, from \<^verbatim>\<open>irq_kb\<close>, bit 0, to \<^verbatim>\<open>first_port_translation\<close>, bit 6.\<close>

definition cfg_put :: "nat \<Rightarrow> bool \<Rightarrow> 8 word \<Rightarrow> 8 word" where
  "cfg_put i v w = (if v then w OR push_bit i 1 else w AND NOT (push_bit i 1))"

definition ps2_read_cfg :: "'s ports \<Rightarrow> 's \<Rightarrow> (8 word \<times> 's) res" where
  "ps2_read_cfg hw s = rbind (ps2_command hw s READ_CFG) (\<lambda>s. Inr (ps2_read hw s))"

definition ps2_write_cfg :: "'s ports \<Rightarrow> 's \<Rightarrow> 8 word \<Rightarrow> 's res" where
  "ps2_write_cfg hw s cfg = rbind (ps2_command hw s WRITE_CFG) (\<lambda>s. ps2_write hw s cfg)"

text \<open>Whether the two interrupt handlers are installed at the end.\<close>

definition ps2_main :: "'s ports \<Rightarrow> 's \<Rightarrow> (bool \<times> 's) res" where
  "ps2_main hw s =
     rbind (ps2_command hw s DISABLE_FIRST) (\<lambda>s.
     rbind (ps2_command hw s DISABLE_SECOND) (\<lambda>s.
     let s = snd (in8 hw s 0x60) in
     rbind (ps2_read_cfg hw s) (\<lambda>(cfg, s).
     let cfg = cfg_put 6 False (cfg_put 0 False (cfg_put 4 False cfg)) in
     rbind (ps2_write_cfg hw s cfg) (\<lambda>s.
     rbind (ps2_command hw s SELF_TEST) (\<lambda>s.
     let (resp, s) = ps2_read hw s in
     if resp \<noteq> 0x55 then Inr (False, s)
     else
     rbind (ps2_write_cfg hw s cfg) (\<lambda>s.
     rbind (ps2_command hw s ENABLE_SECOND) (\<lambda>s.
     rbind (ps2_read_cfg hw s) (\<lambda>(cfg, s).
     rbind (if bit cfg 5 then rbind (ps2_command hw s DISABLE_SECOND) (\<lambda>s. ps2_read_cfg hw s) else Inr (cfg, s)) (\<lambda>(cfg, s).
     rbind (ps2_command hw s TEST_FIRST) (\<lambda>s.
     let (resp, s) = ps2_read hw s; port1 = (resp = 0) in
     rbind (ps2_command hw s TEST_SECOND) (\<lambda>s.
     let (resp, s) = ps2_read hw s; port2 = (resp = 0) in
     rbind
       (if port1
        then rbind (ps2_command hw s ENABLE_FIRST) (\<lambda>s.
             rbind (ps2_read_cfg hw s) (\<lambda>(cfg, s).
             ps2_write_cfg hw s (cfg_put 6 False (cfg_put 0 True (cfg_put 4 False cfg)))))
        else Inr s) (\<lambda>s.
     rbind
       (if port2
        then rbind (ps2_command hw s ENABLE_SECOND) (\<lambda>s.
             rbind (ps2_read_cfg hw s) (\<lambda>(cfg, s).
             ps2_write_cfg hw s (cfg_put 1 True (cfg_put 5 False cfg))))
        else Inr s) (\<lambda>s. Inr (True, s))))))))))))))"

section \<open>Line editing\<close>

text \<open>The line that is being typed, and what a character does to it.\<close>

definition edit :: "string \<Rightarrow> char \<Rightarrow> string" where
  "edit l c = (if c = CHR 0x08 then butlast l else l @ [c])"

definition in_line :: "input \<Rightarrow> string" where
  "in_line st = take (in_size st) (in_buf st)"

definition in_ok :: "input \<Rightarrow> bool" where
  "in_ok st \<longleftrightarrow> length (in_buf st) = INPUT_BUFFER_MAX_SIZE \<and> in_size st < INPUT_BUFFER_MAX_SIZE \<and>
     bitmap_wf (kbd_state st) \<and> sz (kbd_state st) = 128"

text \<open>Keys with an ASCII character other than the end of the line.\<close>

definition key_char :: "8 word \<Rightarrow> char" where
  "key_char k = char_of (unat (kbd_translate_hu k))"

definition plain_key :: "8 word \<Rightarrow> bool" where
  "plain_key k \<longleftrightarrow> k < 128 \<and> unat (kbd_translate_hu k) < 128 \<and> kbd_translate_hu k \<noteq> 10"

lemma input_init_ok:
  assumes "input_init w buf ws st = Inr (st', w')" "length buf = INPUT_BUFFER_MAX_SIZE" "in_size st = 0" "2 \<le> length ws"
  shows "in_ok st' \<and> in_line st' = []"
proof -
  have n: "align_down NUM_SCANCODES 64 = 128" by (simp add: align_down_def NUM_SCANCODES_def special_keys_def ch_def)
  obtain b where b: "bitmap_init ws NUM_SCANCODES False = Inr b" "st' = st\<lparr>in_buf := buf, kbd_state := b\<rparr>"
    using assms(1) by (auto simp: input_init_def elim!: rbindE)
  have "fill_words ws 0 0 2 = Inr (ws[0 := 0, Suc 0 := 0])"
    using assms(4) by (auto simp: fill_words.simps numeral_2_eq_2)
  hence "buffer b = ws[0 := 0, Suc 0 := 0]" "sz b = 128" using b(1) n by (auto simp: bitmap_init_def Let_def)
  thus ?thesis using b(2) assms(2-4) by (auto simp: in_ok_def in_line_def bitmap_wf_def INPUT_BUFFER_MAX_SIZE_def)
qed

lemma ascii_bits:
  fixes c :: "32 word"
  assumes "unat c < 128"
  shows "drop_bit 24 c = 0" "c AND NOT 0x7f = 0"
proof -
  have "unat (take_bit 7 c) = take_bit 7 (unat c)" by (rule unsigned_take_bit_eq)
  hence "take_bit 7 c = c" using assms by (simp add: word_unat_eq_iff take_bit_nat_eq_self)
  hence r: "k < 7" if "bit c k" for k using that by (metis bit_take_bit_iff)
  have m: "(0x7f :: 32 word) = mask 7" by (simp add: mask_eq_exp_minus_1)
  show "drop_bit 24 c = 0" by (rule bit_word_eqI) (auto simp: bit_simps dest: r)
  show "c AND NOT 0x7f = 0" unfolding m by (rule bit_word_eqI) (auto simp: bit_simps dest: r)
qed

lemma key_char_backspace: "plain_key k \<Longrightarrow> key_char k = CHR 0x08 \<longleftrightarrow> kbd_translate_hu k = 8"
  by (auto simp: plain_key_def key_char_def word_unat_eq_iff char_of_eq_iff take_bit_nat_eq_self)

lemma append_plain:
  assumes "in_ok st" "plain_key k" "in_size st < INPUT_BUFFER_MAX_SIZE - 1"
  obtains st' where "append_char cl st k = Inr st'" "in_ok st'" "in_line st' = edit (in_line st) (key_char k)"
    "kbd_state st' = kbd_state st" "in_size st' \<le> in_size st + 1"
    "\<forall>r. Evaluated r \<in> set (in_log st') \<longrightarrow> Evaluated r \<in> set (in_log st)"
proof -
  let ?c = "kbd_translate_hu k"
  have len: "length (in_buf st) = INPUT_BUFFER_MAX_SIZE" "in_size st < INPUT_BUFFER_MAX_SIZE"
    "in_size st - Suc 0 < INPUT_BUFFER_MAX_SIZE"
    using assms(1) by (auto simp: in_ok_def)
  have u: "unat ?c < 128" "?c \<noteq> 10" using assms(2) by (simp_all add: plain_key_def)
  note c = ascii_bits [OF u(1)] u(2)
  have room: "in_size st \<noteq> INPUT_BUFFER_MAX_SIZE - 1" using assms(3) by simp
  show ?thesis
  proof (cases "?c = 8")
    case True
    hence e: "edit (in_line st) (key_char k) = butlast (in_line st)"
      using key_char_backspace [OF assms(2)] by (simp add: edit_def)
    show ?thesis
    proof (cases "in_size st = 0")
      case True
      thus ?thesis using \<open>?c = 8\<close> e assms(1) room by (intro that [of st]) (auto simp: append_char_def Let_def in_line_def)
    next
      case False
      let ?st = "st\<lparr>in_log := in_log st @ [Echo (key_char k)], in_size := in_size st - 1, in_buf := (in_buf st)[in_size st - 1 := NUL]\<rparr>"
      have "append_char cl st k = Inr ?st"
        using False True c room len by (simp add: append_char_def Let_def buf_put_def key_char_def)
      thus ?thesis using False e assms(1) len
        by (intro that [of ?st]) (auto simp: in_ok_def in_line_def butlast_take)
    qed
  next
    case False
    let ?st = "st\<lparr>in_log := in_log st @ [Echo (key_char k)], in_buf := (in_buf st)[in_size st := key_char k], in_size := in_size st + 1\<rparr>"
    have "append_char cl st k = Inr ?st"
      using False c room len by (simp add: append_char_def Let_def buf_put_def key_char_def)
    moreover have "edit (in_line st) (key_char k) = in_line st @ [key_char k]"
      using key_char_backspace [OF assms(2)] False by (simp add: edit_def)
    ultimately show ?thesis using assms(1,3) len
      by (intro that [of ?st]) (auto simp: in_ok_def in_line_def take_Suc_conv_app_nth)
  qed
qed

text \<open>A stroke presses a key and releases it.\<close>

definition stroke :: "cmdline \<Rightarrow> nat \<Rightarrow> input \<Rightarrow> 8 word \<Rightarrow> input res" where
  "stroke cl now st k = rbind (kbd_press cl now st k) (\<lambda>st. kbd_release st k)"

fun strokes :: "cmdline \<Rightarrow> nat \<Rightarrow> input \<Rightarrow> 8 word list \<Rightarrow> input res" where
  "strokes cl now st [] = Inr st"
| "strokes cl now st (k # ks) = rbind (stroke cl now st k) (\<lambda>st. strokes cl now st ks)"

definition no_key :: "input \<Rightarrow> bool" where
  "no_key st \<longleftrightarrow> (\<forall>i < 128. \<not> bits (kbd_state st) i)"

lemma unat_below_128: "(k :: 8 word) < 128 \<Longrightarrow> unat k < 128"
  by (simp add: word_less_nat_alt)

text \<open>A stroke of a free key is the character it appends; the key is free again afterwards.\<close>

lemma stroke_eq:
  assumes "in_ok st" "no_key st" "k < 128"
    and app: "\<And>st0. in_ok st0 \<Longrightarrow> in_line st0 = in_line st \<Longrightarrow> in_size st0 = in_size st \<Longrightarrow> in_log st0 = in_log st \<Longrightarrow>
      in_buf st0 = in_buf st \<Longrightarrow> \<exists>st1. append_char cl st0 k = Inr st1 \<and> in_ok st1 \<and> kbd_state st1 = kbd_state st0 \<and> P st1"
    and frame: "\<And>st1 b. P st1 \<Longrightarrow> P (st1\<lparr>kbd_state := b\<rparr>)"
  shows "\<exists>st'. stroke cl now st k = Inr st' \<and> in_ok st' \<and> no_key st' \<and> P st'"
proof -
  have wf: "bitmap_wf (kbd_state st)" "sz (kbd_state st) = 128" using assms(1) by (simp_all add: in_ok_def)
  note k = unat_below_128 [OF assms(3)]
  have ks: "unat k < sz (kbd_state st)" using k wf(2) by simp
  have free: "bitmap_get (kbd_state st) (unat k) = Inr False"
    using bitmap_get_eq [OF wf(1) ks] assms(2) k by (simp add: no_key_def)
  obtain b where b: "bitmap_set (kbd_state st) (unat k) True = Inr b" "bitmap_wf b" "sz b = sz (kbd_state st)"
    "bits b = (bits (kbd_state st))(unat k := True)"
    by (rule bitmap_set_ok [OF wf(1) ks])
  let ?st0 = "st\<lparr>kbd_last_key := k, kbd_last_time := now, kbd_state := b\<rparr>"
  have "in_ok ?st0" using assms(1) b(2,3) by (simp add: in_ok_def)
  then obtain st1 where st1: "append_char cl ?st0 k = Inr st1" "in_ok st1" "kbd_state st1 = b" "P st1"
    using app [of ?st0] by (auto simp: in_line_def)
  have "unat k < sz b" using ks b(3) by simp
  then obtain b' where b': "bitmap_set b (unat k) False = Inr b'" "bitmap_wf b'" "sz b' = sz b"
    "bits b' = (bits b)(unat k := False)"
    by (rule bitmap_set_ok [OF b(2)])
  have "stroke cl now st k = Inr (st1\<lparr>kbd_state := b'\<rparr>)"
    using free b(1) st1(1,3) b'(1) by (simp add: stroke_def kbd_press_def kbd_release_def)
  moreover have "in_ok (st1\<lparr>kbd_state := b'\<rparr>)" using st1(2) b'(2,3) b(3) wf(2) by (simp add: in_ok_def)
  moreover have "no_key (st1\<lparr>kbd_state := b'\<rparr>)" using assms(2) b(4) b'(4) by (simp add: no_key_def)
  ultimately show ?thesis using frame [OF st1(4)] by blast
qed

lemma stroke_plain:
  assumes "in_ok st" "no_key st" "plain_key k" "in_size st < INPUT_BUFFER_MAX_SIZE - 1"
  shows "\<exists>st'. stroke cl now st k = Inr st' \<and> in_ok st' \<and> no_key st' \<and> in_line st' = edit (in_line st) (key_char k) \<and>
    in_size st' \<le> in_size st + 1"
proof (rule stroke_eq [OF assms(1,2)])
  show "k < 128" using assms(3) by (simp add: plain_key_def)
  fix st0 assume "in_ok st0" "in_line st0 = in_line st" "in_size st0 = in_size st"
  thus "\<exists>st1. append_char cl st0 k = Inr st1 \<and> in_ok st1 \<and> kbd_state st1 = kbd_state st0 \<and>
      in_line st1 = edit (in_line st) (key_char k) \<and> in_size st1 \<le> in_size st + 1"
    using append_plain [of st0 k cl] assms(3,4) by metis
qed (simp add: in_line_def)

lemma strokes_plain:
  assumes "in_ok st" "no_key st" "\<forall>k \<in> set ks. plain_key k" "in_size st + length ks < INPUT_BUFFER_MAX_SIZE"
  shows "\<exists>st'. strokes cl now st ks = Inr st' \<and> in_ok st' \<and> no_key st' \<and>
    in_line st' = fold (\<lambda>k l. edit l (key_char k)) ks (in_line st) \<and> in_size st' \<le> in_size st + length ks"
  using assms
proof (induction ks arbitrary: st)
  case (Cons k ks)
  obtain st1 where 1: "stroke cl now st k = Inr st1" "in_ok st1" "no_key st1" "in_line st1 = edit (in_line st) (key_char k)"
    "in_size st1 \<le> in_size st + 1"
    using stroke_plain [OF Cons.prems(1,2)] Cons.prems(3,4) by fastforce
  have "in_size st1 + length ks < INPUT_BUFFER_MAX_SIZE" using 1(5) Cons.prems(4) by simp
  then obtain st2 where "strokes cl now st1 ks = Inr st2" "in_ok st2" "no_key st2"
    "in_line st2 = fold (\<lambda>k l. edit l (key_char k)) ks (in_line st1)" "in_size st2 \<le> in_size st1 + length ks"
    using Cons.IH [OF 1(2,3)] Cons.prems(3) by auto
  thus ?case using 1 by simp
qed simp

section \<open>Evaluating a line\<close>

lemma view_eq_loop_word:
  assumes "NUL \<notin> set rhs" "i \<le> length rhs" "i + n \<le> length s" "NUL \<notin> set (take n (drop i s))"
  shows "view_eq_loop rhs s i n = Inr (drop i rhs = take n (drop i s))"
  using assms
proof (induction n arbitrary: i)
  case 0
  thus ?case by (cases "i < length rhs") (auto simp: char_at_def in_set_conv_nth)
next
  case (Suc n)
  have i: "i < length s" using Suc.prems(3) by simp
  have d: "take (Suc n) (drop i s) = s ! i # take n (drop (Suc i) s)"
    using i by (simp add: Cons_nth_drop_Suc [symmetric])
  have nz: "s ! i \<noteq> NUL" using Suc.prems(4) unfolding d by auto
  show ?case
  proof (cases "i < length rhs")
    case True
    hence r: "drop i rhs = rhs ! i # drop (Suc i) rhs" by (simp add: Cons_nth_drop_Suc)
    show ?thesis
    proof (cases "rhs ! i = s ! i")
      case True
      thus ?thesis using Suc.IH [of "Suc i"] Suc.prems \<open>i < length rhs\<close> i unfolding r d by (simp add: char_at_def)
    next
      case False
      thus ?thesis using \<open>i < length rhs\<close> i unfolding r d by (simp add: char_at_def)
    qed
  next
    case False
    thus ?thesis using nz i Suc.prems(2) unfolding d by (simp add: char_at_def)
  qed
qed

lemma takeWhile_short: "x \<in> set xs \<Longrightarrow> \<not> P x \<Longrightarrow> length (takeWhile P xs) < length xs"
  by (induction xs) auto

lemma seg_len_word: "seg_len s d = length (takeWhile (\<lambda>c. c \<noteq> NUL \<and> c \<noteq> d) s)"
  by (induction s) simp_all

lemma find_cmd_spec:
  assumes "\<forall>c \<in> set cs. NUL \<notin> set (cmd_name c)" "NUL \<in> set (it_str it)"
  defines "w \<equiv> takeWhile (\<lambda>c. c \<noteq> NUL \<and> c \<noteq> it_delim it) (it_str it)"
  shows "\<exists>args. split_inc it = Some args \<and> find_cmd cs it =
    Inr (case find (\<lambda>c. cmd_name c = w) cs of None \<Rightarrow> Nonsense | Some c \<Rightarrow> Called (cmd_callback c) args)"
proof -
  have len: "length w < length (it_str it)"
    unfolding w_def by (rule takeWhile_short [OF assms(2)]) simp
  have take: "take (length w) (it_str it) = w" unfolding w_def by (rule takeWhile_eq_take [symmetric])
  have nz: "NUL \<notin> set w" unfolding w_def by (auto dest: set_takeWhileD)
  obtain x xs where "drop (length w) (it_str it) = x # xs" using len by (cases "drop (length w) (it_str it)") auto
  then obtain args where a: "split_inc it = Some args"
    by (simp add: split_inc_def seg_len_word w_def [symmetric])
  have eq: "view_eq (split_deref it) n = Inr (n = w)" if "NUL \<notin> set n" for n
    using view_eq_loop_word [OF that, of 0 "length w" "it_str it"] len take nz
    by (simp add: view_eq_def split_deref_def seg_len_word w_def [symmetric])
  have "find_cmd cs it = Inr (case find (\<lambda>c. cmd_name c = w) cs of None \<Rightarrow> Nonsense | Some c \<Rightarrow> Called (cmd_callback c) args)"
    using assms(1) by (induction cs) (simp_all add: eq a)
  thus ?thesis using a by blast
qed

text \<open>The answer to a line: the first command whose name is its first word.\<close>

definition answer :: "cmdline \<Rightarrow> string \<Rightarrow> split_iter \<Rightarrow> outcome" where
  "answer cl l args =
     (if \<not> cmdline_active cl then Ignored
      else if l = [] then Prompted
      else case find (\<lambda>c. cmd_name c = takeWhile (\<lambda>c. c \<noteq> CHR '' '') l) (cmds cl) of
          None \<Rightarrow> Nonsense
        | Some c \<Rightarrow> Called (cmd_callback c) args)"

definition names_ok :: "cmdline \<Rightarrow> bool" where
  "names_ok cl \<longleftrightarrow> (\<forall>c \<in> set (cmds cl). NUL \<notin> set (cmd_name c))"

lemma takeWhile_line:
  "NUL \<notin> set l \<Longrightarrow> takeWhile (\<lambda>c. c \<noteq> NUL \<and> c \<noteq> d) (l @ NUL # r) = takeWhile (\<lambda>c. c \<noteq> d) l"
  by (induction l) auto

lemma evaluate_line:
  assumes "names_ok cl" "NUL \<notin> set l"
  shows "\<exists>args. split_inc (split_str (l @ NUL # r) (CHR '' '')) = Some args \<and>
    cmdline_evaluate_buffer cl (l @ NUL # r) (length l) = Inr (answer cl l args)"
  using find_cmd_spec [of "cmds cl" "split_str (l @ NUL # r) (CHR '' '')"] assms
  by (auto simp: cmdline_evaluate_buffer_def answer_def names_ok_def split_str_def takeWhile_line)

lemma append_newline:
  assumes "in_ok st" "in_size st < INPUT_BUFFER_MAX_SIZE - 1" "names_ok cl" "NUL \<notin> set (in_line st)"
  shows "\<exists>st' args. append_char cl st 10 = Inr st' \<and> in_ok st' \<and> kbd_state st' = kbd_state st \<and> in_line st' = [] \<and>
    in_log st' = in_log st @ [Echo (CHR 0x0a), Evaluated (answer cl (in_line st) args)]"
proof -
  have len: "length (in_buf st) = INPUT_BUFFER_MAX_SIZE" "in_size st < INPUT_BUFFER_MAX_SIZE" "0 < INPUT_BUFFER_MAX_SIZE"
    using assms(1) by (simp_all add: in_ok_def INPUT_BUFFER_MAX_SIZE_def)
  have t: "kbd_translate_hu 10 = 10" by (simp add: kbd_translate_hu_def ch_def)
  let ?buf = "(in_buf st)[in_size st := NUL]"
  have b: "?buf = in_line st @ NUL # drop (Suc (in_size st)) (in_buf st)"
    using len by (simp add: in_line_def upd_conv_take_nth_drop)
  have l: "length (in_line st) = in_size st" using len by (simp add: in_line_def)
  obtain args where e: "cmdline_evaluate_buffer cl ?buf (in_size st) = Inr (answer cl (in_line st) args)"
    using evaluate_line [OF assms(3,4)] unfolding b l by metis
  let ?st = "st\<lparr>in_log := in_log st @ [Echo (CHR 0x0a), Evaluated (answer cl (in_line st) args)], in_size := 0, in_buf := ?buf[0 := NUL]\<rparr>"
  have nl: "char_of (10 :: nat) = CHR 0x0a" by (simp add: char_of_def bit_iff_odd)
  have ne: "in_buf st \<noteq> []" using len by auto
  have "append_char cl st 10 = Inr ?st"
    using assms(2) len ne e by (simp add: append_char_def Let_def t buf_put_def drop_bit_eq_div nl)
  moreover have "in_ok ?st" using assms(1) len by (simp add: in_ok_def)
  ultimately show ?thesis by (intro exI [of _ ?st] exI [of _ args]) (simp add: in_line_def)
qed


definition fresh_input :: input where
  "fresh_input = \<lparr>in_buf = replicate 4096 NUL, in_size = 0, kbd_state = \<lparr>buffer = [0, 0], sz = 128\<rparr>, kbd_last_key = 0,
     kbd_last_time = 0, in_log = []\<rparr>"

definition debug_line :: cmdline where
  "debug_line = \<lparr>cmdline_active = True, cmds = builtin_cmds\<rparr>"

lemma fresh_input_ok: "in_ok fresh_input" "no_key fresh_input" "in_line fresh_input = []" "names_ok debug_line"
proof -
  have "bits \<lparr>buffer = [0, 0], sz = 128\<rparr> i = False" if "i < 128" for i
  proof -
    have "i div 64 < 2" using that by auto
    then consider "i div 64 = 0" | "i div 64 = 1" by linarith
    thus ?thesis by cases (simp_all add: bits_def)
  qed
  thus "no_key fresh_input" by (simp add: no_key_def fresh_input_def)
  show "in_ok fresh_input" by (simp add: in_ok_def fresh_input_def bitmap_wf_def INPUT_BUFFER_MAX_SIZE_def)
  show "in_line fresh_input = []" by (simp add: in_line_def fresh_input_def)
  show "names_ok debug_line" by (simp add: names_ok_def debug_line_def builtin_cmds_def)
qed


section \<open>A full buffer\<close>

datatype key_event = Press "8 word" | Release "8 word" | Repeat

fun key_step :: "cmdline \<Rightarrow> nat \<Rightarrow> input \<Rightarrow> key_event \<Rightarrow> input res" where
  "key_step cl now st (Press k) = kbd_press cl now st k"
| "key_step cl now st (Release k) = kbd_release st k"
| "key_step cl now st Repeat = kbd_onrepeat cl st"

fun key_run :: "cmdline \<Rightarrow> nat \<Rightarrow> input \<Rightarrow> key_event list \<Rightarrow> input res" where
  "key_run cl now st [] = Inr st"
| "key_run cl now st (e # es) = rbind (key_step cl now st e) (\<lambda>st. key_run cl now st es)"

fun ascii_event :: "key_event \<Rightarrow> bool" where
  "ascii_event (Press k) = (k < 128)"
| "ascii_event (Release k) = (k < 128)"
| "ascii_event Repeat = True"

lemma translate_24_bits: "drop_bit 24 (kbd_translate_hu k) = 0"
proof -
  have "drop_bit 24 (ucast k :: 32 word) = 0" by (rule bit_word_eqI) (auto simp: bit_simps dest: bit_imp_le_length)
  thus ?thesis by (simp add: kbd_translate_hu_def Let_def ch_def drop_bit_eq_div)
qed

lemma append_full: "in_size st = INPUT_BUFFER_MAX_SIZE - 1 \<Longrightarrow> append_char cl st k = Inr st"
  by (simp add: append_char_def Let_def translate_24_bits)

text \<open>The states a full buffer can get into: only the state of the keys changes.\<close>

definition full_like :: "input \<Rightarrow> input \<Rightarrow> bool" where
  "full_like st st' \<longleftrightarrow> in_ok st' \<and> in_size st' = INPUT_BUFFER_MAX_SIZE - 1 \<and> in_buf st' = in_buf st \<and> in_log st' = in_log st \<and>
     kbd_last_key st' < 128"

lemma key_step_full:
  assumes "full_like st0 st" "ascii_event e"
  shows "\<exists>st'. key_step cl now st e = Inr st' \<and> full_like st0 st'"
proof -
  have wf: "bitmap_wf (kbd_state st)" "sz (kbd_state st) = 128" "in_size st = INPUT_BUFFER_MAX_SIZE - 1"
    using assms(1) by (simp_all add: full_like_def in_ok_def)
  have set: "\<exists>b. bitmap_set (kbd_state st) (unat k) v = Inr b \<and> bitmap_wf b \<and> sz b = 128" if "k < 128" for k :: "8 word" and v
    using bitmap_set_ok [OF wf(1), of "unat k" v] unat_below_128 [OF that] wf(2) by metis
  have get: "bitmap_get (kbd_state st) (unat k) = Inr (bits (kbd_state st) (unat k))" if "k < 128" for k :: "8 word"
    using bitmap_get_eq [OF wf(1)] unat_below_128 [OF that] wf(2) by simp
  show ?thesis
  proof (cases e)
    case (Press k)
    hence k: "k < 128" using assms(2) by simp
    from set [OF k, of True] obtain b where "bitmap_set (kbd_state st) (unat k) True = Inr b" "bitmap_wf b" "sz b = 128" by blast
    thus ?thesis using Press get [OF k] assms(1) wf(3) k
      by (auto simp: kbd_press_def append_full full_like_def in_ok_def)
  next
    case (Release k)
    hence k: "k < 128" using assms(2) by simp
    from set [OF k, of False] obtain b where "bitmap_set (kbd_state st) (unat k) False = Inr b" "bitmap_wf b" "sz b = 128" by blast
    thus ?thesis using Release assms(1) by (auto simp: kbd_release_def full_like_def in_ok_def)
  next
    case Repeat
    have "kbd_last_key st < 128" using assms(1) by (simp add: full_like_def)
    thus ?thesis using Repeat get wf(3) assms(1) by (auto simp: kbd_onrepeat_def append_full)
  qed
qed

text \<open>C37: once the buffer holds 4095 characters no key changes it any more, not even backspace or the end of the line: whatever is
  typed, the line stays as it is and nothing is echoed or evaluated.\<close>

theorem full_line_stuck:
  assumes "in_ok st" "in_size st = INPUT_BUFFER_MAX_SIZE - 1" "kbd_last_key st < 128" "\<forall>e \<in> set es. ascii_event e"
  shows "\<exists>st'. key_run cl now st es = Inr st' \<and> in_line st' = in_line st \<and> in_log st' = in_log st"
proof -
  have "\<exists>st'. key_run cl now s es = Inr st' \<and> full_like st st'" if "full_like st s" for s
    using assms(4) that
  proof (induction es arbitrary: s)
    case (Cons e es)
    then obtain s' where "key_step cl now s e = Inr s'" "full_like st s'" using key_step_full by fastforce
    thus ?case using Cons by simp
  qed simp
  from this [of st] show ?thesis using assms(1-3) by (auto simp: full_like_def in_line_def)
qed

theorem full_line_stuck_witness:
  "\<exists>st'. key_run debug_line 0 (fresh_input\<lparr>in_size := 4095\<rparr>) [Press 8, Release 8, Press 10] = Inr st' \<and>
     length (in_line st') = 4095 \<and> in_log st' = []"
proof -
  let ?st = "fresh_input\<lparr>in_size := 4095\<rparr>"
  have "in_ok ?st" "in_size ?st = INPUT_BUFFER_MAX_SIZE - 1" "kbd_last_key ?st < 128"
    using fresh_input_ok(1) by (simp_all add: in_ok_def INPUT_BUFFER_MAX_SIZE_def fresh_input_def)
  moreover have "\<forall>e \<in> set [Press 8, Release 8, Press 10]. ascii_event e" by simp
  ultimately obtain st' where "key_run debug_line 0 ?st [Press 8, Release 8, Press 10] = Inr st'"
    "in_line st' = in_line ?st" "in_log st' = in_log ?st"
    using full_line_stuck by blast
  moreover have "length (in_line ?st) = 4095" "in_log ?st = []" by (simp_all add: in_line_def fresh_input_def)
  ultimately show ?thesis by metis
qed

section \<open>Scan codes\<close>

fun handle_codes :: "cmdline \<Rightarrow> nat \<Rightarrow> ps2 \<Rightarrow> 8 word list \<Rightarrow> ps2 res" where
  "handle_codes cl now st [] = Inr st"
| "handle_codes cl now st (c # cs) = rbind (handle_code cl now st c) (\<lambda>st. handle_codes cl now st cs)"

definition make_break :: "8 word \<Rightarrow> 8 word list" where
  "make_break c = [c, 0xf0, c]"

definition code_key :: "8 word \<Rightarrow> 8 word" where
  "code_key c = scancode_set2_to_ascii ! unat c"

lemma below_break: "(c :: 8 word) \<le> 0x6f \<Longrightarrow> c \<noteq> 0xf0 \<and> \<not> 0x6f < c"
  by auto

lemma handle_make_break:
  assumes "\<not> released st" "c \<le> 0x6f"
  shows "handle_codes cl now st (make_break c @ cs) =
    rbind (stroke cl now (ps2_input st) (code_key c)) (\<lambda>i. handle_codes cl now (st\<lparr>ps2_input := i\<rparr>) cs)"
proof -
  note c = below_break [OF assms(2)]
  have r: "s\<lparr>released := True\<rparr>\<lparr>released := False, ps2_input := i\<rparr> = s\<lparr>ps2_input := i\<rparr>" if "\<not> released s" for s i
    using that by (cases s) simp
  have press: "handle_code cl now st c = rbind (kbd_press cl now (ps2_input st) (code_key c)) (\<lambda>i. Inr (st\<lparr>ps2_input := i\<rparr>))"
    using c assms(1) by (simp add: handle_code_def code_key_def)
  have brk: "handle_code cl now s 0xf0 = Inr (s\<lparr>released := True\<rparr>)" for s
    by (simp add: handle_code_def)
  have rel: "handle_code cl now (s\<lparr>released := True\<rparr>) c =
      rbind (kbd_release (ps2_input s) (code_key c)) (\<lambda>i. Inr (s\<lparr>ps2_input := i\<rparr>))" if "\<not> released s" for s
    using c r [OF that] by (simp add: handle_code_def code_key_def Let_def)
  show ?thesis
    using assms(1) by (simp add: make_break_def press brk rel stroke_def rbind_assoc)
qed

text \<open>C36: the codes of keys that are pressed and released one after another are exactly these strokes on the keyboard state, whatever
  they do. A break code of a key outside the table is not completed: the key pressed next is taken for the
  release and lost.\<close>

theorem scan_codes_spec:
  assumes "\<not> released st" "\<forall>c \<in> set cs. c \<le> 0x6f" "e \<noteq> 0xf0" "0x6f < e" "c \<le> 0x6f"
  shows "handle_codes cl now st (concat (map make_break cs)) =
      rbind (strokes cl now (ps2_input st) (map code_key cs)) (\<lambda>i. Inr (st\<lparr>ps2_input := i\<rparr>)) \<and>
    handle_codes cl now st [0xf0, e, c] =
      rbind (kbd_release (ps2_input st) (code_key c)) (\<lambda>i. Inr (st\<lparr>ps2_input := i\<rparr>))"
proof
  show "handle_codes cl now st (concat (map make_break cs)) =
      rbind (strokes cl now (ps2_input st) (map code_key cs)) (\<lambda>i. Inr (st\<lparr>ps2_input := i\<rparr>))"
    using assms(1,2)
  proof (induction cs arbitrary: st)
    case (Cons c cs)
    thus ?case by (simp add: handle_make_break rbind_assoc)
  qed simp
  have "st\<lparr>released := False\<rparr> = st" using assms(1) by (cases st) simp
  thus "handle_codes cl now st [0xf0, e, c] =
      rbind (kbd_release (ps2_input st) (code_key c)) (\<lambda>i. Inr (st\<lparr>ps2_input := i\<rparr>))"
    using assms(3-5) below_break [OF assms(5)] by (simp add: handle_code_def code_key_def rbind_assoc Let_def)
qed

theorem scan_codes_spec_witness:
  "let st = \<lparr>released = False, ps2_input = fresh_input\<rparr> in
     handle_codes debug_line 0 st [0x3a, 0xf0, 0x3a, 0x5a, 0xf0, 0x5a] =
       rbind (strokes debug_line 0 fresh_input [109, 10]) (\<lambda>i. Inr (st\<lparr>ps2_input := i\<rparr>)) \<and>
     handle_codes debug_line 0 st [0xf0, 0x83, 0x3a] =
       rbind (kbd_release fresh_input 109) (\<lambda>i. Inr (st\<lparr>ps2_input := i\<rparr>))"
proof -
  let ?st = "\<lparr>released = False, ps2_input = fresh_input\<rparr>"
  have k: "code_key 0x3a = 109" "code_key 0x5a = 10" by (simp_all add: code_key_def scancode_set2_to_ascii_def)
  have "\<not> released ?st" "\<forall>c \<in> set [0x3a, 0x5a :: 8 word]. c \<le> 0x6f" "(0x83 :: 8 word) \<noteq> 0xf0" "0x6f < (0x83 :: 8 word)"
    "(0x3a :: 8 word) \<le> 0x6f"
    by simp_all
  from scan_codes_spec [OF this, of debug_line 0] show ?thesis by (simp add: make_break_def k Let_def)
qed

section \<open>Reading memory from the command line\<close>

text \<open>the commands that read memory look up an address of the lower half and show the bytes there if it is mapped, but refuse every
  address from the upper half, where the kernel lives, as not canonical.\<close>

theorem cmd_peek_spec:
  assumes "view_to_uint (split_deref args) 10 = Inr a" "a < 2 ^ 64"
  shows "cmd_peek n st mem args =
    (if 2 ^ 47 \<le> a then Inr (NonCanonical, st)
     else let (r, st) = paging_lookup_current st (of_nat a) in
       Inr (if r = - 1 then NotMapped else Bytes (map (\<lambda>i. mem (of_nat a + of_nat i)) [0..<n]), st))"
proof -
  let ?u = "ucast (drop_bit 47 (of_nat a :: 64 word)) :: 32 word"
  have a: "unat (of_nat a :: 64 word) = a" using assms(2) by (simp add: unsigned_of_nat take_bit_nat_eq_self)
  have "unat (drop_bit 47 (of_nat a :: 64 word)) = a div 2 ^ 47"
    unfolding unat_drop_bit_eq a by (rule drop_bit_eq_div)
  moreover have s: "a div 2 ^ 47 < 2 ^ 17" using assms(2) by (simp add: less_mult_imp_div_less)
  ultimately have u: "unat ?u = a div 2 ^ 47" by (simp add: unsigned_ucast_eq take_bit_nat_eq_self)
  have "?u \<noteq> 0xffff8" using u s by (auto simp: word_unat_eq_iff)
  moreover have "?u = 0 \<longleftrightarrow> a < 2 ^ 47" using u by (simp add: word_unat_eq_iff div_eq_0_iff)
  ultimately show ?thesis
    by (auto simp: cmd_peek_def assms(1) Let_def split: prod.splits)
qed

theorem cmd_peek_spec_witness:
  "cmd_peek 8 \<lparr>tables = (\<lambda>t i. 0), wmst = \<lparr>wm_cursor = 0, wm_free = 0, wm_mutex = 0\<rparr>, pml4 = 0x1000, cr3reg = 0\<rparr> (\<lambda>a. 0)
     (split_str ''-1'' (CHR '' '')) =
   Inr (NonCanonical, \<lparr>tables = (\<lambda>t i. 0), wmst = \<lparr>wm_cursor = 0, wm_free = 0, wm_mutex = 0\<rparr>, pml4 = 0x1000, cr3reg = 0\<rparr>)"
proof -
  have "view_to_uint (split_deref (split_str ''-1'' (CHR '' ''))) 10 = Inr (2 ^ 64 - 1)"
    by (simp add: view_to_uint_def split_deref_def split_str_def str_to_int_def is_digit_for_def ISDIGIT_def ch_def
        digit_value_def ISUPPERCASE_def ISLOWERCASE_def fits_i64_def)
  from cmd_peek_spec [OF this] show ?thesis by simp
qed

end
