(* ===== verification/Pci.thy ===== *)
theory Pci
  imports Paging
begin

text \<open>
  The PCI bus (\<^verbatim>\<open>pci/pci.cc\<close>, \<^verbatim>\<open>pci.hh\<close>) and the registration of its devices with the device manager
  (\<^verbatim>\<open>devmgr/devmgr.cc\<close>). The hardware is an argument: what memory mapped registers and ports answer, and how its state
  changes on a write. Access through the memory mapped configuration space maps the page first, so every access
  passes the paging state on. The code that runs when a module is launched is an argument as well.
\<close>

unbundle bit_operations_syntax

section \<open>Configuration space\<close>

text \<open>Bus, slot and function.\<close>

type_synonym bdf = "8 word \<times> 8 word \<times> 8 word"

record 's hardware =
  mm_read :: "'s \<Rightarrow> 64 word \<Rightarrow> 32 word"
  mm_write :: "'s \<Rightarrow> 64 word \<Rightarrow> 32 word \<Rightarrow> 's"
  port_in :: "'s \<Rightarrow> 16 word \<Rightarrow> 32 word"
  port_out :: "'s \<Rightarrow> 16 word \<Rightarrow> 32 word \<Rightarrow> 's"

text \<open>The fields of the table that are read: its length and the base of the first configuration space.\<close>

record mcfg =
  mcfg_length :: "32 word"
  mcfg_base :: "64 word"

record 's pci =
  pc_mcfg :: "mcfg option"
  pc_vm :: vm
  pc_hw :: 's

abbreviation (input) CFG_ADDR :: "16 word" where "CFG_ADDR \<equiv> 0xcf8"
abbreviation (input) CFG_DATA :: "16 word" where "CFG_DATA \<equiv> 0xcfc"

definition ecam_addr :: "64 word \<Rightarrow> bdf \<Rightarrow> 8 word \<Rightarrow> 64 word" where
  "ecam_addr base d offs =
     (case d of (bus, slot, func) \<Rightarrow>
        (base OR HH) + (push_bit 20 (ucast bus) + push_bit 15 (ucast slot) + push_bit 12 (ucast func) + ucast offs))"

definition port_addr :: "bdf \<Rightarrow> 8 word \<Rightarrow> 32 word" where
  "port_addr d offs =
     (case d of (bus, slot, func) \<Rightarrow>
        push_bit 16 (ucast bus) OR push_bit 11 (ucast slot) OR push_bit 8 (ucast func) OR ucast offs OR 0x80000000)"

text \<open>An unaligned offset is only reported.\<close>

definition pci_read32 :: "'s hardware \<Rightarrow> 's pci \<Rightarrow> bdf \<Rightarrow> 8 word \<Rightarrow> (32 word \<times> 's pci) res" where
  "pci_read32 hw st d offs =
     (case pc_mcfg st of
        Some t \<Rightarrow>
          let mmio = ecam_addr (mcfg_base t) d offs in
          rbind (check_page (pc_vm st) mmio (cache_code UC)) (\<lambda>v.
          Inr (mm_read hw (pc_hw st) mmio, st\<lparr>pc_vm := v\<rparr>))
      | None \<Rightarrow>
          let s = port_out hw (pc_hw st) CFG_ADDR (port_addr d offs)
          in Inr (port_in hw s CFG_DATA, st\<lparr>pc_hw := s\<rparr>))"

definition pci_write32 :: "'s hardware \<Rightarrow> 's pci \<Rightarrow> bdf \<Rightarrow> 8 word \<Rightarrow> 32 word \<Rightarrow> 's pci res" where
  "pci_write32 hw st d offs x =
     (case pc_mcfg st of
        Some t \<Rightarrow>
          let mmio = ecam_addr (mcfg_base t) d offs in
          rbind (check_page (pc_vm st) mmio (cache_code UC)) (\<lambda>v.
          Inr (st\<lparr>pc_vm := v, pc_hw := mm_write hw (pc_hw st) mmio x\<rparr>))
      | None \<Rightarrow>
          let s = port_out hw (pc_hw st) CFG_ADDR (port_addr d offs)
          in Inr (st\<lparr>pc_hw := port_out hw s CFG_DATA x\<rparr>))"

record pci_register =
  reg_offset :: "32 word"
  reg_bits :: nat

definition pci_reg :: "32 word \<Rightarrow> nat \<Rightarrow> pci_register" where
  "pci_reg ofs b = \<lparr>reg_offset = ofs, reg_bits = b\<rparr>"

definition pci_bar_reg :: "8 word \<Rightarrow> pci_register" where
  "pci_bar_reg barnum = pci_reg (0x10 + ucast barnum * 4) 32"

datatype PciRegs =
    VENDOR | PRODUCT | CMD | STS | REVID | PROGIF | SUBCLASS | CLASS | HDRTYPE | BAR0 | BAR1 | BAR2 | PRIMARYBUS
  | SECONDARYBUS | BAR3 | BAR4 | BAR5 | BAR6 | CAPSPTR | INTLINE | INTPIN | MINGRANT | MAXLATEN

fun pci_regs :: "PciRegs \<Rightarrow> pci_register" where
  "pci_regs VENDOR = pci_reg 0x00 16"
| "pci_regs PRODUCT = pci_reg 0x02 16"
| "pci_regs CMD = pci_reg 0x04 16"
| "pci_regs STS = pci_reg 0x06 16"
| "pci_regs REVID = pci_reg 0x08 8"
| "pci_regs PROGIF = pci_reg 0x09 8"
| "pci_regs SUBCLASS = pci_reg 0x0a 8"
| "pci_regs CLASS = pci_reg 0x0b 8"
| "pci_regs HDRTYPE = pci_reg 0x0e 8"
| "pci_regs BAR0 = pci_reg 0x10 32"
| "pci_regs BAR1 = pci_reg 0x14 32"
| "pci_regs BAR2 = pci_reg 0x18 32"
| "pci_regs PRIMARYBUS = pci_reg 0x18 8"
| "pci_regs SECONDARYBUS = pci_reg 0x19 8"
| "pci_regs BAR3 = pci_reg 0x1c 32"
| "pci_regs BAR4 = pci_reg 0x20 32"
| "pci_regs BAR5 = pci_reg 0x24 32"
| "pci_regs BAR6 = pci_reg 0x28 32"
| "pci_regs CAPSPTR = pci_reg 0x34 8"
| "pci_regs INTLINE = pci_reg 0x3c 8"
| "pci_regs INTPIN = pci_reg 0x3d 8"
| "pci_regs MINGRANT = pci_reg 0x3e 8"
| "pci_regs MAXLATEN = pci_reg 0x3f 8"

declare pci_regs.simps [simp del]

definition numbits :: "nat \<Rightarrow> 64 word" where
  "numbits x = push_bit x 1 - 1"

text \<open>The offset of the double word, which is narrowed to eight bits by the call. An access that crosses a double word
  is only reported.\<close>

definition realoffset :: "pci_register \<Rightarrow> 32 word" where
  "realoffset reg = reg_offset reg div 4 * 4"

definition pci_read :: "'s hardware \<Rightarrow> 's pci \<Rightarrow> bdf \<Rightarrow> pci_register \<Rightarrow> (32 word \<times> 's pci) res" where
  "pci_read hw st d reg =
     rbind (pci_read32 hw st d (ucast (realoffset reg))) (\<lambda>(x, st).
     let x = drop_bit (unat ((reg_offset reg - realoffset reg) * 8)) x
     in Inr (x AND ucast (numbits (reg_bits reg)), st))"

definition pci_write :: "'s hardware \<Rightarrow> 's pci \<Rightarrow> bdf \<Rightarrow> pci_register \<Rightarrow> 32 word \<Rightarrow> 's pci res" where
  "pci_write hw st d reg x =
     rbind (pci_read32 hw st d (ucast (realoffset reg))) (\<lambda>(old, st).
     let new = old AND ucast (NOT (numbits (reg_bits reg)));
         new = new OR push_bit (unat ((reg_offset reg AND 3) * 8)) x
     in pci_write32 hw st d (ucast (realoffset reg)) new)"

section \<open>Device manager\<close>

record device_t_PCI =
  pd_vendor :: "16 word"
  pd_product :: "16 word"
  pd_class :: "8 word"
  pd_subclass :: "8 word"
  pd_progif :: "8 word"
  pd_loc :: bdf

datatype ModuleTriggerTypes =
    ANY | PCIMASK | USBMASK | FILESYSTEM | MISC | PCI_VENDOR_PRODUCT | PCI_CLASS_SUBCLASS | PCI_CLASS_SUBCLASS_PROGIF
  | USB_VENDOR_PRODUCT | USB_CLASS_SUBCLASS | USB_CLASS_SUBCLASS_PROGIF | FADT_LEGACY_I8042 | FADT_LEGACY_RTC

fun trigger_code :: "ModuleTriggerTypes \<Rightarrow> 32 word" where
  "trigger_code ANY = 0x00000000"
| "trigger_code PCIMASK = 0x00000100"
| "trigger_code USBMASK = 0x00000200"
| "trigger_code FILESYSTEM = 0x00000400"
| "trigger_code MISC = 0x00000800"
| "trigger_code PCI_VENDOR_PRODUCT = 0x100 OR 1"
| "trigger_code PCI_CLASS_SUBCLASS = 0x100 OR 2"
| "trigger_code PCI_CLASS_SUBCLASS_PROGIF = 0x100 OR 3"
| "trigger_code USB_VENDOR_PRODUCT = 0x200 OR 1"
| "trigger_code USB_CLASS_SUBCLASS = 0x200 OR 2"
| "trigger_code USB_CLASS_SUBCLASS_PROGIF = 0x200 OR 3"
| "trigger_code FADT_LEGACY_I8042 = 0x800 OR 1"
| "trigger_code FADT_LEGACY_RTC = 0x800 OR 2"

text \<open>The union \<^verbatim>\<open>ModuleTrigger\<close> as its first four bytes.\<close>

record ModuleMetadata =
  md_triggertype :: "32 word"
  md_trigger :: "32 word"

definition trig8 :: "32 word \<Rightarrow> nat \<Rightarrow> 8 word" where
  "trig8 t i = ucast (drop_bit (8 * i) t)"

definition trig16 :: "32 word \<Rightarrow> nat \<Rightarrow> 16 word" where
  "trig16 t i = ucast (drop_bit (8 * i) t)"

definition module_matches :: "ModuleMetadata \<Rightarrow> device_t_PCI \<Rightarrow> bool" where
  "module_matches md p =
     (let t = md_trigger md; ty = md_triggertype md; cls = (trig8 t 0 = pd_class p \<and> trig8 t 1 = pd_subclass p) in
      if ty AND trigger_code PCIMASK = 0 then False
      else if ty = trigger_code PCI_CLASS_SUBCLASS_PROGIF then (if trig8 t 2 \<noteq> pd_progif p then False else cls)
      else if ty = trigger_code PCI_CLASS_SUBCLASS then cls
      else if ty = trigger_code PCI_VENDOR_PRODUCT then trig16 t 0 = pd_vendor p \<and> trig16 t 2 = pd_product p
      else False)"

record 's devmgr =
  dm_pci :: "'s pci"
  dm_devices :: "device_t_PCI list"
  dm_modules :: "ModuleMetadata list"

type_synonym 's launch = "nat \<Rightarrow> device_t_PCI \<Rightarrow> 's devmgr \<Rightarrow> 's devmgr res"

fun offer_modules :: "'s launch \<Rightarrow> device_t_PCI \<Rightarrow> nat \<Rightarrow> ModuleMetadata list \<Rightarrow> 's devmgr \<Rightarrow> 's devmgr res" where
  "offer_modules launch p i [] st = Inr st"
| "offer_modules launch p i (md # mds) st =
     rbind (if module_matches md p then launch i p st else Inr st) (\<lambda>st. offer_modules launch p (i + 1) mds st)"

text \<open>\<^verbatim>\<open>devmgr_add_device\<close> for a device of the PCI subsystem.\<close>

definition devmgr_add_pci :: "'s launch \<Rightarrow> 's devmgr \<Rightarrow> device_t_PCI \<Rightarrow> 's devmgr res" where
  "devmgr_add_pci launch st p =
     (let st = st\<lparr>dm_devices := dm_devices st @ [p]\<rparr> in offer_modules launch p 0 (dm_modules st) st)"

section \<open>Enumeration\<close>

definition dm_read :: "'s hardware \<Rightarrow> 's devmgr \<Rightarrow> bdf \<Rightarrow> pci_register \<Rightarrow> (32 word \<times> 's devmgr) res" where
  "dm_read hw st d reg = rbind (pci_read hw (dm_pci st) d reg) (\<lambda>(x, p). Inr (x, st\<lparr>dm_pci := p\<rparr>))"

definition read_device :: "'s hardware \<Rightarrow> 's devmgr \<Rightarrow> bdf \<Rightarrow> (device_t_PCI \<times> 's devmgr) res" where
  "read_device hw st d =
     rbind (dm_read hw st d (pci_regs VENDOR)) (\<lambda>(v, st).
     rbind (dm_read hw st d (pci_regs PRODUCT)) (\<lambda>(p, st).
     rbind (dm_read hw st d (pci_regs CLASS)) (\<lambda>(c, st).
     rbind (dm_read hw st d (pci_regs SUBCLASS)) (\<lambda>(sc, st).
     rbind (dm_read hw st d (pci_regs PROGIF)) (\<lambda>(pi, st).
     Inr (\<lparr>pd_vendor = ucast v, pd_product = ucast p, pd_class = ucast c, pd_subclass = ucast sc,
           pd_progif = ucast pi, pd_loc = d\<rparr>, st))))))"

definition bus_functions :: "8 word \<Rightarrow> bdf list" where
  "bus_functions bus = concat (map (\<lambda>j. map (\<lambda>i. (bus, of_nat j, of_nat i)) [0..<8]) [0..<32])"

text \<open>A bridge that leads back to a bus above it makes the recursion endless; \<open>fuel\<close> bounds its depth.\<close>

fun check_bus :: "nat \<Rightarrow> 's launch \<Rightarrow> 's hardware \<Rightarrow> 's devmgr \<Rightarrow> 8 word \<Rightarrow> 's devmgr res"
  and check_functions :: "nat \<Rightarrow> 's launch \<Rightarrow> 's hardware \<Rightarrow> 's devmgr \<Rightarrow> bdf list \<Rightarrow> 's devmgr res" where
  "check_bus 0 launch hw st bus = Inl Hang"
| "check_bus (Suc fuel) launch hw st bus = check_functions fuel launch hw st (bus_functions bus)"
| "check_functions fuel launch hw st [] = Inr st"
| "check_functions fuel launch hw st (d # ds) =
     rbind (dm_read hw st d (pci_regs VENDOR)) (\<lambda>(v, st).
     if v = 0xffff then check_functions fuel launch hw st ds
     else
       rbind (dm_read hw st d (pci_regs HDRTYPE)) (\<lambda>(hdrt, st).
       rbind (read_device hw st d) (\<lambda>(p, st).
       rbind (devmgr_add_pci launch st p) (\<lambda>st.
       rbind (if hdrt AND 3 = 1
              then rbind (dm_read hw st d (pci_regs SECONDARYBUS)) (\<lambda>(b, st). check_bus fuel launch hw st (ucast b))
              else Inr st) (\<lambda>st.
       check_functions fuel launch hw st ds)))))"

text \<open>The buses behind the root functions. The registers are read once more for the message about a bridge.\<close>

fun check_roots :: "nat \<Rightarrow> 's launch \<Rightarrow> 's hardware \<Rightarrow> 's devmgr \<Rightarrow> nat list \<Rightarrow> 's devmgr res" where
  "check_roots fuel launch hw st [] = Inr st"
| "check_roots fuel launch hw st (i # is') =
     (let d = (0, 0, of_nat i) in
      rbind (dm_read hw st d (pci_regs VENDOR)) (\<lambda>(v, st).
      if v = 0xffff then check_roots fuel launch hw st is'
      else
        rbind (dm_read hw st d (pci_regs CLASS)) (\<lambda>(cl, st).
        rbind (dm_read hw st d (pci_regs SUBCLASS)) (\<lambda>(scl, st).
        rbind
          (if (ucast cl :: 8 word) = 6 \<and> (ucast scl :: 8 word) = 4 then
             rbind (dm_read hw st d (pci_regs PRIMARYBUS)) (\<lambda>(_, st).
             rbind (dm_read hw st d (pci_regs SECONDARYBUS)) (\<lambda>(_, st).
             rbind (dm_read hw st d (pci_regs PRIMARYBUS)) (\<lambda>(a, st).
             rbind (check_bus fuel launch hw st (ucast a)) (\<lambda>st.
             rbind (dm_read hw st d (pci_regs SECONDARYBUS)) (\<lambda>(b, st).
             check_bus fuel launch hw st (ucast b))))))
           else if (ucast cl :: 8 word) = 6 \<and> (ucast scl :: 8 word) = 0 then check_bus fuel launch hw st (of_nat i)
           else Inr st) (\<lambda>st.
        check_roots fuel launch hw st is')))))"

definition pci_init :: "nat \<Rightarrow> 's launch \<Rightarrow> 's hardware \<Rightarrow> 's devmgr \<Rightarrow> 's devmgr res" where
  "pci_init fuel launch hw st =
     (if (case pc_mcfg (dm_pci st) of Some t \<Rightarrow> unat (mcfg_length t - 36) div 16 > 1 | None \<Rightarrow> False)
      then Inl (Fatal ''only 1 segment group supproted'')
      else check_roots fuel launch hw st [0..<8])"

section \<open>Set-up of a device\<close>

definition pci_setup_cmd_reg :: "'s hardware \<Rightarrow> 's pci \<Rightarrow> bdf \<Rightarrow> 's pci res" where
  "pci_setup_cmd_reg hw st d =
     rbind (pci_read hw st d (pci_regs CMD)) (\<lambda>(pcicmd, st). pci_write hw st d (pci_regs CMD) (pcicmd OR 4 OR 2 OR 1))"

record pci_bar =
  bar_addr :: "64 word"
  bar_io :: bool

text \<open>The counter \<open>i\<close> has 32 bits: with a bound of \<^verbatim>\<open>2^32\<close> it wraps and the loop never ends.\<close>

fun map_bar :: "nat \<Rightarrow> vm \<Rightarrow> 64 word \<Rightarrow> 32 word \<Rightarrow> nat \<Rightarrow> 64 word \<Rightarrow> vm res" where
  "map_bar fuel st addr i bound cache =
     (if unat i < bound
      then case fuel of
          0 \<Rightarrow> Inl Hang
        | Suc fuel \<Rightarrow>
            rbind (map_page st ((addr OR HH) + ucast i) (addr + ucast i) 3 cache) (\<lambda>st.
            map_bar fuel st addr (i + 0x1000) bound cache)
      else Inr st)"

declare map_bar.simps [simp del]

text \<open>The size is what the register answers after ones are written to it, computed in 32 bits.\<close>

definition bar_size :: "32 word \<Rightarrow> nat" where
  "bar_size x = unat (NOT (x AND NOT 0xf) + 1)"

definition pci_prepare_bar ::
  "nat \<Rightarrow> 's hardware \<Rightarrow> 's pci \<Rightarrow> bdf \<Rightarrow> 8 word \<Rightarrow> (pci_bar \<times> 's pci) res" where
  "pci_prepare_bar fuel hw st d barnum =
     (let barreg = pci_bar_reg barnum in
      rbind (pci_read hw st d barreg) (\<lambda>(x, st).
      let orig = ucast x :: 64 word;
          type = drop_bit 1 orig AND 3;
          prefetchable = (orig AND 8 \<noteq> 0);
          addr = orig AND NOT 0xf
      in
      if orig AND 1 \<noteq> 0 then Inr (\<lparr>bar_addr = addr, bar_io = True\<rparr>, st)
      else
        rbind (pci_write hw st d barreg 0xffffffff) (\<lambda>st.
        rbind (pci_read hw st d barreg) (\<lambda>(y, st).
        rbind (pci_write hw st d barreg (ucast orig)) (\<lambda>st.
        rbind
          (if type = 2
           then if barnum = 5 then Inl (Fatal ''BAR5 is 64 bit? Device %04x:%04x'')
                else rbind (pci_read hw st d (pci_bar_reg (barnum + 1))) (\<lambda>(z, st).
                     Inr (addr OR push_bit 32 (ucast z AND NOT 0xf), st))
           else Inr (addr, st)) (\<lambda>(addr, st).
        rbind (map_bar fuel (pc_vm st) addr 0 (align64 (bar_size y) 0x1000)
                 (cache_code (if prefetchable then WT else UC))) (\<lambda>v.
        Inr (\<lparr>bar_addr = addr OR HH, bar_io = False\<rparr>, st\<lparr>pc_vm := v\<rparr>))))))))"

text \<open>The words that are assembled from the bit fields of \<^verbatim>\<open>pci_msi_data\<close>, \<^verbatim>\<open>pci_msi_addr\<close> and \<^verbatim>\<open>pci_msi_control\<close>.\<close>

definition msi_data_raw :: "8 word \<Rightarrow> 32 word" where
  "msi_data_raw vector = ucast vector"

definition msi_addr_raw :: "32 word" where
  "msi_addr_raw = push_bit 3 1 OR push_bit 20 0xfee"

definition msi_bits64 :: "32 word \<Rightarrow> bool" where
  "msi_bits64 ctl \<longleftrightarrow> bit ctl 7"

definition msi_ctl_enabled :: "32 word \<Rightarrow> 32 word" where
  "msi_ctl_enabled ctl = (ctl OR 1) AND NOT (push_bit 4 7) AND NOT (push_bit 8 1)"

definition msi_setup :: "'s hardware \<Rightarrow> 's pci \<Rightarrow> bdf \<Rightarrow> 8 word \<Rightarrow> 8 word \<Rightarrow> 's pci res" where
  "msi_setup hw st d caps vector =
     (let c = ucast caps :: 32 word in
      rbind (pci_read hw st d (pci_reg (c + 2) 16)) (\<lambda>(ctl, st).
      rbind (if msi_bits64 ctl then pci_write hw st d (pci_reg (c + 8) 32) 0 else Inr st) (\<lambda>st.
      rbind (pci_write hw st d (pci_reg (if msi_bits64 ctl then c + 12 else c + 8) 16) (msi_data_raw vector)) (\<lambda>st.
      rbind (pci_write hw st d (pci_reg (c + 4) 32) msi_addr_raw) (\<lambda>st.
      rbind (pci_write hw st d (pci_reg (c + 2) 16) (msi_ctl_enabled ctl)) (\<lambda>st.
      if msi_bits64 ctl then pci_write hw st d (pci_reg (c + 16) 32) 0 else Inr st))))))"

text \<open>The search through the capabilities, with the last identifier seen. A circular list without the capability never ends.\<close>

fun msi_search ::
  "nat \<Rightarrow> 's hardware \<Rightarrow> 's pci \<Rightarrow> bdf \<Rightarrow> 8 word \<Rightarrow> 8 word \<Rightarrow> 8 word \<Rightarrow> (8 word \<times> 's pci) res" where
  "msi_search fuel hw st d caps cid vector =
     (if caps = 0 then Inr (cid, st)
      else case fuel of
          0 \<Rightarrow> Inl Hang
        | Suc fuel \<Rightarrow>
            rbind (pci_read hw st d (pci_reg (ucast caps) 8)) (\<lambda>(x, st).
            let cid = ucast x :: 8 word in
            if cid = 0x05 then rbind (msi_setup hw st d caps vector) (\<lambda>st. Inr (cid, st))
            else if cid = 0x11 then Inl (Fatal ''MSI-X'')
            else rbind (pci_read hw st d (pci_reg (ucast caps + 1) 8)) (\<lambda>(n, st).
                 msi_search fuel hw st d (ucast n) cid vector)))"

declare msi_search.simps [simp del]

definition pci_enable_msi :: "nat \<Rightarrow> 's hardware \<Rightarrow> 's pci \<Rightarrow> bdf \<Rightarrow> 8 word \<Rightarrow> 's pci res" where
  "pci_enable_msi fuel hw st d vector =
     rbind (pci_read hw st d (pci_regs STS)) (\<lambda>(sts, st).
     if (ucast sts :: 16 word) AND push_bit 4 1 = 0 then Inr st
     else
       rbind (pci_read hw st d (pci_regs CAPSPTR)) (\<lambda>(caps, st).
       rbind (msi_search fuel hw st d (ucast caps) 0 vector) (\<lambda>(cid, st).
       if cid \<noteq> 0x05 \<and> cid \<noteq> 0x11 then Inl (Fatal ''MSI not available for this device!'')
       else
         rbind (pci_read hw st d (pci_regs CMD)) (\<lambda>(pcicmd, st). pci_write hw st d (pci_regs CMD) (pcicmd OR push_bit 10 1)))))"

section \<open>Access through the ports\<close>

definition valid_bdf :: "bdf \<Rightarrow> bool" where
  "valid_bdf d = (case d of (bus, slot, func) \<Rightarrow> slot < 32 \<and> func < 8)"

definition reg_ok :: "bdf \<Rightarrow> 8 word \<Rightarrow> bool" where
  "reg_ok d offs \<longleftrightarrow> valid_bdf d \<and> offs AND 3 = 0"

text \<open>
  The documented behaviour of the two ports: the first selects a register, the second reads and writes the selected
  one. \<open>cfg\<close> gives the registers, \<open>wm\<close> the bits of each that can be written.
\<close>

definition port_config ::
  "'s hardware \<Rightarrow> ('s \<Rightarrow> bdf \<Rightarrow> 8 word \<Rightarrow> 32 word) \<Rightarrow> (bdf \<Rightarrow> 8 word \<Rightarrow> 32 word) \<Rightarrow> bool" where
  "port_config hw cfg wm \<longleftrightarrow>
     (\<forall>s a. cfg (port_out hw s CFG_ADDR a) = cfg s) \<and>
     (\<forall>s d offs. reg_ok d offs \<longrightarrow> port_in hw (port_out hw s CFG_ADDR (port_addr d offs)) CFG_DATA = cfg s d offs) \<and>
     (\<forall>s d offs x d' offs'. reg_ok d offs \<longrightarrow> reg_ok d' offs' \<longrightarrow>
        cfg (port_out hw (port_out hw s CFG_ADDR (port_addr d offs)) CFG_DATA x) d' offs' =
          (if d' = d \<and> offs' = offs then (x AND wm d offs) OR (cfg s d offs AND NOT (wm d offs)) else cfg s d' offs'))"


lemma small_take_bit:
  fixes x :: "8 word"
  assumes "unat x < 2 ^ n"
  shows "take_bit n x = x"
  proof -
  have "unat (take_bit n x) = take_bit n (unat x)" by (rule unsigned_take_bit_eq)
  thus ?thesis using assms by (simp add: word_unat_eq_iff take_bit_nat_eq_self)
qed

lemma valid_bits:
  assumes "valid_bdf (bus, slot, func)"
  shows "bit slot k \<Longrightarrow> k < 5" "bit func k \<Longrightarrow> k < 3"
proof -
  have "take_bit 5 slot = slot" "take_bit 3 func = func"
    using assms by (auto intro!: small_take_bit simp: valid_bdf_def word_less_nat_alt)
  thus "bit slot k \<Longrightarrow> k < 5" "bit func k \<Longrightarrow> k < 3"
    by (metis bit_take_bit_iff)+
qed

text \<open>Different registers have different addresses, for the ports and in memory.\<close>

lemma port_addr_bits:
  assumes "valid_bdf (bus, slot, func)"
  shows "k < 8 \<Longrightarrow> bit (port_addr (bus, slot, func) offs) k = bit offs k"
    "k < 3 \<Longrightarrow> bit (port_addr (bus, slot, func) offs) (8 + k) = bit func k"
    "k < 5 \<Longrightarrow> bit (port_addr (bus, slot, func) offs) (11 + k) = bit slot k"
    "k < 8 \<Longrightarrow> bit (port_addr (bus, slot, func) offs) (16 + k) = bit bus k"
proof -
  have top: "(0x80000000 :: 32 word) = push_bit 31 1" by simp
  note range = valid_bits [OF assms]
  show "k < 8 \<Longrightarrow> bit (port_addr (bus, slot, func) offs) k = bit offs k"
    unfolding port_addr_def top by (auto simp: bit_simps simp del: push_bit_of_1)
  show "k < 3 \<Longrightarrow> bit (port_addr (bus, slot, func) offs) (8 + k) = bit func k"
    unfolding port_addr_def top by (auto simp: bit_simps dest: bit_imp_le_length simp del: push_bit_of_1)
  show "k < 5 \<Longrightarrow> bit (port_addr (bus, slot, func) offs) (11 + k) = bit slot k"
    unfolding port_addr_def top by (auto simp: bit_simps dest: bit_imp_le_length range simp del: push_bit_of_1)
  show "k < 8 \<Longrightarrow> bit (port_addr (bus, slot, func) offs) (16 + k) = bit bus k"
    unfolding port_addr_def top by (auto simp: bit_simps dest: bit_imp_le_length range simp del: push_bit_of_1)
qed

lemma port_addr_inj:
  assumes "valid_bdf d" "valid_bdf d'" "port_addr d offs = port_addr d' offs'"
  shows "d = d' \<and> offs = offs'"
proof -
  obtain bus slot func bus' slot' func' where d: "d = (bus, slot, func)" "d' = (bus', slot', func')"
    by (cases d; cases d') auto
  note v = assms(1,2) [unfolded d]
  note b = port_addr_bits [OF v(1), of _ offs] port_addr_bits [OF v(2), of _ offs']
  have e: "port_addr (bus, slot, func) offs = port_addr (bus', slot', func') offs'" using assms(3) d by simp
  have l: "LENGTH(8) = 8" by simp
  have "offs = offs'" by (rule bit_word_eqI) (metis b(1,5) e l)
  moreover have "bus = bus'" by (rule bit_word_eqI) (metis b(4,8) e l)
  moreover have "func = func'" by (rule bit_word_eqI) (metis b(2,6) e valid_bits(2) v)
  moreover have "slot = slot'" by (rule bit_word_eqI) (metis b(3,7) e valid_bits(1) v)
  ultimately show ?thesis using d by simp
qed

lemma port_config_laws:
  assumes "port_config hw cfg wm"
  shows "cfg (port_out hw s CFG_ADDR a) = cfg s"
    "reg_ok d offs \<Longrightarrow> port_in hw (port_out hw s CFG_ADDR (port_addr d offs)) CFG_DATA = cfg s d offs"
    "reg_ok d offs \<Longrightarrow> reg_ok d' offs' \<Longrightarrow>
      cfg (port_out hw (port_out hw s CFG_ADDR (port_addr d offs)) CFG_DATA x) d' offs' =
        (if d' = d \<and> offs' = offs then (x AND wm d offs) OR (cfg s d offs AND NOT (wm d offs)) else cfg s d' offs')"
  using assms unfolding port_config_def by blast+

lemma port_config_read:
  assumes "port_config hw cfg wm" "reg_ok d offs" "pc_mcfg st = None"
  obtains s where "pci_read32 hw st d offs = Inr (cfg (pc_hw st) d offs, st\<lparr>pc_hw := s\<rparr>)" "cfg s = cfg (pc_hw st)"
  by (rule that [of "port_out hw (pc_hw st) CFG_ADDR (port_addr d offs)"])
    (simp_all add: pci_read32_def assms(2,3) port_config_laws [OF assms(1)] Let_def)

lemma port_config_write:
  assumes "port_config hw cfg wm" "reg_ok d offs" "pc_mcfg st = None"
  obtains s where "pci_write32 hw st d offs x = Inr (st\<lparr>pc_hw := s\<rparr>)"
    "\<forall>d' offs'. reg_ok d' offs' \<longrightarrow> cfg s d' offs' =
      (if d' = d \<and> offs' = offs then (x AND wm d offs) OR (cfg (pc_hw st) d offs AND NOT (wm d offs))
       else cfg (pc_hw st) d' offs')"
  by (rule that [of "port_out hw (port_out hw (pc_hw st) CFG_ADDR (port_addr d offs)) CFG_DATA x"])
    (simp add: pci_write32_def assms(3) Let_def, intro allI impI, rule port_config_laws(3) [OF assms(1,2)])

definition reg_at :: "pci_register \<Rightarrow> 8 word" where
  "reg_at reg = ucast (realoffset reg)"

definition reg_shift :: "pci_register \<Rightarrow> nat" where
  "reg_shift reg = unat (reg_offset reg AND 3) * 8"

definition reg_field :: "pci_register \<Rightarrow> 32 word \<Rightarrow> 32 word" where
  "reg_field reg x = take_bit (reg_bits reg) (drop_bit (reg_shift reg) x)"

lemma realoffset_and: "realoffset reg = reg_offset reg AND NOT 3"
proof -
  have "realoffset reg = push_bit 2 (drop_bit 2 (reg_offset reg))"
    by (simp add: realoffset_def push_bit_eq_mult drop_bit_eq_div)
  also have "\<dots> = reg_offset reg AND NOT (mask 2)"
    by (rule bit_word_eqI) (auto simp: bit_simps not_less le_iff_add)
  finally show ?thesis by (simp add: mask_eq_exp_minus_1)
qed

lemma reg_low: "unat ((reg_offset reg - realoffset reg) * 8) = reg_shift reg" "unat ((reg_offset reg AND 3) * 8) = reg_shift reg"
proof -
  have "reg_offset reg = realoffset reg + (reg_offset reg AND 3)"
    unfolding realoffset_and by (subst disjunctive_add) (auto simp: bit_simps intro!: bit_word_eqI)
  hence "reg_offset reg - realoffset reg = reg_offset reg AND 3" by (simp add: algebra_simps)
  moreover have "unat (reg_offset reg AND 3) \<le> 3" using word_and_le1 [of "reg_offset reg" 3] by (simp add: word_le_nat_alt)
  ultimately show "unat ((reg_offset reg - realoffset reg) * 8) = reg_shift reg"
    "unat ((reg_offset reg AND 3) * 8) = reg_shift reg"
    by (simp_all add: reg_shift_def unat_word_ariths)
qed

lemma reg_at_ok: "valid_bdf d \<Longrightarrow> reg_ok d (reg_at reg)"
proof -
  have "reg_at reg AND mask 2 = 0"
    unfolding reg_at_def realoffset_and by (rule bit_word_eqI) (auto simp: bit_simps numeral_3_eq_3 mask_eq_exp_minus_1)
  thus "valid_bdf d \<Longrightarrow> reg_ok d (reg_at reg)" by (simp add: reg_ok_def mask_eq_exp_minus_1)
qed

lemma numbits_mask: "numbits n = mask n"
  by (simp add: numbits_def mask_eq_exp_minus_1 push_bit_eq_mult)

lemma pci_access_eq:
  "pci_read hw st d reg = rbind (pci_read32 hw st d (reg_at reg)) (\<lambda>(x, st). Inr (reg_field reg x, st))"
  "pci_write hw st d reg y = rbind (pci_read32 hw st d (reg_at reg)) (\<lambda>(old, st).
     pci_write32 hw st d (reg_at reg) ((old AND NOT (mask (reg_bits reg))) OR push_bit (reg_shift reg) y))"
proof -
  have "x AND ucast (mask n :: 64 word) = take_bit n x" "x AND ucast (NOT (mask n) :: 64 word) = x AND NOT (mask n)"
    for x :: "32 word" and n
    by (rule bit_word_eqI, auto simp: bit_simps)+
  thus "pci_read hw st d reg = rbind (pci_read32 hw st d (reg_at reg)) (\<lambda>(x, st). Inr (reg_field reg x, st))"
    "pci_write hw st d reg y = rbind (pci_read32 hw st d (reg_at reg)) (\<lambda>(old, st).
       pci_write32 hw st d (reg_at reg) ((old AND NOT (mask (reg_bits reg))) OR push_bit (reg_shift reg) y))"
    unfolding pci_read_def pci_write_def reg_low numbits_mask Let_def by (simp_all only: reg_at_def reg_field_def)
qed

lemma pci_read_eq:
  assumes "port_config hw cfg wm" "valid_bdf d" "pc_mcfg st = None"
  obtains s where "pci_read hw st d reg = Inr (reg_field reg (cfg (pc_hw st) d (reg_at reg)), st\<lparr>pc_hw := s\<rparr>)"
    "cfg s = cfg (pc_hw st)"
proof -
  obtain s where s: "pci_read32 hw st d (reg_at reg) = Inr (cfg (pc_hw st) d (reg_at reg), st\<lparr>pc_hw := s\<rparr>)"
    "cfg s = cfg (pc_hw st)"
    by (rule port_config_read [OF assms(1) reg_at_ok [OF assms(2)] assms(3)])
  show ?thesis by (rule that [OF _ s(2)]) (simp add: pci_access_eq s(1))
qed

text \<open>What a write leaves in a register with the writable bits \<open>m\<close>.\<close>

definition reg_update :: "pci_register \<Rightarrow> 32 word \<Rightarrow> 32 word \<Rightarrow> 32 word \<Rightarrow> 32 word" where
  "reg_update reg m x old =
     (((old AND NOT (mask (reg_bits reg))) OR push_bit (reg_shift reg) x) AND m) OR (old AND NOT m)"

lemma pci_write_eq:
  assumes "port_config hw cfg wm" "valid_bdf d" "pc_mcfg st = None"
  obtains s where "pci_write hw st d reg x = Inr (st\<lparr>pc_hw := s\<rparr>)"
    "\<forall>d' offs'. reg_ok d' offs' \<longrightarrow> cfg s d' offs' =
      (if d' = d \<and> offs' = reg_at reg then reg_update reg (wm d (reg_at reg)) x (cfg (pc_hw st) d (reg_at reg))
       else cfg (pc_hw st) d' offs')"
proof -
  let ?old = "cfg (pc_hw st) d (reg_at reg)"
  let ?new = "(?old AND NOT (mask (reg_bits reg))) OR push_bit (reg_shift reg) x"
  note ok = reg_at_ok [OF assms(2), of reg]
  obtain s where s: "pci_read32 hw st d (reg_at reg) = Inr (?old, st\<lparr>pc_hw := s\<rparr>)" "cfg s = cfg (pc_hw st)"
    by (rule port_config_read [OF assms(1) ok assms(3)])
  have n: "pc_mcfg (st\<lparr>pc_hw := s\<rparr>) = None" using assms(3) by simp
  obtain s' where s': "pci_write32 hw (st\<lparr>pc_hw := s\<rparr>) d (reg_at reg) ?new = Inr (st\<lparr>pc_hw := s\<rparr>\<lparr>pc_hw := s'\<rparr>)"
    "\<forall>d' offs'. reg_ok d' offs' \<longrightarrow> cfg s' d' offs' =
      (if d' = d \<and> offs' = reg_at reg then (?new AND wm d (reg_at reg)) OR (cfg (pc_hw (st\<lparr>pc_hw := s\<rparr>)) d (reg_at reg) AND NOT (wm d (reg_at reg)))
       else cfg (pc_hw (st\<lparr>pc_hw := s\<rparr>)) d' offs')"
    by (rule port_config_write [OF assms(1) ok n, of ?new])
  show ?thesis by (rule that [of s']) (use s' s in \<open>simp_all add: pci_access_eq reg_update_def\<close>)
qed

section \<open>Reading back what was written\<close>

lemma reg_update_field:
  assumes "reg_shift reg = 0" "reg_bits reg \<le> 32" "take_bit (reg_bits reg) x = x"
  shows "reg_field reg (reg_update reg (- 1) x old) = x"
    "reg_update reg (- 1) x old AND NOT (mask (reg_bits reg)) = old AND NOT (mask (reg_bits reg))"
proof -
  have x: "k < reg_bits reg" if "bit x k" for k using that assms(3) by (metis bit_take_bit_iff)
  show "reg_field reg (reg_update reg (- 1) x old) = x"
    "reg_update reg (- 1) x old AND NOT (mask (reg_bits reg)) = old AND NOT (mask (reg_bits reg))"
    by (rule bit_word_eqI, auto simp: reg_field_def reg_update_def assms(1) bit_simps dest: x)+
qed

lemma reg_update_upper:
  assumes "reg_shift reg = 16" "reg_bits reg = 16" "take_bit 16 x = x"
  shows "reg_field reg (reg_update reg (- 1) x old) = reg_field reg old OR x"
    "take_bit 16 (reg_update reg (- 1) x old) = 0"
proof -
  have x: "k < 16" if "bit x k" for k using that assms(3) by (metis bit_take_bit_iff)
  show "reg_field reg (reg_update reg (- 1) x old) = reg_field reg old OR x"
    "take_bit 16 (reg_update reg (- 1) x old) = 0"
    by (rule bit_word_eqI, auto simp: reg_field_def reg_update_def assms(1,2) bit_simps dest: x)+
qed

text \<open>C32: a register at the start of a double word, with all bits writable, reads back the value that was written, and
  the rest of the double word and every other register keep their contents. A 16 bit register in the upper half of a double
  word does not: the mask of the write is not shifted, so the old value is combined with the new one and the
  register in the lower half is cleared.\<close>

theorem pci_write_read:
  assumes "port_config hw cfg wm" "valid_bdf d" "pc_mcfg st = None" "wm d (reg_at reg) = - 1"
    and "reg_bits reg \<le> 32" "take_bit (reg_bits reg) x = x"
  shows "\<exists>st'. pci_write hw st d reg x = Inr st' \<and>
    (\<forall>d' offs'. reg_ok d' offs' \<and> (d', offs') \<noteq> (d, reg_at reg) \<longrightarrow> cfg (pc_hw st') d' offs' = cfg (pc_hw st) d' offs') \<and>
    (reg_shift reg = 0 \<longrightarrow>
       (\<exists>st''. pci_read hw st' d reg = Inr (x, st'')) \<and>
       cfg (pc_hw st') d (reg_at reg) AND NOT (mask (reg_bits reg)) = cfg (pc_hw st) d (reg_at reg) AND NOT (mask (reg_bits reg))) \<and>
    (reg_shift reg = 16 \<and> reg_bits reg = 16 \<longrightarrow>
       (\<exists>st''. pci_read hw st' d reg = Inr (reg_field reg (cfg (pc_hw st) d (reg_at reg)) OR x, st'')) \<and>
       take_bit 16 (cfg (pc_hw st') d (reg_at reg)) = 0)"
proof -
  obtain s where s: "pci_write hw st d reg x = Inr (st\<lparr>pc_hw := s\<rparr>)"
    "\<forall>d' offs'. reg_ok d' offs' \<longrightarrow> cfg s d' offs' =
      (if d' = d \<and> offs' = reg_at reg then reg_update reg (wm d (reg_at reg)) x (cfg (pc_hw st) d (reg_at reg))
       else cfg (pc_hw st) d' offs')"
    by (rule pci_write_eq [OF assms(1-3), of reg x])
  have here: "cfg s d (reg_at reg) = reg_update reg (- 1) x (cfg (pc_hw st) d (reg_at reg))"
    using s(2) [rule_format, OF reg_at_ok [OF assms(2), of reg]] assms(4) by simp
  have other: "\<forall>d' offs'. reg_ok d' offs' \<and> (d', offs') \<noteq> (d, reg_at reg) \<longrightarrow> cfg s d' offs' = cfg (pc_hw st) d' offs'"
    using s(2) by (metis prod.inject)
  have "pc_mcfg (st\<lparr>pc_hw := s\<rparr>) = None" using assms(3) by simp
  then obtain t where t: "pci_read hw (st\<lparr>pc_hw := s\<rparr>) d reg = Inr (reg_field reg (cfg s d (reg_at reg)), st\<lparr>pc_hw := t\<rparr>)"
    by (rule pci_read_eq [OF assms(1,2), where reg = reg]) simp
  have low: "reg_shift reg = 0 \<Longrightarrow> (\<exists>st''. pci_read hw (st\<lparr>pc_hw := s\<rparr>) d reg = Inr (x, st''))"
    using t here reg_update_field(1) [OF _ assms(5,6)] by simp
  have up: "reg_shift reg = 16 \<and> reg_bits reg = 16 \<Longrightarrow>
      (\<exists>st''. pci_read hw (st\<lparr>pc_hw := s\<rparr>) d reg = Inr (reg_field reg (cfg (pc_hw st) d (reg_at reg)) OR x, st'')) \<and>
      take_bit 16 (cfg s d (reg_at reg)) = 0"
    using t here reg_update_upper [of reg x] assms(6) by simp
  show ?thesis
    using s(1) other low up here reg_update_field(2) [OF _ assms(5,6)]
    by - (rule exI [of _ "st\<lparr>pc_hw := s\<rparr>"], intro conjI impI, simp_all)
qed

text \<open>Ports over a plain array of registers with the writable bits \<open>m\<close>.\<close>

definition array_ports :: "32 word \<Rightarrow> (32 word \<times> (32 word \<Rightarrow> 32 word)) hardware" where
  "array_ports m = \<lparr>mm_read = (\<lambda>s a. 0), mm_write = (\<lambda>s a x. s),
     port_in = (\<lambda>(latch, regs) p. if p = CFG_DATA then regs latch else 0),
     port_out = (\<lambda>(latch, regs) p x. if p = CFG_ADDR then (x, regs) else (latch, regs(latch := (x AND m) OR (regs latch AND NOT m))))\<rparr>"

definition array_cfg :: "32 word \<times> (32 word \<Rightarrow> 32 word) \<Rightarrow> bdf \<Rightarrow> 8 word \<Rightarrow> 32 word" where
  "array_cfg s d offs = snd s (port_addr d offs)"

lemma array_port_config: "port_config (array_ports m) array_cfg (\<lambda>d offs. m)"
  unfolding port_config_def
  by (intro conjI allI impI)
    (auto simp: array_ports_def array_cfg_def reg_ok_def fun_eq_iff split: prod.splits dest: port_addr_inj)

definition array_state :: "32 word \<Rightarrow> (32 word \<times> (32 word \<Rightarrow> 32 word)) pci" where
  "array_state x = \<lparr>pc_mcfg = None, pc_vm = \<lparr>tables = (\<lambda>t i. 0), wmst = \<lparr>wm_cursor = 0, wm_free = 0, wm_mutex = 0\<rparr>, pml4 = 0, cr3reg = 0\<rparr>,
     pc_hw = (0, \<lambda>a. x)\<rparr>"

theorem pci_write_read_witness:
  "\<exists>st'. pci_write (array_ports (- 1)) (array_state 0x00100007) (0, 1, 0) (pci_regs STS) 0x8 = Inr st' \<and>
     (\<exists>st''. pci_read (array_ports (- 1)) st' (0, 1, 0) (pci_regs STS) = Inr (0x18, st'')) \<and> take_bit 16 (array_cfg (pc_hw st') (0, 1, 0) 4) = 0"
proof -
  have v: "valid_bdf (0, 1, 0)" by (simp add: valid_bdf_def)
  have n: "pc_mcfg (array_state 0x00100007) = None" by (simp add: array_state_def)
  have r: "reg_bits (pci_regs STS) = 16" "reg_shift (pci_regs STS) = 16" "reg_at (pci_regs STS) = 4"
    by (simp_all add: pci_regs.simps pci_reg_def reg_shift_def reg_at_def realoffset_def)
  have f: "reg_field (pci_regs STS) (array_cfg (pc_hw (array_state 0x00100007)) (0, 1, 0) 4) = 0x10"
    by (simp add: reg_field_def r array_cfg_def array_state_def drop_bit_eq_div take_bit_eq_mod)
  have x: "reg_bits (pci_regs STS) \<le> 32" "take_bit (reg_bits (pci_regs STS)) 8 = (8 :: 32 word)"
    by (simp_all add: r take_bit_eq_mod)
  show ?thesis
    using pci_write_read [OF array_port_config v n _ x] unfolding r f by auto
qed

section \<open>Base address registers\<close>

lemma bar_reg:
  "reg_bits (pci_bar_reg n) = 32" "reg_shift (pci_bar_reg n) = 0"
proof -
  have "reg_offset (pci_bar_reg n) AND mask 2 = 0"
  proof -
    have "reg_offset (pci_bar_reg n) = push_bit 2 (4 + ucast n)"
      by (simp add: pci_bar_reg_def pci_reg_def push_bit_eq_mult algebra_simps)
    thus ?thesis by (metis and_zero_eq take_bit_eq_mask take_bit_push_bit diff_self_eq_0 take_bit_0 push_bit_of_0)
  qed
  thus "reg_shift (pci_bar_reg n) = 0" by (simp add: reg_shift_def mask_eq_exp_minus_1)
qed (simp add: pci_bar_reg_def pci_reg_def)

lemma bar_access:
  "reg_field (pci_bar_reg n) x = x" "reg_update (pci_bar_reg n) m x old = (x AND m) OR (old AND NOT m)"
  by (rule bit_word_eqI, auto simp: reg_field_def reg_update_def bar_reg bit_simps)+

lemma bar_size_pow:
  fixes x :: "32 word"
  assumes "4 \<le> k" "k < 32" "x AND mask k AND NOT (mask 4) = 0"
  shows "bar_size (NOT (mask k) OR (x AND mask k)) = 2 ^ k"
proof -
  have x: "\<not> bit x i" if "i < k" "4 \<le> i" for i
    using assms(2) that arg_cong [OF assms(3), of "\<lambda>w. bit w i"] by (auto simp: bit_simps)
  have "NOT ((NOT (mask k) OR (x AND mask k)) AND NOT (mask 4)) = mask k"
    using assms(1) by (intro bit_word_eqI) (auto simp: bit_simps not_less dest: x)
  moreover have "(mask k + 1 :: 32 word) = 2 ^ k" by (simp add: mask_eq_exp_minus_1)
  moreover have "unat (2 ^ k :: 32 word) = 2 ^ k" 
  proof -
    have "unat (of_nat (2 ^ k) :: 32 word) = take_bit 32 (2 ^ k)" by (simp only: unsigned_of_nat) simp
    also have "\<dots> = 2 ^ k" using assms(2) by (intro take_bit_nat_eq_self power_strict_increasing) simp_all
    finally show ?thesis by simp
  qed
  ultimately show ?thesis by (simp add: bar_size_def mask_eq_exp_minus_1)
qed

text \<open>The address of a memory region: its register, and for a 64 bit region the one after it.\<close>

definition bar_target :: "32 word \<Rightarrow> 32 word \<Rightarrow> 64 word" where
  "bar_target x z =
     (ucast x AND NOT 0xf) OR (if drop_bit 1 (ucast x) AND 3 = (2 :: 64 word) then push_bit 32 (ucast z AND NOT 0xf) else 0)"

lemma bar_target_bits: "32 \<le> i \<Longrightarrow> i < 36 \<Longrightarrow> \<not> bit (bar_target x z) i"
proof -
  have m: "(0xf :: 64 word) = mask 4" by (simp add: mask_eq_exp_minus_1)
  show "32 \<le> i \<Longrightarrow> i < 36 \<Longrightarrow> \<not> bit (bar_target x z) i"
    unfolding bar_target_def m by (auto simp: bit_simps dest: bit_imp_le_length)
qed

lemma ucast_flags:
  fixes x :: "32 word"
  shows "(ucast x AND 1 \<noteq> (0 :: 64 word)) = bit x 0" "(ucast x AND 8 \<noteq> (0 :: 64 word)) = bit x 3"
proof -
  have "(w AND 2 ^ i \<noteq> 0) = bit w i" for w :: "64 word" and i
    by (simp add: and_exp_eq_0_iff_not_bit)
  from this [of "ucast x" 0] this [of "ucast x" 3]
  show "(ucast x AND 1 \<noteq> (0 :: 64 word)) = bit x 0" "(ucast x AND 8 \<noteq> (0 :: 64 word)) = bit x 3"
    by (simp_all add: bit_simps)
qed

lemma bar_probe:
  fixes n :: "8 word"
  assumes "port_config hw cfg wm" "valid_bdf d" "pc_mcfg st = None"
  defines "m \<equiv> wm d (reg_at (pci_bar_reg n))" and "x \<equiv> cfg (pc_hw st) d (reg_at (pci_bar_reg n))"
  obtains s where
    "\<And>f. rbind (pci_write hw st d (pci_bar_reg n) (- 1)) (\<lambda>st.
       rbind (pci_read hw st d (pci_bar_reg n)) (\<lambda>(y, st).
       rbind (pci_write hw st d (pci_bar_reg n) x) (\<lambda>st. f y st))) = f (m OR (x AND NOT m)) (st\<lparr>pc_hw := s\<rparr>)"
    "\<forall>d' offs'. reg_ok d' offs' \<longrightarrow> cfg s d' offs' = cfg (pc_hw st) d' offs'"
proof -
  let ?r = "pci_bar_reg n"
  note ok = reg_at_ok [OF assms(2), of ?r]
  obtain s1 where s1: "pci_write hw st d ?r (- 1) = Inr (st\<lparr>pc_hw := s1\<rparr>)"
    "\<forall>d' offs'. reg_ok d' offs' \<longrightarrow> cfg s1 d' offs' =
      (if d' = d \<and> offs' = reg_at ?r then reg_update ?r (wm d (reg_at ?r)) (- 1) (cfg (pc_hw st) d (reg_at ?r)) else cfg (pc_hw st) d' offs')"
    by (rule pci_write_eq [OF assms(1-3), of ?r "- 1"])
  have n1: "pc_mcfg (st\<lparr>pc_hw := s1\<rparr>) = None" using assms(3) by simp
  obtain s2 where s2: "pci_read hw (st\<lparr>pc_hw := s1\<rparr>) d ?r =
      Inr (reg_field ?r (cfg (pc_hw (st\<lparr>pc_hw := s1\<rparr>)) d (reg_at ?r)), st\<lparr>pc_hw := s1\<rparr>\<lparr>pc_hw := s2\<rparr>)"
    "cfg s2 = cfg (pc_hw (st\<lparr>pc_hw := s1\<rparr>))"
    by (rule pci_read_eq [OF assms(1,2) n1, of ?r])
  have n2: "pc_mcfg (st\<lparr>pc_hw := s2\<rparr>) = None" using assms(3) by simp
  obtain s3 where s3: "pci_write hw (st\<lparr>pc_hw := s2\<rparr>) d ?r x = Inr (st\<lparr>pc_hw := s2\<rparr>\<lparr>pc_hw := s3\<rparr>)"
    "\<forall>d' offs'. reg_ok d' offs' \<longrightarrow> cfg s3 d' offs' =
      (if d' = d \<and> offs' = reg_at ?r then reg_update ?r (wm d (reg_at ?r)) x (cfg (pc_hw (st\<lparr>pc_hw := s2\<rparr>)) d (reg_at ?r))
       else cfg (pc_hw (st\<lparr>pc_hw := s2\<rparr>)) d' offs')"
    by (rule pci_write_eq [OF assms(1,2) n2, of ?r x])
  have y: "cfg s1 d (reg_at ?r) = m OR (x AND NOT m)"
    using s1(2) [rule_format, OF ok] by (simp add: bar_access m_def x_def)
  have x: "(x AND m) OR ((m OR (x AND NOT m)) AND NOT m) = x"
    by (rule bit_word_eqI) (auto simp: bit_simps)
  have "cfg s3 d' offs' = cfg (pc_hw st) d' offs'" if "reg_ok d' offs'" for d' offs'
    using s3(2) [rule_format, OF that] s1(2) [rule_format, OF that] s2(2) y x
    by (auto simp: bar_access m_def x_def)
  thus ?thesis using s1(1) s2(1) s3(1) y by (intro that [of s3]) (simp_all add: bar_access)
qed




section \<open>Enumeration of a bus\<close>

text \<open>What the registers of a function say.\<close>

definition cfg_reg :: "(bdf \<Rightarrow> 8 word \<Rightarrow> 32 word) \<Rightarrow> bdf \<Rightarrow> pci_register \<Rightarrow> 32 word" where
  "cfg_reg c d reg = reg_field reg (c d (reg_at reg))"

definition cfg_device :: "(bdf \<Rightarrow> 8 word \<Rightarrow> 32 word) \<Rightarrow> bdf \<Rightarrow> device_t_PCI" where
  "cfg_device c d =
     \<lparr>pd_vendor = ucast (cfg_reg c d (pci_regs VENDOR)), pd_product = ucast (cfg_reg c d (pci_regs PRODUCT)),
      pd_class = ucast (cfg_reg c d (pci_regs CLASS)), pd_subclass = ucast (cfg_reg c d (pci_regs SUBCLASS)),
      pd_progif = ucast (cfg_reg c d (pci_regs PROGIF)), pd_loc = d\<rparr>"

text \<open>A state of the device manager that differs from \<open>st\<close> in the selected register only.\<close>

definition same_cfg :: "('s \<Rightarrow> bdf \<Rightarrow> 8 word \<Rightarrow> 32 word) \<Rightarrow> 's devmgr \<Rightarrow> 's devmgr \<Rightarrow> bool" where
  "same_cfg cfg st st' \<longleftrightarrow>
     (\<exists>s. st' = st\<lparr>dm_pci := (dm_pci st)\<lparr>pc_hw := s\<rparr>\<rparr> \<and> cfg s = cfg (pc_hw (dm_pci st)))"

lemma same_cfg_trans: "same_cfg cfg a b \<Longrightarrow> same_cfg cfg b c \<Longrightarrow> same_cfg cfg a c"
  by (auto simp: same_cfg_def)

lemma same_cfg_fields:
  assumes "same_cfg cfg st st'"
  shows "cfg (pc_hw (dm_pci st')) = cfg (pc_hw (dm_pci st))" "pc_mcfg (dm_pci st') = pc_mcfg (dm_pci st)"
    "dm_devices st' = dm_devices st" "dm_modules st' = dm_modules st"
  using assms by (auto simp: same_cfg_def)

lemma dm_read_eq:
  assumes "port_config hw cfg wm" "valid_bdf d" "pc_mcfg (dm_pci st) = None"
  obtains st' where "dm_read hw st d reg = Inr (cfg_reg (cfg (pc_hw (dm_pci st))) d reg, st')" "same_cfg cfg st st'"
proof -
  obtain s where s: "pci_read hw (dm_pci st) d reg =
      Inr (reg_field reg (cfg (pc_hw (dm_pci st)) d (reg_at reg)), (dm_pci st)\<lparr>pc_hw := s\<rparr>)"
    "cfg s = cfg (pc_hw (dm_pci st))"
    by (rule pci_read_eq [OF assms])
  show ?thesis
    by (rule that [of "st\<lparr>dm_pci := (dm_pci st)\<lparr>pc_hw := s\<rparr>\<rparr>"]) (use s in \<open>auto simp: dm_read_def cfg_reg_def same_cfg_def\<close>)
qed

lemma read_device_eq:
  assumes "port_config hw cfg wm" "valid_bdf d" "pc_mcfg (dm_pci st) = None"
  obtains st' where "read_device hw st d = Inr (cfg_device (cfg (pc_hw (dm_pci st))) d, st')" "same_cfg cfg st st'"
proof -
  note rd = dm_read_eq [OF assms(1,2)]
  obtain s1 where 1: "dm_read hw st d (pci_regs VENDOR) = Inr (cfg_reg (cfg (pc_hw (dm_pci st))) d (pci_regs VENDOR), s1)" "same_cfg cfg st s1"
    by (rule rd [OF assms(3)])
  note f1 = same_cfg_fields [OF 1(2)]
  obtain s2 where 2: "dm_read hw s1 d (pci_regs PRODUCT) = Inr (cfg_reg (cfg (pc_hw (dm_pci s1))) d (pci_regs PRODUCT), s2)" "same_cfg cfg s1 s2"
    by (rule rd [of s1]) (use f1 assms(3) in simp_all)
  note f2 = same_cfg_fields [OF 2(2)]
  obtain s3 where 3: "dm_read hw s2 d (pci_regs CLASS) = Inr (cfg_reg (cfg (pc_hw (dm_pci s2))) d (pci_regs CLASS), s3)" "same_cfg cfg s2 s3"
    by (rule rd [of s2]) (use f1 f2 assms(3) in simp_all)
  note f3 = same_cfg_fields [OF 3(2)]
  obtain s4 where 4: "dm_read hw s3 d (pci_regs SUBCLASS) = Inr (cfg_reg (cfg (pc_hw (dm_pci s3))) d (pci_regs SUBCLASS), s4)" "same_cfg cfg s3 s4"
    by (rule rd [of s3]) (use f1 f2 f3 assms(3) in simp_all)
  note f4 = same_cfg_fields [OF 4(2)]
  obtain s5 where 5: "dm_read hw s4 d (pci_regs PROGIF) = Inr (cfg_reg (cfg (pc_hw (dm_pci s4))) d (pci_regs PROGIF), s5)" "same_cfg cfg s4 s5"
    by (rule rd [of s4]) (use f1 f2 f3 f4 assms(3) in simp_all)
  have "same_cfg cfg st s5" using 1(2) 2(2) 3(2) 4(2) 5(2) by (meson same_cfg_trans)
  thus ?thesis
    by (intro that [of s5]) (use 1(1) 2(1) 3(1) 4(1) 5(1) f1(1) f2(1) f3(1) f4(1) in \<open>simp_all add: read_device_def cfg_device_def\<close>)
qed

lemma devmgr_add_no_modules: "dm_modules st = [] \<Longrightarrow> devmgr_add_pci launch st p = Inr (st\<lparr>dm_devices := dm_devices st @ [p]\<rparr>)"
  by (simp add: devmgr_add_pci_def)

lemma check_functions_flat:
  assumes "port_config hw cfg wm" "\<forall>d \<in> set ds. valid_bdf d" "pc_mcfg (dm_pci st) = None" "dm_modules st = []"
    and "c = cfg (pc_hw (dm_pci st))" "\<forall>d \<in> set ds. cfg_reg c d (pci_regs VENDOR) \<noteq> 0xffff \<longrightarrow> cfg_reg c d (pci_regs HDRTYPE) AND 3 \<noteq> 1"
  shows "\<exists>st'. check_functions fuel launch hw st ds = Inr st' \<and> cfg (pc_hw (dm_pci st')) = c \<and>
    dm_devices st' = dm_devices st @ map (cfg_device c) (filter (\<lambda>d. cfg_reg c d (pci_regs VENDOR) \<noteq> 0xffff) ds)"
  using assms(2-6)
proof (induction ds arbitrary: st)
  case Nil
  thus ?case by simp
next
  case (Cons d ds)
  have v: "valid_bdf d" using Cons.prems(1) by simp
  obtain s1 where 1: "dm_read hw st d (pci_regs VENDOR) = Inr (cfg_reg c d (pci_regs VENDOR), s1)" "same_cfg cfg st s1"
    unfolding Cons.prems(4) by (rule dm_read_eq [OF assms(1) v Cons.prems(2)])
  note f1 = same_cfg_fields [OF 1(2)]
  show ?case
  proof (cases "cfg_reg c d (pci_regs VENDOR) = 0xffff")
    case True
    thus ?thesis using Cons.IH [of s1] Cons.prems 1(1) f1 by simp
  next
    case False
    have n1: "pc_mcfg (dm_pci s1) = None" and c1: "cfg (pc_hw (dm_pci s1)) = c" using f1 Cons.prems(2,4) by simp_all
    obtain s2 where 2: "dm_read hw s1 d (pci_regs HDRTYPE) = Inr (cfg_reg c d (pci_regs HDRTYPE), s2)" "same_cfg cfg s1 s2"
      by (rule dm_read_eq [OF assms(1) v n1, unfolded c1])
    note f2 = same_cfg_fields [OF 2(2)]
    have n2: "pc_mcfg (dm_pci s2) = None" and c2: "cfg (pc_hw (dm_pci s2)) = c" using f2 n1 c1 by simp_all
    obtain s3 where 3: "read_device hw s2 d = Inr (cfg_device c d, s3)" "same_cfg cfg s2 s3"
      by (rule read_device_eq [OF assms(1) v n2, unfolded c2])
    note f3 = same_cfg_fields [OF 3(2)]
    let ?s = "s3\<lparr>dm_devices := dm_devices s3 @ [cfg_device c d]\<rparr>"
    have add: "devmgr_add_pci launch s3 (cfg_device c d) = Inr ?s"
      using f1 f2 f3 Cons.prems(3) by (intro devmgr_add_no_modules) simp
    have hdr: "cfg_reg c d (pci_regs HDRTYPE) AND 3 \<noteq> 1" using Cons.prems(5) False by simp
    have step: "check_functions fuel launch hw st (d # ds) = check_functions fuel launch hw ?s ds"
      using 1(1) 2(1) 3(1) add hdr False by simp
    show ?thesis unfolding step using Cons.IH [of ?s] Cons.prems f1 f2 f3 False by simp
  qed
qed

lemma bus_functions_valid: "d \<in> set (bus_functions bus) \<Longrightarrow> valid_bdf d"
  by (auto simp: bus_functions_def valid_bdf_def word_less_nat_alt unsigned_of_nat take_bit_nat_eq_self)



end
