(* ===== verification/Modules.thy ===== *)
theory Modules
  imports MemMgr Pci CString
begin

text \<open>
  Kernel modules: the archive they come in (\<^verbatim>\<open>util/ustar.cc\<close>), the ELF structures they consist of (\<^verbatim>\<open>util/elf.hh\<close>), the symbols of
  the kernel (\<^verbatim>\<open>util/ksyms.cc\<close>), and their registration, placement and relocation (\<^verbatim>\<open>devmgr/module.cc\<close>). Memory is
  addressed as the kernel sees it. The code of a module that is called is an argument.
\<close>

unbundle bit_operations_syntax

section \<open>Reading memory\<close>

text \<open>A little-endian number of \<open>n\<close> bytes, and the characters of \<open>n\<close> bytes.\<close>

primrec mread :: "memory \<Rightarrow> nat \<Rightarrow> nat \<Rightarrow> nat" where
  "mread m p 0 = 0"
| "mread m p (Suc n) = unat (m p) + 256 * mread m (p + 1) n"

definition mem_chars :: "memory \<Rightarrow> nat \<Rightarrow> nat \<Rightarrow> string" where
  "mem_chars m p n = map (\<lambda>i. char_of (unat (m (p + i)))) [0..<n]"

text \<open>\<^verbatim>\<open>strcmp\<close> on two strings given by their characters, from the \<open>i\<close>th on. Without a terminator it does not end.\<close>

partial_function (option) same_str :: "(nat \<Rightarrow> 8 word) \<Rightarrow> (nat \<Rightarrow> 8 word) \<Rightarrow> nat \<Rightarrow> bool option" where
  "same_str f g i =
     (if f i \<noteq> 0 \<and> g i \<noteq> 0 then if f i \<noteq> g i then Some False else same_str f g (i + 1) else Some (f i = g i))"

definition str_mem :: "memory \<Rightarrow> nat \<Rightarrow> nat \<Rightarrow> 8 word" where
  "str_mem m p i = m (p + i)"

definition str_lit :: "string \<Rightarrow> nat \<Rightarrow> 8 word" where
  "str_lit s i = (if i < length s then of_nat (ch (s ! i)) else 0)"

definition streq :: "(nat \<Rightarrow> 8 word) \<Rightarrow> (nat \<Rightarrow> 8 word) \<Rightarrow> bool res" where
  "streq f g = (case same_str f g 0 of None \<Rightarrow> Inl Hang | Some b \<Rightarrow> Inr b)"

section \<open>Archives\<close>

record ustar_file =
  uf_name :: nat
  uf_size :: nat
  uf_address :: nat

text \<open>The magic of a header, and its size field of which \<open>n\<close> bytes are read.\<close>

definition ustar_magic :: "memory \<Rightarrow> nat \<Rightarrow> bool" where
  "ustar_magic m h = (strncmp (mem_chars m (h + 257) 5) ''ustar'' 5 = 0)"

definition ustar_size :: "memory \<Rightarrow> nat \<Rightarrow> nat \<Rightarrow> nat res" where
  "ustar_size m h n = rbind (oct2bin (mem_chars m (h + 124) n)) (\<lambda>x. Inr (nat (x mod 2 ^ 32)))"

text \<open>The rounding is done with 32 bits.\<close>

definition ustar_blocks :: "nat \<Rightarrow> nat" where
  "ustar_blocks n = trunc32 (trunc32 (n + 511) div 512 * 512) div 512"

text \<open>Both walk over the archive up to the address \<open>e\<close> behind it. The lookup reads the terminator of the size as a digit and does not
  count the header when it advances, so that it may not advance at all.\<close>

fun ustar_lookup :: "nat \<Rightarrow> memory \<Rightarrow> nat \<Rightarrow> nat \<Rightarrow> string \<Rightarrow> ustar_file option res" where
  "ustar_lookup fuel m e h file =
     (if h < e \<and> ustar_magic m h
      then case fuel of
          0 \<Rightarrow> Inl Hang
        | Suc fuel \<Rightarrow>
            rbind (ustar_size m h 12) (\<lambda>n.
            let l = unat (strlen file) in
            if strncmp file (mem_chars m h l) l = 0
            then Inr (Some \<lparr>uf_name = h, uf_size = n, uf_address = h + 512\<rparr>)
            else ustar_lookup fuel m e (h + 512 * ustar_blocks n) file)
      else Inr None)"

declare ustar_lookup.simps [simp del]

function ustar_list :: "memory \<Rightarrow> nat \<Rightarrow> nat \<Rightarrow> ustar_file list res" where
  "ustar_list m e h =
     (if h < e \<and> ustar_magic m h
      then rbind (ustar_size m h 11) (\<lambda>n.
           rbind (ustar_list m e (h + 512 * (ustar_blocks n + 1))) (\<lambda>fs.
           Inr (\<lparr>uf_name = h, uf_size = n, uf_address = h + 512\<rparr> # fs)))
      else Inr [])"
  by pat_completeness auto
termination
  by (relation "measure (\<lambda>(m, e, h). e - h)") auto

declare ustar_list.simps [simp del]

section \<open>ELF structures\<close>

record Elf64_Ehdr =
  e_type :: nat
  e_machine :: nat
  e_version :: nat
  e_entry :: nat
  e_phoff :: nat
  e_shoff :: nat
  e_flags :: nat
  e_ehsize :: nat
  e_phentsize :: nat
  e_phnum :: nat
  e_shentsize :: nat
  e_shnum :: nat
  e_shstrndx :: nat

definition ehdr :: "memory \<Rightarrow> nat \<Rightarrow> Elf64_Ehdr" where
  "ehdr m a =
     \<lparr>e_type = mread m (a + 16) 2, e_machine = mread m (a + 18) 2, e_version = mread m (a + 20) 4,
      e_entry = mread m (a + 24) 8, e_phoff = mread m (a + 32) 8, e_shoff = mread m (a + 40) 8,
      e_flags = mread m (a + 48) 4, e_ehsize = mread m (a + 52) 2, e_phentsize = mread m (a + 54) 2,
      e_phnum = mread m (a + 56) 2, e_shentsize = mread m (a + 58) 2, e_shnum = mread m (a + 60) 2,
      e_shstrndx = mread m (a + 62) 2\<rparr>"

record Elf64_Shdr =
  sh_name :: nat
  sh_type :: nat
  sh_flags :: nat
  sh_addr :: nat
  sh_offset :: nat
  sh_size :: nat
  sh_link :: nat
  sh_info :: nat
  sh_addralign :: nat
  sh_entsize :: nat

text \<open>The address of the section headers is computed once, before anything is written; \<open>sh\<close> is that address below.\<close>

definition shdrs :: "memory \<Rightarrow> nat \<Rightarrow> nat" where
  "shdrs m a = add64 a (e_shoff (ehdr m a))"

abbreviation (input) shdr_at :: "nat \<Rightarrow> nat \<Rightarrow> nat" where
  "shdr_at sh i \<equiv> add64 sh (64 * i)"

definition shdr :: "memory \<Rightarrow> nat \<Rightarrow> nat \<Rightarrow> Elf64_Shdr" where
  "shdr m sh i =
     (let p = shdr_at sh i in
      \<lparr>sh_name = mread m p 4, sh_type = mread m (p + 4) 4, sh_flags = mread m (p + 8) 8, sh_addr = mread m (p + 16) 8,
       sh_offset = mread m (p + 24) 8, sh_size = mread m (p + 32) 8, sh_link = mread m (p + 40) 4,
       sh_info = mread m (p + 44) 4, sh_addralign = mread m (p + 48) 8, sh_entsize = mread m (p + 56) 8\<rparr>)"

record Elf64_Sym =
  st_name :: nat
  st_info :: nat
  st_other :: nat
  st_shndx :: nat
  st_value :: nat
  st_size :: nat

definition elf_sym :: "memory \<Rightarrow> nat \<Rightarrow> nat \<Rightarrow> Elf64_Sym" where
  "elf_sym m t i =
     (let p = add64 t (24 * i) in
      \<lparr>st_name = mread m p 4, st_info = mread m (p + 4) 1, st_other = mread m (p + 5) 1, st_shndx = mread m (p + 6) 2,
       st_value = mread m (p + 8) 8, st_size = mread m (p + 16) 8\<rparr>)"

record Elf64_Rela =
  r_offset :: nat
  r_info :: nat
  r_addend :: nat

definition elf_rela :: "memory \<Rightarrow> nat \<Rightarrow> nat \<Rightarrow> Elf64_Rela" where
  "elf_rela m t i =
     (let p = add64 t (24 * i) in \<lparr>r_offset = mread m p 8, r_info = mread m (p + 8) 8, r_addend = mread m (p + 16) 8\<rparr>)"

abbreviation (input) "SHT_SYMTAB \<equiv> 2 :: nat"
abbreviation (input) "SHT_RELA \<equiv> 4 :: nat"
abbreviation (input) "SHT_NOBITS \<equiv> 8 :: nat"
abbreviation (input) "SHT_REL \<equiv> 9 :: nat"
abbreviation (input) "R_X86_64_64 \<equiv> 1 :: nat"
abbreviation (input) "MODULES_BASE \<equiv> 0xfffffff000000000 :: nat"

text \<open>The names of sections.\<close>

definition section_name :: "memory \<Rightarrow> nat \<Rightarrow> nat \<Rightarrow> nat \<Rightarrow> 8 word" where
  "section_name m a i =
     str_mem m (add64 (add64 a (sh_offset (shdr m (shdrs m a) (e_shstrndx (ehdr m a))))) (sh_name (shdr m (shdrs m a) i)))"

primrec rfold :: "('a \<Rightarrow> 's \<Rightarrow> 's res) \<Rightarrow> 'a list \<Rightarrow> 's \<Rightarrow> 's res" where
  "rfold f [] s = Inr s"
| "rfold f (x # xs) s = rbind (f x s) (\<lambda>s. rfold f xs s)"

section \<open>Symbols of the kernel\<close>

text \<open>The address of the symbols, their number, and the address of their names. Before they are found they are null.\<close>

record ksyms =
  ks_syms :: nat
  ks_num :: nat
  ks_strtab :: nat

definition ksyms_read :: "memory \<Rightarrow> nat option \<Rightarrow> ksyms \<Rightarrow> ksyms res" where
  "ksyms_read m file ks =
     (case file of
        None \<Rightarrow> Inl (Fatal ''Assert failed: file_req.response'')
      | Some a \<Rightarrow>
          if a = 0 then Inl (Fatal ''Assert failed: kernel->address'')
          else if strncmp (mem_chars m a 4) (CHR 0x7f # ''ELF'') 4 \<noteq> 0 then Inl (Fatal ''Assert failed: e_ident'')
          else
            let sst = add64 a (sh_offset (shdr m (shdrs m a) (e_shstrndx (ehdr m a)))) in
            Inr (fold (\<lambda>i ks.
              let s = shdr m (shdrs m a) i in
              if strncmp (mem_chars m (add64 sst (sh_name s)) 7) ''.strtab'' 7 = 0 then ks\<lparr>ks_strtab := add64 a (sh_offset s)\<rparr>
              else if sh_type s = SHT_SYMTAB then ks\<lparr>ks_syms := add64 a (sh_offset s), ks_num := trunc32 (sh_size s div 24)\<rparr>
              else ks) [0..<e_shnum (ehdr m a)] ks))"

section \<open>Linking\<close>

text \<open>The three locals of \<^verbatim>\<open>modules_link\<close> that have no value until their section is found.\<close>

record link_tabs =
  l_strtab :: "nat option"
  l_symtab :: "nat option"
  l_num_syms :: "nat option"

definition link_scan :: "memory \<Rightarrow> nat \<Rightarrow> link_tabs res" where
  "link_scan m a =
     rfold (\<lambda>i l.
       let s = shdr m (shdrs m a) i in
       rbind (streq (section_name m a i) (str_lit ''.strtab'')) (\<lambda>eq.
       Inr (if eq then l\<lparr>l_strtab := Some (add64 a (sh_offset s))\<rparr>
            else if sh_type s = SHT_SYMTAB
            then l\<lparr>l_symtab := Some (add64 a (sh_offset s)), l_num_syms := Some (trunc32 (sh_size s div 24))\<rparr>
            else l))) [0..<e_shnum (ehdr m a)] \<lparr>l_strtab = None, l_symtab = None, l_num_syms = None\<rparr>"

definition find_entry :: "memory \<Rightarrow> nat \<Rightarrow> nat \<Rightarrow> nat \<Rightarrow> nat \<Rightarrow> nat res" where
  "find_entry m sh strtab symtab n =
     rfold (\<lambda>i entry.
       let y = elf_sym m symtab i in
       rbind (streq (str_mem m (add64 strtab (st_name y))) (str_lit ''mod_main'')) (\<lambda>eq.
       Inr (if eq then add64 (sh_addr (shdr m sh (st_shndx y))) (st_value y) else entry))) [0..<n] 0"

text \<open>The first symbol of the kernel with the given name, from the \<open>k\<close>th on.\<close>

function find_ksym :: "memory \<Rightarrow> ksyms \<Rightarrow> (nat \<Rightarrow> 8 word) \<Rightarrow> nat \<Rightarrow> nat option res" where
  "find_ksym m ks name k =
     (if k < ks_num ks
      then let y = elf_sym m (ks_syms ks) k in
        rbind (streq (str_mem m (add64 (ks_strtab ks) (st_name y))) name) (\<lambda>eq.
        if eq then Inr (Some (st_value y)) else find_ksym m ks name (k + 1))
      else Inr None)"
  by pat_completeness auto
termination
  by (relation "measure (\<lambda>(m, ks, name, k). ks_num ks - k)") auto

declare find_ksym.simps [simp del]

definition resolve :: "memory \<Rightarrow> nat \<Rightarrow> ksyms \<Rightarrow> nat \<Rightarrow> nat \<Rightarrow> Elf64_Sym \<Rightarrow> nat option res" where
  "resolve m sh ks sst strtab y =
     (let name = str_mem m (if st_info y = 3 then add64 sst (sh_name (shdr m sh (st_shndx y))) else add64 strtab (st_name y)) in
      if st_shndx y = 0 then find_ksym m ks name 0
      else Inr (Some (add64 (sh_addr (shdr m sh (st_shndx y))) (st_value y))))"

text \<open>One relocation: \<open>sec\<close> is the section that is relocated, \<open>t\<close> the table of relocations.\<close>

definition relocate :: "nat \<Rightarrow> ksyms \<Rightarrow> nat \<Rightarrow> nat \<Rightarrow> nat \<Rightarrow> nat \<Rightarrow> nat \<Rightarrow> nat \<Rightarrow> memory \<Rightarrow> memory res" where
  "relocate sh ks sst strtab symtab sec t j m =
     (let r = elf_rela m t j; y = elf_sym m symtab (r_info r div 2 ^ 32) in
      rbind (resolve m sh ks sst strtab y) (\<lambda>address.
      case address of
        None \<Rightarrow> Inl (Fatal ''Szimbolum nem talalhato: %s'')
      | Some address \<Rightarrow>
          if r_info r mod 2 ^ 32 = R_X86_64_64
          then Inr (store64 m (add64 (sh_addr (shdr m sh sec)) (r_offset r)) (of_nat (add64 address (r_addend r))))
          else Inl (Fatal ''Unsupported reloc type: %lld'')))"

definition relocate_section :: "nat \<Rightarrow> nat \<Rightarrow> ksyms \<Rightarrow> nat \<Rightarrow> nat \<Rightarrow> nat \<Rightarrow> nat \<Rightarrow> memory \<Rightarrow> memory res" where
  "relocate_section a sh ks sst strtab symtab i m =
     (let s = shdr m sh i in
      if sh_type s = SHT_REL then Inl (Fatal ''%s nevu section rel!'')
      else if sh_type s \<noteq> SHT_RELA then Inr m
      else rfold (relocate sh ks sst strtab symtab (sh_info s) (add64 a (sh_offset s))) [0..<trunc32 (sh_size s div 24)] m)"

text \<open>The number of sections is read again in every round.\<close>

lemma mread_bound: "mread m p n < 256 ^ n"
proof (induction n arbitrary: p)
  case (Suc n)
  have "unat (m p) < 256" using unsigned_less [of "m p"] by simp
  thus ?case using Suc [of "p + 1"] by simp
qed simp

lemma e_shnum_bound: "e_shnum (ehdr m a) < 65536"
  using mread_bound [of m "a + 60" 2] by (simp add: ehdr_def)

function relocate_all :: "nat \<Rightarrow> nat \<Rightarrow> ksyms \<Rightarrow> nat \<Rightarrow> nat \<Rightarrow> nat \<Rightarrow> nat \<Rightarrow> memory \<Rightarrow> memory res" where
  "relocate_all a sh ks sst strtab symtab i m =
     (if i < e_shnum (ehdr m a)
      then rbind (relocate_section a sh ks sst strtab symtab i m) (\<lambda>m. relocate_all a sh ks sst strtab symtab (i + 1) m)
      else Inr m)"
  by pat_completeness auto
termination
proof (relation "measure (\<lambda>(a, sh, ks, sst, strtab, symtab, i, m). 65536 - i)", goal_cases)
  case (2 a sh ks sst strtab symtab i m m')
  thus ?case using e_shnum_bound [of m a] by simp
qed simp

declare relocate_all.simps [simp del]

definition modules_link :: "memory \<Rightarrow> nat \<Rightarrow> ksyms \<Rightarrow> (nat \<times> memory) res" where
  "modules_link m a ks =
     (let sh = shdrs m a; sst = add64 a (sh_offset (shdr m sh (e_shstrndx (ehdr m a)))) in
      rbind (link_scan m a) (\<lambda>l.
      case (l_strtab l, l_symtab l, l_num_syms l) of
        (Some strtab, Some symtab, Some n) \<Rightarrow>
          rbind (find_entry m sh strtab symtab n) (\<lambda>entry.
          if entry = 0 then Inl (Fatal ''Entry point not found! Is the mangling correct?'')
          else rbind (relocate_all a sh ks sst strtab symtab 0 m) (\<lambda>m. Inr (entry, m)))
      | (None, Some symtab, Some 0) \<Rightarrow> Inl (Fatal ''Entry point not found! Is the mangling correct?'')
      | _ \<Rightarrow> Inl Undefined))"

section \<open>Placing\<close>

text \<open>
  The state the loader works on. \<open>ld_mem\<close> is memory by virtual address; the pages that are mapped for a module are new, so no other
  address in use leads to them.
\<close>

record loader =
  ld_mem :: memory
  ld_vm :: vm
  ld_pmm :: pmm
  ld_heap :: memmgr
  ld_slots :: "bitmap option"
  ld_ksyms :: ksyms

text \<open>The pages of a section, one more than it needs. The counter has 32 bits: when it wraps, every page is mapped already and the loop
  never ends.\<close>

function map_section :: "loader \<Rightarrow> nat \<Rightarrow> nat \<Rightarrow> nat \<Rightarrow> loader res" where
  "map_section st sb bound j =
     (if j \<ge> 2 ^ 32 then Inl Hang
      else if j \<le> bound
      then let (r, v) = paging_lookup_current (ld_vm st) (of_nat (add64 sb j)) in
        rbind
          (if r \<noteq> - 1 then Inr (st\<lparr>ld_vm := v\<rparr>)
           else
             rbind (pmm_alloc (ld_pmm st) PMM_PAGESIZE) (\<lambda>(p, pm).
             rbind (map_page v (of_nat (add64 sb j)) (of_nat (PHYSICAL p)) (mflag MF_KDATA OR mflag MF_EXE OR mflag MF_s4K) (cache_code WB)) (\<lambda>v.
             Inr (st\<lparr>ld_vm := v, ld_pmm := pm\<rparr>)))) (\<lambda>st.
        map_section st sb bound (j + PMM_PAGESIZE))
      else Inr st)"
  by pat_completeness auto
termination
  by (relation "measure (\<lambda>(st, sb, bound, j). 2 ^ 32 - j)") (auto simp: PMM_PAGESIZE_def)

declare map_section.simps [simp del]

definition load_section :: "nat \<Rightarrow> nat \<Rightarrow> nat \<Rightarrow> nat \<Rightarrow> loader \<Rightarrow> (nat \<times> loader) res" where
  "load_section a sh i sb st =
     (let s = shdr (ld_mem st) sh i in
      if bit (sh_flags s) 1 \<and> sh_size s \<noteq> 0
      then
        let st = st\<lparr>ld_mem := store64 (ld_mem st) (shdr_at sh i + 16) (of_nat sb)\<rparr> in
        rbind (map_section st sb (align64 (sh_size s) PMM_PAGESIZE) 0) (\<lambda>st.
        let m = (if sh_type s = SHT_NOBITS then memset (ld_mem st) sb 0 (sh_size s)
                 else memcpy (ld_mem st) sb (add64 a (sh_offset s)) (sh_size s))
        in Inr (add64 sb (align64 (sh_size s) 32), st\<lparr>ld_mem := m\<rparr>))
      else Inr (sb, st))"

function load_sections :: "nat \<Rightarrow> nat \<Rightarrow> nat \<Rightarrow> nat \<Rightarrow> loader \<Rightarrow> loader res" where
  "load_sections a sh i sb st =
     (if i < e_shnum (ehdr (ld_mem st) a)
      then rbind (load_section a sh i sb st) (\<lambda>(sb, st). load_sections a sh (i + 1) sb st)
      else Inr st)"
  by pat_completeness auto
termination
proof (relation "measure (\<lambda>(a, sh, i, sb, st). 65536 - i)", goal_cases)
  case (2 a sh i sb st)
  thus ?case using e_shnum_bound [of "ld_mem st" a] by simp
qed simp

declare load_sections.simps [simp del]

record module =
  mod_content :: nat
  mod_size :: nat
  mod_entry :: nat
  mod_metadata :: nat
  mod_loaded :: bool

text \<open>The slot a module is placed in. With all 64 in use the search returns \<^verbatim>\<open>-1\<close>, which is not tested.\<close>

definition module_slot :: "loader \<Rightarrow> (nat \<times> loader) res" where
  "module_slot st =
     rbind (case ld_slots st of
              Some b \<Rightarrow> Inr (b, st)
            | None \<Rightarrow>
                rbind (alloc (ld_heap st) 8 ''module.cc'' 122) (\<lambda>(_, h).
                rbind (bitmap_init [0] 64 False) (\<lambda>b. Inr (b, st\<lparr>ld_heap := h\<rparr>)))) (\<lambda>(b, st).
     rbind (find_and_set b 0) (\<lambda>(modid, b).
     Inr (add64 MODULES_BASE (mul64 (gibs2bytes 1) modid), st\<lparr>ld_slots := Some b\<rparr>)))"

definition modules_load :: "module \<Rightarrow> loader \<Rightarrow> (module \<times> loader) res" where
  "modules_load md st =
     rbind (module_slot st) (\<lambda>(modbase, st).
     rbind (load_sections (mod_content md) (shdrs (ld_mem st) (mod_content md)) 0 modbase st) (\<lambda>st.
     rbind (modules_link (ld_mem st) (mod_content md) (ld_ksyms st)) (\<lambda>(entry, m).
     Inr (md\<lparr>mod_entry := entry, mod_loaded := True\<rparr>, st\<lparr>ld_mem := m\<rparr>))))"

section \<open>Launching and registration\<close>

text \<open>\<open>run entry\<close> is the call of the entry point of a module.\<close>

definition modules_launch :: "(nat \<Rightarrow> loader \<Rightarrow> loader res) \<Rightarrow> module \<Rightarrow> loader \<Rightarrow> (module \<times> loader) res" where
  "modules_launch run md st =
     rbind (if mod_loaded md then Inr (md, st) else modules_load md st) (\<lambda>(md, st).
     rbind (run (mod_entry md) st) (\<lambda>st. Inr (md, st)))"

function find_modinfo :: "memory \<Rightarrow> nat \<Rightarrow> nat \<Rightarrow> nat option res" where
  "find_modinfo m a i =
     (if i < e_shnum (ehdr m a)
      then rbind (streq (str_lit ''.modinfo'') (section_name m a i)) (\<lambda>eq.
        if eq then Inr (Some (add64 a (sh_offset (shdr m (shdrs m a) i)))) else find_modinfo m a (i + 1))
      else Inr None)"
  by pat_completeness auto
termination
  by (relation "measure (\<lambda>(m, a, i). e_shnum (ehdr m a) - i)") auto

declare find_modinfo.simps [simp del]

definition modules_register ::
  "(nat \<Rightarrow> loader \<Rightarrow> loader res) \<Rightarrow> ustar_file \<Rightarrow> module list \<times> loader \<Rightarrow> (module list \<times> loader) res" where
  "modules_register run f ms =
     (let (mods, st) = ms; a = uf_address f; m = ld_mem st in
      if strncmp (CHR 0x7f # ''ELF'') (mem_chars m a 4) 4 \<noteq> 0 then Inl (Fatal ''Assert failed: e_ident'')
      else
        rbind (find_modinfo m a 0) (\<lambda>r.
        case r of
          None \<Rightarrow> Inr (mods, st)
        | Some p \<Rightarrow>
            let md = \<lparr>mod_content = a, mod_size = uf_size f, mod_entry = 0, mod_metadata = p, mod_loaded = False\<rparr> in
            rbind (if mread m (p + 32) 4 = unat (trigger_code ANY) then modules_launch run md st else Inr (md, st)) (\<lambda>(md, st).
            Inr (mods @ [md], st))))"

text \<open>The files the boot loader has loaded: path, address and size.\<close>

definition modules_register_all ::
  "(nat \<Rightarrow> loader \<Rightarrow> loader res) \<Rightarrow> (string \<times> nat \<times> nat) list option \<Rightarrow> module list \<times> loader \<Rightarrow> (module list \<times> loader) res" where
  "modules_register_all run response ms =
     (case response of
        None \<Rightarrow> Inr ms
      | Some files \<Rightarrow>
          rfold (\<lambda>(path, addr, n) (mods, st).
            if strcmp path ''/modules.tar'' \<noteq> 0 then Inr (mods, st)
            else
              rbind (check_pages (ld_vm st) (of_nat addr) n) (\<lambda>v.
              let st = st\<lparr>ld_vm := v\<rparr> in
              rbind (ustar_list (ld_mem st) (addr + n) addr) (\<lambda>fs. rfold (modules_register run) fs (mods, st)))) files ms)"

section \<open>Reading an archive back\<close>

text \<open>The writer: the size in octal digits, a header of 512 bytes in which only the fields that are read have contents, and files padded to
  whole blocks.\<close>

primrec oct_digits :: "nat \<Rightarrow> nat \<Rightarrow> string" where
  "oct_digits 0 n = []"
| "oct_digits (Suc k) n = oct_digits k (n div 8) @ [char_of (48 + n mod 8)]"

definition byte_str :: "string \<Rightarrow> 8 word list" where
  "byte_str s = map (\<lambda>c. of_nat (ch c)) s"

definition tar_header :: "8 word list \<Rightarrow> nat \<Rightarrow> 8 word list" where
  "tar_header name n =
     name @ replicate (124 - length name) 0 @ byte_str (oct_digits 11 n) @ replicate 122 0 @ byte_str ''ustar'' @ replicate 250 0"

definition tar_entry :: "8 word list \<times> 8 word list \<Rightarrow> 8 word list" where
  "tar_entry f = tar_header (fst f) (length (snd f)) @ snd f @ replicate (512 * ((length (snd f) + 511) div 512) - length (snd f)) 0"

definition tar_archive :: "(8 word list \<times> 8 word list) list \<Rightarrow> 8 word list" where
  "tar_archive fs = concat (map tar_entry fs) @ replicate 1024 0"

definition tar_ok :: "8 word list \<times> 8 word list \<Rightarrow> bool" where
  "tar_ok f \<longleftrightarrow> length (fst f) \<le> 100 \<and> 0 \<notin> set (fst f) \<and> length (snd f) < 2 ^ 31"

definition mem_bytes :: "memory \<Rightarrow> nat \<Rightarrow> nat \<Rightarrow> 8 word list" where
  "mem_bytes m p n = map (\<lambda>i. m (p + i)) [0..<n]"

definition read_back :: "memory \<Rightarrow> ustar_file \<Rightarrow> 8 word list \<times> 8 word list" where
  "read_back m f = (takeWhile (\<lambda>c. c \<noteq> 0) (mem_bytes m (uf_name f) 100), mem_bytes m (uf_address f) (uf_size f))"

lemma length_oct [simp]: "length (oct_digits k n) = k"
  by (induction k arbitrary: n) simp_all

lemma length_byte_str [simp]: "length (byte_str s) = length s"
  by (simp add: byte_str_def)

lemma char_of_0: "char_of (0 :: nat) = NUL"
  by (simp add: char_of_def)

lemma ch_char_of: "n < 256 \<Longrightarrow> ch (char_of n) = n"
  by (simp add: ch_def)

lemma oct2bin_loop_append: "oct2bin_loop (s @ t) n = rbind (oct2bin_loop s n) (\<lambda>n. oct2bin_loop t n)"
  by (induction s arbitrary: n) (simp_all add: Let_def)

lemma oct2bin_digits: "n < 8 ^ k \<Longrightarrow> n < 2 ^ 31 \<Longrightarrow> oct2bin_loop (oct_digits k n) 0 = Inr (int n)"
proof (induction k arbitrary: n)
  case (Suc k)
  have "n div 8 < 8 ^ k" using Suc.prems(1) by (simp add: less_mult_imp_div_less)
  hence "oct2bin_loop (oct_digits k (n div 8)) 0 = Inr (int (n div 8))" using Suc.IH Suc.prems(2) by simp
  moreover have "ch (char_of (48 + n mod 8)) = 48 + n mod 8" by (rule ch_char_of) simp
  moreover have "int (n div 8) * 8 + int (n mod 8) = int n"
    using div_mult_mod_eq [of n 8] by (metis of_nat_add of_nat_mult of_nat_numeral)
  moreover have "ch (CHR ''0'') = 48" by (simp add: ch_def)
  ultimately show ?case using Suc.prems(2) by (simp add: oct2bin_loop_append Let_def fits_i32_def)
qed simp

lemma mem_bytes_append: "mem_bytes m p (j + k) = mem_bytes m p j @ mem_bytes m (p + j) k"
  by (rule nth_equalityI) (auto simp: mem_bytes_def nth_append)

lemma mem_chars_append: "mem_chars m p (j + k) = mem_chars m p j @ mem_chars m (p + j) k"
  by (rule nth_equalityI) (auto simp: mem_chars_def nth_append)

lemma take_mem_bytes: "j \<le> k \<Longrightarrow> take j (mem_bytes m p k) = mem_bytes m p j"
  by (simp add: mem_bytes_def take_map)

lemma length_mem_bytes [simp]: "length (mem_bytes m p n) = n"
  by (simp add: mem_bytes_def)

lemma mem_bytes_split:
  "mem_bytes m p n = xs @ ys \<longleftrightarrow> length xs + length ys = n \<and> mem_bytes m p (length xs) = xs \<and> mem_bytes m (p + length xs) (length ys) = ys"
  by (metis append_eq_append_conv length_append length_mem_bytes mem_bytes_append)

lemma mem_chars_byte_str:
  assumes "mem_bytes m p (length s) = byte_str s"
  shows "mem_chars m p (length s) = s"
proof (rule nth_equalityI)
  fix i assume "i < length (mem_chars m p (length s))"
  hence i: "i < length s" by (simp add: mem_chars_def)
  have "m (p + i) = of_nat (ch (s ! i))"
    using arg_cong [OF assms, of "\<lambda>xs. xs ! i"] i by (simp add: mem_bytes_def byte_str_def)
  moreover have "unat (of_nat (ch c) :: 8 word) = ch c" for c
    by (simp add: ch_def unsigned_of_nat take_bit_nat_eq_self)
  ultimately show "mem_chars m p (length s) ! i = s ! i" using i by (simp add: mem_chars_def ch_def)
qed (simp add: mem_chars_def)

lemma header_fields:
  assumes "mem_bytes m h 512 = tar_header name n" "length name \<le> 100" "0 \<notin> set name" "n < 2 ^ 31"
  shows "ustar_magic m h" "ustar_size m h 11 = Inr n" "takeWhile (\<lambda>c. c \<noteq> 0) (mem_bytes m h 100) = name"
    "mem_chars m (h + 124) 12 = oct_digits 11 n @ [NUL]"
proof -
  let ?z = "replicate (124 - length name) (0 :: 8 word)"
  have five: "Suc (Suc (Suc (Suc (Suc 0)))) = 5" by simp
  have oct: "mem_bytes m (h + 124) 11 = byte_str (oct_digits 11 n)" and z: "mem_bytes m (h + 135) 122 = replicate 122 0"
    and mag: "mem_bytes m (h + 257) 5 = byte_str ''ustar''" and nm: "mem_bytes m h (length name) = name"
    and pad: "mem_bytes m (h + length name) (124 - length name) = ?z"
    using assms(1,2) unfolding tar_header_def mem_bytes_split by (simp_all add: ac_simps five)
  have o: "mem_chars m (h + 124) 11 = oct_digits 11 n" using mem_chars_byte_str [of m "h + 124" "oct_digits 11 n"] oct by simp
  have "mem_chars m (h + 257) 5 = ''ustar''" using mem_chars_byte_str [of m "h + 257" "''ustar''"] mag by (simp add: five)
  thus "ustar_magic m h" by (simp add: ustar_magic_def strncmp_def strncmp_loop_zero Let_def)
  show "ustar_size m h 11 = Inr n"
    using oct2bin_digits [of n 11] assms(4) by (simp add: ustar_size_def o oct2bin_def)
  have "m (h + 135) = 0" using arg_cong [OF z, of "\<lambda>xs. xs ! 0"] by (simp add: mem_bytes_def)
  hence "mem_chars m (h + 135) 1 = [NUL]" by (simp add: mem_chars_def char_of_0)
  thus "mem_chars m (h + 124) 12 = oct_digits 11 n @ [NUL]" using o mem_chars_append [of m "h + 124" 11 1] by (simp add: add.commute)
  have "mem_bytes m h 124 = name @ ?z"
    using nm pad mem_bytes_append [of m h "length name" "124 - length name"] assms(2) by simp
  hence "mem_bytes m h 100 = take 100 (name @ ?z)"
    using take_mem_bytes [of 100 124 m h] by simp
  hence "mem_bytes m h 100 = name @ replicate (100 - length name) 0" using assms(2) by simp
  moreover have "takeWhile (\<lambda>c. c \<noteq> 0) (name @ replicate k 0) = name" for k
    using assms(3) by (induction name) auto
  ultimately show "takeWhile (\<lambda>c. c \<noteq> 0) (mem_bytes m h 100) = name" by simp
qed

lemma length_tar_header: "length name \<le> 100 \<Longrightarrow> length (tar_header name n) = 512"
  by (simp add: tar_header_def)

lemma ustar_blocks_eq: "n < 2 ^ 31 \<Longrightarrow> ustar_blocks n = (n + 511) div 512"
proof -
  assume n: "n < 2 ^ 31"
  have "(n + 511) div 512 * 512 \<le> n + 511" by (rule div_times_less_eq_dividend)
  thus "ustar_blocks n = (n + 511) div 512" using n by (simp add: ustar_blocks_def trunc32_def)
qed

lemma ustar_list_ok:
  assumes "\<forall>f \<in> set fs. tar_ok f" "mem_bytes m h (length (tar_archive fs)) = tar_archive fs" "e = h + length (tar_archive fs)"
  shows "\<exists>ufs. ustar_list m e h = Inr ufs \<and> map (read_back m) ufs = fs"
  using assms
proof (induction fs arbitrary: h)
  case Nil
  have a: "tar_archive [] = replicate 1024 0" by (simp only: tar_archive_def list.map concat.simps append_Nil)
  have "mem_bytes m h 1024 = replicate 1024 0" using Nil(2) unfolding a length_replicate .
  from arg_cong [OF this, of "\<lambda>xs. xs ! 257"] have "m (h + 257) = 0" unfolding mem_bytes_def by (simp only: nth_map_upt) simp
  hence "deref (mem_chars m (h + 257) 5) = NUL" by (simp add: mem_chars_def upt_rec char_of_0)
  hence "\<not> ustar_magic m h" by (simp add: ustar_magic_def strncmp_def)
  thus ?case by (subst ustar_list.simps) simp
next
  case (Cons f fs)
  obtain name d where f: "f = (name, d)" by (cases f)
  have ok: "length name \<le> 100" "0 \<notin> set name" "length d < 2 ^ 31" using Cons.prems(1) f by (auto simp: tar_ok_def)
  let ?b = "(length d + 511) div 512"
  let ?h = "h + 512 * (?b + 1)"
  let ?pad = "replicate (512 * ?b - length d) (0 :: 8 word)"
  have b: "length d \<le> 512 * ?b"
    using mult_div_mod_eq [of 512 "length d + 511"] mod_less_divisor [of 512 "length d + 511"] by linarith
  have a: "tar_archive (f # fs) = tar_header name (length d) @ d @ ?pad @ tar_archive fs"
    by (simp add: tar_archive_def tar_entry_def f)
  have parts: "mem_bytes m h 512 = tar_header name (length d)" "mem_bytes m (h + 512) (length d) = d"
    "mem_bytes m ?h (length (tar_archive fs)) = tar_archive fs"
    using Cons.prems(2) b unfolding a mem_bytes_split by (simp_all add: length_tar_header [OF ok(1)] ac_simps)
  have e: "e = ?h + length (tar_archive fs)" using Cons.prems(3) b unfolding a by (simp add: length_tar_header [OF ok(1)])
  obtain ufs where u: "ustar_list m e ?h = Inr ufs" "map (read_back m) ufs = fs"
    using Cons.IH [OF _ parts(3) e] Cons.prems(1) by auto
  note hf = header_fields [OF parts(1) ok]
  have lt: "h < e" using e by simp
  let ?u = "\<lparr>uf_name = h, uf_size = length d, uf_address = h + 512\<rparr>"
  have "ustar_list m e h = Inr (?u # ufs)"
    by (subst ustar_list.simps) (simp add: lt hf ustar_blocks_eq [OF ok(3)] u(1) [simplified])
  moreover have "read_back m ?u = f" using hf(3) parts(2) f by (simp add: read_back_def)
  ultimately show ?case using u(2) by auto
qed

lemma ustar_lookup_stuck:
  assumes "h < e" "ustar_magic m h" "mem_chars m (h + 124) 12 = oct_digits 11 0 @ [NUL]"
    and "strncmp fname (mem_chars m h (unat (strlen fname))) (unat (strlen fname)) \<noteq> 0"
  shows "ustar_lookup fuel m e h fname = Inl Hang"
proof (induction fuel)
  case (Suc fuel)
  have "oct2bin_loop (oct_digits 11 0) 0 = Inr (int 0)" by (rule oct2bin_digits) simp_all
  hence "ustar_size m h 12 = Inr (2 ^ 32 - 48)"
    by (simp add: ustar_size_def assms(3) oct2bin_def oct2bin_loop_append Let_def fits_i32_def ch_def)
  moreover have "ustar_blocks (2 ^ 32 - 48) = 0" by (simp add: ustar_blocks_def trunc32_def)
  ultimately show ?case using assms(1,2,4) Suc by (subst ustar_lookup.simps) (simp add: Let_def)
qed (subst ustar_lookup.simps, simp add: assms(1,2))

text \<open>C38: an archive written with any files is listed with exactly these, in order: every name and every content is found at the
  addresses that are returned. Looking up a name in it, however, never ends when the first file is empty and not
  the one that is looked for.\<close>

theorem ustar_roundtrip:
  assumes "\<forall>f \<in> set fs. tar_ok f" "mem_bytes m h (length (tar_archive fs)) = tar_archive fs"
  shows "(\<exists>ufs. ustar_list m (h + length (tar_archive fs)) h = Inr ufs \<and> map (read_back m) ufs = fs) \<and>
    (\<forall>name rest fname fuel. fs = (name, []) # rest \<and>
       strncmp fname (mem_chars m h (unat (strlen fname))) (unat (strlen fname)) \<noteq> 0 \<longrightarrow>
       ustar_lookup fuel m (h + length (tar_archive fs)) h fname = Inl Hang)"
proof (intro conjI allI impI)
  show "\<exists>ufs. ustar_list m (h + length (tar_archive fs)) h = Inr ufs \<and> map (read_back m) ufs = fs"
    by (rule ustar_list_ok [OF assms refl])
  fix name rest fname fuel
  assume f: "fs = (name, []) # rest \<and> strncmp fname (mem_chars m h (unat (strlen fname))) (unat (strlen fname)) \<noteq> 0"
  have ok: "length name \<le> 100" "0 \<notin> set name" using assms(1) f by (auto simp: tar_ok_def)
  have a: "tar_archive fs = tar_header name 0 @ tar_archive rest" using f by (simp add: tar_archive_def tar_entry_def)
  have "mem_bytes m h 512 = tar_header name 0"
    using assms(2) unfolding a mem_bytes_split length_tar_header [OF ok(1)] by blast
  note hf = header_fields [OF this ok]
  have "h < h + length (tar_archive fs)" unfolding a by (simp add: length_tar_header [OF ok(1)])
  thus "ustar_lookup fuel m (h + length (tar_archive fs)) h fname = Inl Hang"
    using hf f by (intro ustar_lookup_stuck) simp_all
qed

lemma archive_in_memory: "mem_bytes (\<lambda>x. if x < length bs then bs ! x else 0) 0 (length bs) = bs"
  by (rule nth_equalityI) (simp_all add: mem_bytes_def)

theorem ustar_roundtrip_witness:
  "let fs = [([97], []), ([98, 99], [1, 2, 3])]; bs = tar_archive fs; m = \<lambda>x. if x < length bs then bs ! x else 0 in
     (\<exists>ufs. ustar_list m (length bs) 0 = Inr ufs \<and> map (read_back m) ufs = fs) \<and> ustar_lookup 1000 m (length bs) 0 ''b'' = Inl Hang"
proof -
  define fs :: "(8 word list \<times> 8 word list) list" where "fs = [([97], []), ([98, 99], [1, 2, 3])]"
  define m where "m = (\<lambda>x. if x < length (tar_archive fs) then tar_archive fs ! x else 0)"
  have ok: "\<forall>f \<in> set fs. tar_ok f" by (simp add: fs_def tar_ok_def)
  note t = ustar_roundtrip [OF ok archive_in_memory [of "tar_archive fs", folded m_def]]
  have "tar_archive fs = 97 # tl (tar_archive fs)" by (simp add: tar_archive_def fs_def tar_entry_def tar_header_def)
  hence "m 0 = 97" unfolding m_def by (metis length_greater_0_conv list.distinct(1) nth_Cons_0)
  hence "strncmp ''b'' (mem_chars m 0 (unat (strlen ''b''))) (unat (strlen ''b'')) \<noteq> 0"
    by (simp add: strlen_def strncmp_def mem_chars_def char_of_def bit_iff_odd)
  with t show ?thesis unfolding fs_def [symmetric] Let_def m_def [symmetric] by (auto simp: fs_def)
qed

section \<open>Relocation\<close>

lemma mread_store_aux:
  "i + k = 8 \<Longrightarrow> mread (store64 m d w) (d + i) k = unat (drop_bit (8 * i) w)"
proof (induction k arbitrary: i)
  case 0
  have "drop_bit 64 w = 0" by (rule bit_word_eqI) (simp add: bit_simps)
  thus ?case using 0 by simp
next
  case (Suc k)
  let ?x = "unat (drop_bit (8 * i) w)"
  have "store64 m d w (d + i) = ucast (drop_bit (8 * i) w)" using Suc.prems by (simp add: store64_def)
  moreover have "unat (ucast (drop_bit (8 * i) w) :: 8 word) = ?x mod 256"
    by (simp add: unsigned_ucast_eq take_bit_eq_mod)
  moreover have "drop_bit (8 * Suc i) w = drop_bit 8 (drop_bit (8 * i) w)" by simp
  hence "unat (drop_bit (8 * Suc i) w) = ?x div 256"
    by (simp only: unat_drop_bit_eq) (simp add: drop_bit_eq_div)
  moreover have "mread (store64 m d w) (d + Suc i) k = unat (drop_bit (8 * Suc i) w)" using Suc by (intro Suc.IH) simp
  ultimately show ?case by simp
qed

lemma mread_store: "mread (store64 m d w) d 8 = unat w"
  using mread_store_aux [of 0 8 m d w] by simp

lemma store64_other: "x < d \<or> d + 8 \<le> x \<Longrightarrow> store64 m d w x = m x"
  by (auto simp: store64_def)

lemma mread_cong: "(\<And>x. p \<le> x \<Longrightarrow> x < p + n \<Longrightarrow> m' x = m x) \<Longrightarrow> mread m' p n = mread m p n"
  by (induction n arbitrary: p) simp_all

text \<open>Memory that agrees below an address, and strings that end there.\<close>

definition low_eq :: "nat \<Rightarrow> memory \<Rightarrow> memory \<Rightarrow> bool" where
  "low_eq B m m' \<longleftrightarrow> (\<forall>x < B. m' x = m x)"

definition low_str :: "nat \<Rightarrow> memory \<Rightarrow> nat \<Rightarrow> bool" where
  "low_str B m p \<longleftrightarrow> (\<exists>i. p + i < B \<and> m (p + i) = 0)"

lemma mread_low: "low_eq B m m' \<Longrightarrow> p + n \<le> B \<Longrightarrow> mread m' p n = mread m p n"
  by (rule mread_cong) (simp add: low_eq_def)

lemma same_str_low_aux:
  assumes "low_eq B m m'" "p + n < B" "m (p + n) = 0" "q + k < B" "m (q + k) = 0" "i \<le> n" "i \<le> k"
  shows "same_str (str_mem m' p) (str_mem m' q) i = same_str (str_mem m p) (str_mem m q) i"
  using assms(6,7)
proof (induction "n - i" arbitrary: i)
  case 0
  hence "i = n" by simp
  thus ?case using assms(1-5) "0.prems" by (subst (1 2) same_str.simps) (simp add: str_mem_def low_eq_def)
next
  case (Suc d)
  have e: "m' (p + i) = m (p + i)" "m' (q + i) = m (q + i)" using assms(1,2,4) Suc.prems by (simp_all add: low_eq_def)
  show ?case
  proof (cases "i = k")
    case True
    thus ?thesis using e assms(5) by (subst (1 2) same_str.simps) (simp add: str_mem_def)
  next
    case False
    hence "same_str (str_mem m' p) (str_mem m' q) (i + 1) = same_str (str_mem m p) (str_mem m q) (i + 1)"
      using Suc by simp
    thus ?thesis using e by (subst (1 2) same_str.simps) (simp add: str_mem_def)
  qed
qed

lemma streq_low:
  "low_eq B m m' \<Longrightarrow> low_str B m p \<Longrightarrow> low_str B m q \<Longrightarrow> streq (str_mem m' p) (str_mem m' q) = streq (str_mem m p) (str_mem m q)"
  unfolding low_str_def streq_def using same_str_low_aux [of B m m' p _ q _ 0] by force

lemma elf_low:
  assumes "low_eq B m m'"
  shows "add64 t (24 * i) + 24 \<le> B \<Longrightarrow> elf_sym m' t i = elf_sym m t i"
    "add64 t (24 * i) + 24 \<le> B \<Longrightarrow> elf_rela m' t i = elf_rela m t i"
    "shdr_at sh i + 64 \<le> B \<Longrightarrow> shdr m' sh i = shdr m sh i"
proof -
  note r = mread_low [OF assms]
  have b: "x < B \<Longrightarrow> m' x = m x" for x using assms by (simp add: low_eq_def)
  show "add64 t (24 * i) + 24 \<le> B \<Longrightarrow> elf_sym m' t i = elf_sym m t i" by (simp add: elf_sym_def r b Let_def)
  show "add64 t (24 * i) + 24 \<le> B \<Longrightarrow> elf_rela m' t i = elf_rela m t i" by (simp add: elf_rela_def r Let_def)
  show "shdr_at sh i + 64 \<le> B \<Longrightarrow> shdr m' sh i = shdr m sh i"
    by (simp add: shdr_def r Let_def)
qed

text \<open>The symbol, the place and the name of a relocation, and that everything that is read for it lies below \<open>B\<close>.\<close>

definition rel_sym :: "memory \<Rightarrow> nat \<Rightarrow> nat \<Rightarrow> nat \<Rightarrow> Elf64_Sym" where
  "rel_sym m symtab t j = elf_sym m symtab (r_info (elf_rela m t j) div 2 ^ 32)"

definition rel_target :: "memory \<Rightarrow> nat \<Rightarrow> nat \<Rightarrow> nat \<Rightarrow> nat \<Rightarrow> nat" where
  "rel_target m sh sec t j = add64 (sh_addr (shdr m sh sec)) (r_offset (elf_rela m t j))"

definition name_at :: "memory \<Rightarrow> nat \<Rightarrow> nat \<Rightarrow> nat \<Rightarrow> Elf64_Sym \<Rightarrow> nat" where
  "name_at m sh sst strtab y =
     (if st_info y = 3 then add64 sst (sh_name (shdr m sh (st_shndx y))) else add64 strtab (st_name y))"

definition ksyms_below :: "nat \<Rightarrow> memory \<Rightarrow> ksyms \<Rightarrow> bool" where
  "ksyms_below B m ks \<longleftrightarrow> (\<forall>k < ks_num ks. add64 (ks_syms ks) (24 * k) + 24 \<le> B \<and>
     low_str B m (add64 (ks_strtab ks) (st_name (elf_sym m (ks_syms ks) k))))"

definition rel_below :: "nat \<Rightarrow> memory \<Rightarrow> nat \<Rightarrow> nat \<Rightarrow> nat \<Rightarrow> nat \<Rightarrow> nat \<Rightarrow> nat \<Rightarrow> nat \<Rightarrow> bool" where
  "rel_below B m sh sst strtab symtab sec t j \<longleftrightarrow>
     shdr_at sh sec + 64 \<le> B \<and> add64 t (24 * j) + 24 \<le> B \<and>
     add64 symtab (24 * (r_info (elf_rela m t j) div 2 ^ 32)) + 24 \<le> B \<and>
     shdr_at sh (st_shndx (rel_sym m symtab t j)) + 64 \<le> B \<and>
     (st_shndx (rel_sym m symtab t j) = 0 \<longrightarrow> low_str B m (name_at m sh sst strtab (rel_sym m symtab t j)))"

lemma find_ksym_low:
  assumes "low_eq B m m'" "ksyms_below B m ks" "low_str B m p"
  shows "find_ksym m' ks (str_mem m' p) k = find_ksym m ks (str_mem m p) k"
proof (induction "ks_num ks - k" arbitrary: k)
  case 0
  thus ?case by (subst (1 2) find_ksym.simps) simp
next
  case (Suc d)
  hence k: "k < ks_num ks" "find_ksym m' ks (str_mem m' p) (k + 1) = find_ksym m ks (str_mem m p) (k + 1)" by simp_all
  have b: "add64 (ks_syms ks) (24 * k) + 24 \<le> B" "low_str B m (add64 (ks_strtab ks) (st_name (elf_sym m (ks_syms ks) k)))"
    using assms(2) k(1) by (simp_all add: ksyms_below_def)
  show ?case
    using k(2) elf_low(1) [OF assms(1) b(1)] streq_low [OF assms(1) b(2) assms(3)]
    by (subst (1 2) find_ksym.simps) (simp add: Let_def cong: if_cong)
qed

lemma resolve_alt:
  "resolve m sh ks sst strtab y =
     (if st_shndx y = 0 then find_ksym m ks (str_mem m (name_at m sh sst strtab y)) 0
      else Inr (Some (add64 (sh_addr (shdr m sh (st_shndx y))) (st_value y))))"
  by (simp add: resolve_def name_at_def Let_def)

lemma relocate_low:
  assumes "low_eq B m m'" "rel_below B m sh sst strtab symtab sec t j" "ksyms_below B m ks"
    and "resolve m sh ks sst strtab (rel_sym m symtab t j) = Inr (Some v)" "r_info (elf_rela m t j) mod 2 ^ 32 = 1"
  shows "relocate sh ks sst strtab symtab sec t j m' =
    Inr (store64 m' (rel_target m sh sec t j) (of_nat (add64 v (r_addend (elf_rela m t j)))))"
proof -
  note b = assms(2) [unfolded rel_below_def] and e = elf_low [OF assms(1)]
  let ?y = "rel_sym m symtab t j"
  have r: "elf_rela m' t j = elf_rela m t j" using e(2) b by blast
  have y: "elf_sym m' symtab (r_info (elf_rela m t j) div 2 ^ 32) = ?y" using e(1) b by (simp add: rel_sym_def)
  have s: "shdr m' sh sec = shdr m sh sec" "shdr m' sh (st_shndx ?y) = shdr m sh (st_shndx ?y)" using e(3) b by blast+
  have n: "name_at m' sh sst strtab ?y = name_at m sh sst strtab ?y" using s(2) by (simp add: name_at_def)
  have "resolve m' sh ks sst strtab ?y = resolve m sh ks sst strtab ?y"
    unfolding resolve_alt n s(2) using find_ksym_low [OF assms(1,3), of "name_at m sh sst strtab ?y" 0] b by (simp cong: if_cong)
  thus ?thesis using assms(4,5) unfolding relocate_def Let_def r y s(1) rel_target_def by simp
qed

lemma rfold_append: "rfold f (xs @ ys) s = rbind (rfold f xs s) (\<lambda>s. rfold f ys s)"
  by (induction xs arbitrary: s) (simp_all add: rbind_assoc)

lemma relocations_ok:
  assumes "ksyms_below B m ks"
    and "\<forall>j < n. rel_below B m sh sst strtab symtab sec t j \<and> B \<le> rel_target m sh sec t j \<and>
      r_info (elf_rela m t j) mod 2 ^ 32 = 1 \<and> resolve m sh ks sst strtab (rel_sym m symtab t j) = Inr (Some (v j))"
    and "\<forall>i < n. \<forall>j < i. rel_target m sh sec t i + 8 \<le> rel_target m sh sec t j \<or> rel_target m sh sec t j + 8 \<le> rel_target m sh sec t i"
  shows "\<exists>m'. rfold (relocate sh ks sst strtab symtab sec t) [0..<n] m = Inr m' \<and>
    (\<forall>j < n. mread m' (rel_target m sh sec t j) 8 = add64 (v j) (r_addend (elf_rela m t j))) \<and>
    (\<forall>x. (\<forall>j < n. x < rel_target m sh sec t j \<or> rel_target m sh sec t j + 8 \<le> x) \<longrightarrow> m' x = m x)"
  using assms(2,3)
proof (induction n)
  case (Suc n)
  let ?t = "rel_target m sh sec t" and ?v = "\<lambda>j. add64 (v j) (r_addend (elf_rela m t j))"
  obtain m1 where 1: "rfold (relocate sh ks sst strtab symtab sec t) [0..<n] m = Inr m1"
    "\<forall>j < n. mread m1 (?t j) 8 = ?v j" "\<forall>x. (\<forall>j < n. x < ?t j \<or> ?t j + 8 \<le> x) \<longrightarrow> m1 x = m x"
    using Suc.IH Suc.prems by auto
  have low: "low_eq B m m1" unfolding low_eq_def using 1(3) Suc.prems(1) by (meson less_SucI order_less_le_trans)
  let ?m = "store64 m1 (?t n) (of_nat (?v n))"
  have "relocate sh ks sst strtab symtab sec t n m1 = Inr ?m"
    using Suc.prems(1) by (intro relocate_low [OF low _ assms(1)]) simp_all
  hence run: "rfold (relocate sh ks sst strtab symtab sec t) [0..<Suc n] m = Inr ?m" using 1(1) by (simp add: rfold_append)
  have "unat (of_nat (?v n) :: 64 word) = ?v n"
    by (simp add: unsigned_of_nat take_bit_eq_mod add64_def)
  hence new: "mread ?m (?t n) 8 = ?v n" by (simp add: mread_store)
  have old: "mread ?m (?t j) 8 = ?v j" if j: "j < n" for j
  proof -
    have "?t n + 8 \<le> ?t j \<or> ?t j + 8 \<le> ?t n" using Suc.prems(2) j by simp
    hence "mread ?m (?t j) 8 = mread m1 (?t j) 8" by (intro mread_cong store64_other) linarith
    thus ?thesis using 1(2) j by simp
  qed
  have "\<forall>j < Suc n. mread ?m (?t j) 8 = ?v j" using new old by (auto simp: less_Suc_eq)
  moreover have "?m x = m x" if "\<forall>j < Suc n. x < ?t j \<or> ?t j + 8 \<le> x" for x
    using that 1(3) store64_other [of x "?t n" m1] by simp
  ultimately show ?case using run by blast
qed simp


text \<open>An image at address 0 with the section headers at 64, one section at 4096 and one relocation at 512 for the symbol at 256.\<close>

definition tiny_image :: memory where
  "tiny_image = ((\<lambda>_. 0)(40 := 64, 60 := 3, 64 + 64 + 17 := 0x10, 64 + 128 + 4 := 4, 64 + 128 + 25 := 2, 64 + 128 + 32 := 24, 64 + 128 + 44 := 1,
     256 + 24 + 6 := 1, 256 + 24 + 8 := 0x20, 512 := 0x40, 520 := 1, 524 := 1, 528 := 5))"

lemma mread_4: "mread m p 4 = unat (m p) + 256 * (unat (m (p + 1)) + 256 * (unat (m (p + 2)) + 256 * unat (m (p + 3))))"
proof -
  have "mread m p (Suc (Suc (Suc (Suc 0)))) =
      unat (m p) + 256 * (unat (m (p + 1)) + 256 * (unat (m (p + 2)) + 256 * unat (m (p + 3))))"
    unfolding mread.simps by (simp add: numeral_3_eq_3)
  moreover have "Suc (Suc (Suc (Suc 0))) = 4" by simp
  ultimately show ?thesis by simp
qed

lemma mread_add: "mread m p (j + k) = mread m p j + 256 ^ j * mread m (p + j) k"
  by (induction j arbitrary: p) (simp_all add: algebra_simps)

lemma mread_8: "mread m p 8 = mread m p 4 + 2 ^ 32 * mread m (p + 4) 4"
  using mread_add [of m p 4 4] by simp

lemma mread_2: "mread m p 2 = unat (m p) + 256 * unat (m (p + 1))"
proof -
  have "mread m p (Suc (Suc 0)) = unat (m p) + 256 * unat (m (p + 1))" unfolding mread.simps by simp
  thus ?thesis by (simp add: numeral_2_eq_2)
qed

lemma mread_1: "mread m p 1 = unat (m p)"
  by simp

lemmas mreads = mread_8 mread_4 mread_2 mread_1


section \<open>Slots\<close>

text \<open>C40: a module is placed in the lowest of the 64 areas of one GiB that is free, which is then in use. With all of them in use it is
  placed below the first area instead of being refused, and so is every further one.\<close>

theorem module_slot_spec:
  assumes "ld_slots st = Some b" "bitmap_wf b" "sz b = 64"
  shows "(\<forall>i < 64. \<not> bits b i \<longrightarrow>
      (\<exists>j b'. module_slot st = Inr (MODULES_BASE + 2 ^ 30 * j, st\<lparr>ld_slots := Some b'\<rparr>) \<and> j \<le> i \<and> \<not> bits b j \<and>
        bitmap_wf b' \<and> sz b' = 64 \<and> bits b' = (bits b)(j := True))) \<and>
    ((\<forall>i < 64. bits b i) \<longrightarrow> module_slot st = Inr (MODULES_BASE - 2 ^ 30, st))"
proof (intro conjI allI impI)
  fix i :: nat assume i: "i < 64" "\<not> bits b i"
  obtain j b' where j: "find_and_set b 0 = Inr (j, b')" "j \<le> i" "\<not> bits b j" "bitmap_wf b'" "sz b' = sz b" "bits b' = (bits b)(j := True)"
    using slots.take_free [OF assms(2), of i] assms(3) i by auto
  have "add64 MODULES_BASE (mul64 (gibs2bytes 1) j) = MODULES_BASE + 2 ^ 30 * j"
    using j(2) i(1) by (simp add: add64_def mul64_def gibs2bytes_def push_bit_eq_mult)
  hence "module_slot st = Inr (MODULES_BASE + 2 ^ 30 * j, st\<lparr>ld_slots := Some b'\<rparr>)"
    using j(1) assms(1) by (simp add: module_slot_def)
  thus "\<exists>j b'. module_slot st = Inr (MODULES_BASE + 2 ^ 30 * j, st\<lparr>ld_slots := Some b'\<rparr>) \<and> j \<le> i \<and> \<not> bits b j \<and>
      bitmap_wf b' \<and> sz b' = 64 \<and> bits b' = (bits b)(j := True)"
    using j assms(3) by auto
next
  assume "\<forall>i < 64. bits b i"
  hence "find_and_set b 0 = Inr (NPOS, b)" using slots.take_full [OF assms(2)] assms(3) by simp
  moreover have "st\<lparr>ld_slots := Some b\<rparr> = st" using assms(1) by (cases st) simp
  ultimately show "module_slot st = Inr (MODULES_BASE - 2 ^ 30, st)"
    using assms(1) by (simp add: module_slot_def add64_def mul64_def gibs2bytes_def push_bit_eq_mult NPOS_def)
qed

definition empty_loader :: "bitmap \<Rightarrow> loader" where
  "empty_loader b =
     \<lparr>ld_mem = (\<lambda>_. 0), ld_vm = \<lparr>tables = (\<lambda>t i. 0), wmst = \<lparr>wm_cursor = 0, wm_free = 0, wm_mutex = 0\<rparr>, pml4 = 0, cr3reg = 0\<rparr>,
      ld_pmm = \<lparr>pmm_freemem = 0, pmm_usedmem = 0, pmm_reservedmem = 0, pmm_bm = b, pmm_buffer = 0, pmm_mutex = 0\<rparr>,
      ld_heap = \<lparr>links = (\<lambda>_. null_link), first = None, bm = b, capacity = 0, usedmem = 0, freemem = 0, heap_base = 0, mtx = 0, ram = (\<lambda>_. 0)\<rparr>,
      ld_slots = Some b, ld_ksyms = \<lparr>ks_syms = 0, ks_num = 0, ks_strtab = 0\<rparr>\<rparr>"

theorem module_slot_spec_witness:
  "(\<exists>b. module_slot (empty_loader \<lparr>buffer = [0], sz = 64\<rparr>) =
      Inr (MODULES_BASE, (empty_loader \<lparr>buffer = [0], sz = 64\<rparr>)\<lparr>ld_slots := Some b\<rparr>)) \<and>
   module_slot (empty_loader \<lparr>buffer = [- 1], sz = 64\<rparr>) = Inr (0xffffffefc0000000, empty_loader \<lparr>buffer = [- 1], sz = 64\<rparr>)"
proof
  have e: "ld_slots (empty_loader b) = Some b" for b by (simp add: empty_loader_def)
  have wf: "bitmap_wf \<lparr>buffer = [w], sz = 64\<rparr>" for w by (simp add: bitmap_wf_def)
  have "\<not> bits \<lparr>buffer = [0], sz = 64\<rparr> 0" by (simp add: bits_def)
  thus "\<exists>b. module_slot (empty_loader \<lparr>buffer = [0], sz = 64\<rparr>) =
      Inr (MODULES_BASE, (empty_loader \<lparr>buffer = [0], sz = 64\<rparr>)\<lparr>ld_slots := Some b\<rparr>)"
    using conjunct1 [OF module_slot_spec [OF e wf, of 0], rule_format, of 0] by auto
  have "\<forall>i < 64. bits \<lparr>buffer = [- 1], sz = 64\<rparr> i" by (simp add: bits_def)
  thus "module_slot (empty_loader \<lparr>buffer = [- 1], sz = 64\<rparr>) = Inr (0xffffffefc0000000, empty_loader \<lparr>buffer = [- 1], sz = 64\<rparr>)"
    using conjunct2 [OF module_slot_spec [OF e wf, of "- 1"]] by simp
qed

end
