(* ===== verification/Spec2Isabelle.thy ===== *)
theory Spec2Isabelle
  imports HeapAligned Printf Amd64 Fat Input Modules
begin

text \<open>
  Verification of NeptunOS, an x86-64 kernel in C++. Paths are relative to \<^verbatim>\<open>src/kernel/src\<close> if nothing else is said.

  \<^bold>\<open>The program.\<close> \<^verbatim>\<open>kmain\<close> sets up the processor (\<^verbatim>\<open>arch/amd64\<close>), gives the memory map of the boot loader to the page
  allocator (\<^verbatim>\<open>mm/pmm.cc\<close>), which also feeds the watermark allocator (\<^verbatim>\<open>mm/vmm.cc\<close>) that page tables are taken
  from, and starts the kernel heap (\<^verbatim>\<open>util/mm.cc\<close>), whose pages are mapped on demand by the page fault handler. On the
  heap stand the containers of \<^verbatim>\<open>util\<close>; on these the scheduler, the file systems and the device manager. The
  search of the PCI bus registers devices and launches the modules that drive them; disks are read through their
  partition table and the FAT32 module.

  \<^bold>\<open>How code is represented.\<close> A routine is a function on the state it changes. It returns \<open>Inr\<close> of its result, or \<open>Inl\<close> of the
  reason why it does not return: a call of \<^verbatim>\<open>fatal\<close> or a failed assertion, an access the language leaves undefined,
  or a loop that never ends. Values of 64 and 32 bits are natural numbers with explicit wrap-around where
  addresses and lengths are computed, and machine words where bits matter. Output of messages is left out.

  \<^bold>\<open>Theories.\<close>
  \<^item> \<open>Prelude\<close>: results, wrap-around arithmetic and the macros of \<^verbatim>\<open>util/bits/arithmetic.hh\<close>.
  \<^item> \<open>Bitmap\<close> (\<^verbatim>\<open>util/bitmap.hh\<close>): the search returns the first run of clear bits and marks exactly that; \<open>slot_allocator\<close>
    is the contract of handing out bits.
  \<^item> \<open>Async\<close> (\<^verbatim>\<open>util/async.hh\<close>): the spin lock under every interleaving of threads: exclusion, and progress once it is free.
  \<^item> \<open>Region\<close>, \<open>Watermark\<close>, \<open>Pmm\<close> (\<^verbatim>\<open>mm/vmm.cc\<close>, \<^verbatim>\<open>mm/pmm.cc\<close>): the contract \<open>region_allocator\<close>, and the two allocators as
    instances of it. Below it is proved that nothing they hand out overlaps.
  \<^item> \<open>Mem\<close> (\<^verbatim>\<open>util/mem.cc\<close>): the memory routines against their byte-wise meaning.
  \<^item> \<open>DList\<close>, \<open>MemMgr\<close>, \<open>Blocks\<close>, \<open>Heap\<close>, \<open>HeapProps\<close>, \<open>HeapAligned\<close> (\<^verbatim>\<open>util/mm.cc\<close>, \<^verbatim>\<open>mm.hh\<close>): linked nodes, the
    heap as it is written, the heap as a list of blocks, and the simulation between both: first fit, coalescing,
    red zones and aligned allocation.
  \<^item> \<open>Paging\<close>, \<open>PageWalk\<close> (\<^verbatim>\<open>arch/amd64/paging.cc\<close>, \<^verbatim>\<open>paging.hh\<close>): \<^verbatim>\<open>map_page\<close> changes the translation of exactly one page,
    and \<^verbatim>\<open>paging_lookup\<close> finds it.
  \<^item> \<open>CString\<close>, \<open>Printf\<close> (\<^verbatim>\<open>util/string.cc\<close>, \<^verbatim>\<open>string.hh\<close>, \<^verbatim>\<open>printf.cc\<close>): the C string routines, bounded output and the round trip
    of printing and parsing numbers.
  \<^item> \<open>Vector\<close>, \<open>KString\<close>, \<open>LinkedList\<close>, \<open>HashMap\<close>, \<open>Containers\<close> (\<^verbatim>\<open>util/storage.hh\<close>, \<^verbatim>\<open>variant.hh\<close>, \<^verbatim>\<open>smartptrs.hh\<close>, \<^verbatim>\<open>arena.hh\<close>,
    \<^verbatim>\<open>heapbitmap.hh\<close>, \<^verbatim>\<open>guid.hh\<close>): each container against lists or maps; \<open>appender\<close> is the contract of growing arrays.
  \<^item> \<open>Fs\<close> (\<^verbatim>\<open>fs/fs.cc\<close>, \<^verbatim>\<open>fs/vfs.cc\<close>): paths, mount points and files in memory.
  \<^item> \<open>Scheduler\<close> (\<^verbatim>\<open>scheduler/scheduler.cc\<close>): ticks go round the ring and every task resumes with its own context.
  \<^item> \<open>Amd64\<close> (\<^verbatim>\<open>arch/amd64/gdt.cc\<close>, \<^verbatim>\<open>tss.cc\<close>, \<^verbatim>\<open>idt.cc\<close>, \<^verbatim>\<open>pit.cc\<close>, \<^verbatim>\<open>amd64.cc\<close>): descriptors, vectors, and the
    page fault handler composed from the page allocator and \<^verbatim>\<open>map_page\<close>.
  \<^item> \<open>Fat\<close> (\<^verbatim>\<open>devmgr/msd/msd.cc\<close>, \<^verbatim>\<open>src/kernel/modules/fat\<close>): reading a file through its chain of clusters.
  \<^item> \<open>Pci\<close> (\<^verbatim>\<open>pci/pci.cc\<close>, \<^verbatim>\<open>devmgr/devmgr.cc\<close>): configuration registers, the search of a bus, base address registers, message
    signalled interrupts and the choice of modules.
  \<^item> \<open>Input\<close> (\<^verbatim>\<open>devmgr/input/input.cc\<close>, \<^verbatim>\<open>cmdline/cmdline.cc\<close>, \<^verbatim>\<open>src/kernel/modules/ps2\<close>): scan codes become key strokes, key strokes an
    edited line, and the line a call of a command.
  \<^item> \<open>Modules\<close> (\<^verbatim>\<open>util/ustar.cc\<close>, \<^verbatim>\<open>util/elf.hh\<close>, \<^verbatim>\<open>util/ksyms.cc\<close>, \<^verbatim>\<open>devmgr/module.cc\<close>): an archive is listed as it was
    written, relocation writes the right values and nothing else, and modules get areas of their own up to the 64th.

  \<^bold>\<open>Arguments of the model.\<close> The sectors a disk driver reads (\<open>Fat\<close>), the registers of PCI devices (\<open>Pci\<close>), the ports of the
  keyboard controller (\<open>Input\<close>), the code of a launched module (\<open>Pci\<close>, \<open>Modules\<close>), addresses of new objects on the heap where
  a container only needs them to be new, and the content of fresh memory. \<open>port_config\<close> states the documented behaviour of the PCI ports; a register array satisfies it.

  \<^bold>\<open>Bounds and fuel.\<close> Walks over linked nodes have more fuel than there are nodes, so running out means a circle.
  The recursive heap check stops the kernel at the first damage; its depth of 128 is passed only through damaged neighbours, and an
  intact block needs one step. The lookup of a path takes as many rounds as it has characters at most. Chains of
  clusters, capabilities, bridges and the headers of a lookup in an archive come from outside and may be circular:
  fuel is an argument there, and the theorem on chains holds whenever it reaches the length of the chain. Theorems on the watermark allocator assume that the
  direct map holds at most 32 TiB.

  \<^bold>\<open>Not modelled.\<close>
  \<^item> Loading user programs (\<^verbatim>\<open>loader\<close>): it writes through a second address space, which the memory of \<open>Modules\<close> does not distinguish.
  \<^item> ACPI, APIC and further processors (\<^verbatim>\<open>acpi\<close>, \<^verbatim>\<open>arch/amd64/apic.cc\<close>, \<^verbatim>\<open>smp.cc\<close>), system calls, USB, and the modules for
    AHCI and EHCI: protocols with the hardware that have not been translated.
  \<^item> The console, stack traces, \<^verbatim>\<open>main.cc\<close>, \<^verbatim>\<open>test.cc\<close>, the declarations of the boot protocol, assembly files, the start
    for aarch64 and the user programs: output, glue or code outside C++.
  \<^item> Adding commands to the command line, which is insertion into an arena, and \<^verbatim>\<open>modules_launch_fs\<close>.
  \<^item> Floating point output of \<^verbatim>\<open>printf.cc\<close>, and devices other than PCI in the device manager.
\<close>

section \<open>Properties across components\<close>



end
